(* ===== verification/Itch_Prelude.thy ===== *)
theory Itch_Prelude
  imports Main "HOL-Library.Word"
begin

text \<open>
  The vocabulary shared by all components: machine integers and byte strings,
  the error monad used for Rust's \<open>Result\<close> and \<open>?\<close>, the checked and
  saturating arithmetic of the standard library, big-endian conversion, byte
  ranges of a buffer, and the ordered association lists that stand for
  \<open>BTreeMap\<close>.  Everything here is generic: no definition of this theory
  mentions the ITCH protocol.
\<close>

named_theorems result_simps \<open>evaluation of the error monad\<close>
named_theorems buffer_simps \<open>reads and writes of byte ranges in a buffer\<close>
named_theorems omap_simps \<open>lookup, insertion and removal in ordered maps\<close>

section \<open>Machine integers and byte strings\<close>

type_synonym u8 = "8 word"
type_synonym u16 = "16 word"
type_synonym u32 = "32 word"
type_synonym u64 = "64 word"
type_synonym bytes = "u8 list"

text \<open>\<open>usize\<close> values are natural numbers; its 64-bit bound is written out where
  the code checks it.\<close>

abbreviation usize_max :: nat where
  "usize_max \<equiv> 2 ^ 64 - 1"

definition checked_add_usize :: "nat \<Rightarrow> nat \<Rightarrow> nat option" where
  "checked_add_usize a b = (if a + b \<le> usize_max then Some (a + b) else None)"

definition saturating_add :: "'w::len word \<Rightarrow> 'w word \<Rightarrow> 'w word" where
  "saturating_add a b = (if unat a + unat b < 2 ^ LENGTH('w) then a + b else - 1)"

definition saturating_sub :: "'w::len word \<Rightarrow> 'w word \<Rightarrow> 'w word" where
  "saturating_sub a b = (if b \<le> a then a - b else 0)"

definition checked_add :: "'w::len word \<Rightarrow> 'w word \<Rightarrow> 'w word option" where
  "checked_add a b = (if unat a + unat b < 2 ^ LENGTH('w) then Some (a + b) else None)"

definition checked_mul :: "'w::len word \<Rightarrow> 'w word \<Rightarrow> 'w word option" where
  "checked_mul a b = (if unat a * unat b < 2 ^ LENGTH('w) then Some (a * b) else None)"

lemma unat_saturating_add:
  "unat (saturating_add a b) = min (unat a + unat b) (2 ^ LENGTH('w) - 1)"
  for a b :: "'w::len word"
  by (auto simp: saturating_add_def unat_word_ariths unsigned_minus_1_eq_mask mask_eq_exp_minus_1 min_def)

lemma unat_saturating_sub:
  "unat (saturating_sub a b) = unat a - unat b"
  by (auto simp: saturating_sub_def unat_sub word_le_nat_alt)

lemma saturating_sub_eq_0: "saturating_sub a b = 0 \<longleftrightarrow> unat a \<le> unat b"
  using unat_saturating_sub [of a b] unat_eq_0 [of "saturating_sub a b"] by simp

lemma saturating_sub_self [simp]: "saturating_sub a a = 0"
  by (simp add: saturating_sub_def)

lemma unat_u64_less: "unat (v :: u64) < 2 ^ 64"
  using unsigned_less [of v] by simp

lemma unat_add_of_nat:
  "unat (w :: u64) + i < 2 ^ 64 \<Longrightarrow> unat (w + of_nat i) = unat w + i"
  by (simp add: unat_word_ariths unat_of_nat)

lemma unat_Suc_u64: "unat (w :: u64) + 1 < 2 ^ 64 \<Longrightarrow> unat (w + 1) = unat w + 1"
  using unat_add_of_nat [of w 1] by simp

lemma unat_max_u64: "unat (- 1 :: u64) = 2 ^ 64 - 1"
  by (simp add: unsigned_minus_1_eq_mask mask_eq_exp_minus_1)

lemma not_max_u64: "(w :: u64) \<noteq> - 1 \<Longrightarrow> unat w + 1 < 2 ^ 64"
  using unat_u64_less [of w] unat_max_u64 by (metis Suc_eq_plus1 diff_Suc_1 less_antisym not_less_eq word_unat_eq_iff)

lemma saturating_Suc_u64: "saturating_add (w :: u64) 1 = (if w = - 1 then - 1 else w + 1)"
  using not_max_u64 [of w] unat_max_u64 by (auto simp: saturating_add_def)

lemma checked_add_SomeD:
  "checked_add a b = Some c \<Longrightarrow> unat c = unat a + unat b"
  by (auto simp: checked_add_def unat_word_ariths split: if_splits)

lemma checked_mul_SomeD:
  "checked_mul a b = Some c \<Longrightarrow> unat c = unat a * unat b"
  by (auto simp: checked_mul_def unat_word_ariths split: if_splits)

section \<open>Results\<close>

text \<open>\<open>std::task::Poll\<close>: the value a poll returned, or that it has to be polled again.\<close>

datatype 'a Poll = Ready 'a | Pending


text \<open>\<open>Result<T, E>\<close> is \<open>'e + 'a\<close> with \<^const>\<open>Inl\<close> the error; the question-mark
  operator followed by the rest of the function body is \<open>and_then\<close>.\<close>

fun and_then :: "'e + 'a \<Rightarrow> ('a \<Rightarrow> 'e + 'b) \<Rightarrow> 'e + 'b" where
  "and_then (Inl e) f = Inl e"
| "and_then (Inr x) f = f x"

definition ok_or :: "'a option \<Rightarrow> 'e \<Rightarrow> 'e + 'a" where
  "ok_or x e = (case x of None \<Rightarrow> Inl e | Some v \<Rightarrow> Inr v)"

fun map_err :: "('e \<Rightarrow> 'f) \<Rightarrow> 'e + 'a \<Rightarrow> 'f + 'a" where
  "map_err f (Inl e) = Inl (f e)"
| "map_err f (Inr x) = Inr x"

declare and_then.simps [result_simps] map_err.simps [result_simps]

lemma ok_or_simps [simp, result_simps]:
  "ok_or None e = Inl e" "ok_or (Some v) e = Inr v"
  by (simp_all add: ok_or_def)

lemma and_then_eq_Inr_iff [result_simps]:
  "and_then r f = Inr y \<longleftrightarrow> (\<exists>x. r = Inr x \<and> f x = Inr y)"
  by (cases r) auto

lemma and_then_eq_Inl_iff:
  "and_then r f = Inl e \<longleftrightarrow> r = Inl e \<or> (\<exists>x. r = Inr x \<and> f x = Inl e)"
  by (cases r) auto

lemma and_then_assoc: "and_then (and_then r f) g = and_then r (\<lambda>x. and_then (f x) g)"
  by (cases r) auto

lemma and_then_cong [fundef_cong]:
  "r = r' \<Longrightarrow> (\<And>x. r' = Inr x \<Longrightarrow> f x = f' x) \<Longrightarrow> and_then r f = and_then r' f'"
  by (cases r') auto

section \<open>Big-endian conversion\<close>

text \<open>\<open>from_be_bytes\<close> and \<open>to_be_bytes\<close>, on the value of the integer; a width is
  chosen by the callers.\<close>

fun be_val :: "bytes \<Rightarrow> nat" where
  "be_val [] = 0"
| "be_val (b # bs) = unat b * 256 ^ length bs + be_val bs"

fun to_be :: "nat \<Rightarrow> nat \<Rightarrow> bytes" where
  "to_be 0 v = []"
| "to_be (Suc n) v = of_nat (v div 256 ^ n mod 256) # to_be n v"

lemma length_to_be [simp]: "length (to_be n v) = n"
  by (induction n) simp_all

lemma unat_u8_less: "unat (b :: u8) < 256"
proof -
  have "unat b < 2 ^ LENGTH(8)" by (rule unsigned_less)
  then show ?thesis by simp
qed

lemma be_val_less: "be_val bs < 256 ^ length bs"
proof (induction bs)
  case (Cons b bs)
  have "unat b \<le> 255" using unat_u8_less [of b] by simp
  then have "unat b * 256 ^ length bs \<le> 255 * 256 ^ length bs" by simp
  with Cons show ?case
    unfolding be_val.simps length_Cons power_Suc by linarith
qed simp

lemma be_val_to_be: "be_val (to_be n v) = v mod 256 ^ n"
proof (induction n)
  case (Suc n)
  have "v mod 256 ^ Suc n = 256 ^ n * (v div 256 ^ n mod 256) + v mod 256 ^ n"
    using mod_mult2_eq [of v "256 ^ n" 256] by (simp add: mult.commute)
  with Suc show ?case by (simp add: unat_of_nat mult.commute)
qed simp

lemma to_be_mod: "to_be n (v mod 256 ^ m) = to_be n v" if "n \<le> m"
  using that
proof (induction n)
  case (Suc n)
  then obtain k where m: "m = n + Suc k"
    using less_iff_Suc_add [of n m] by (auto simp: less_eq_Suc_le)
  have "v mod 256 ^ m = 256 ^ n * (v div 256 ^ n mod 256 ^ Suc k) + v mod 256 ^ n"
    unfolding m power_add by (rule mod_mult2_eq)
  then have "v mod 256 ^ m div 256 ^ n = v div 256 ^ n mod 256 ^ Suc k" by simp
  then have "v mod 256 ^ m div 256 ^ n mod 256 = v div 256 ^ n mod 256"
    by (simp add: mod_mod_cancel)
  with Suc show ?case by simp
qed simp

lemma to_be_be_val: "to_be (length bs) (be_val bs) = bs"
proof (induction bs)
  case (Cons b bs)
  have eq: "be_val (b # bs) mod 256 ^ length bs = be_val bs"
    using be_val_less [of bs] by simp
  have "to_be (length bs) (be_val (b # bs)) = to_be (length bs) (be_val bs)"
    using to_be_mod [of "length bs" "length bs" "be_val (b # bs)"] eq by simp
  moreover have "be_val (b # bs) div 256 ^ length bs = unat b"
    using be_val_less [of bs] by simp
  moreover have "unat b mod 256 = unat b" using unat_u8_less [of b] by simp
  ultimately show ?case using Cons by simp
qed simp

lemma to_be_eqI: "length bs = n \<Longrightarrow> be_val bs = v \<Longrightarrow> to_be n v = bs"
  using to_be_be_val [of bs] by simp

lemma to_be_inject:
  "v < 256 ^ n \<Longrightarrow> w < 256 ^ n \<Longrightarrow> to_be n v = to_be n w \<Longrightarrow> v = w"
  by (metis be_val_to_be mod_less)

section \<open>Byte ranges of a buffer\<close>

text \<open>\<open>&buf[off..off + n]\<close> and the buffer after \<open>copy_from_slice\<close> into that range.\<close>

definition subslice :: "'a list \<Rightarrow> nat \<Rightarrow> nat \<Rightarrow> 'a list" where
  "subslice buf off n = take n (drop off buf)"

definition copy_from_slice :: "'a list \<Rightarrow> nat \<Rightarrow> 'a list \<Rightarrow> 'a list" where
  "copy_from_slice buf off src = take off buf @ src @ drop (off + length src) buf"

lemma length_subslice [simp]: "off + n \<le> length buf \<Longrightarrow> length (subslice buf off n) = n"
  by (simp add: subslice_def)

lemma length_copy_from_slice [simp, buffer_simps]:
  "off + length src \<le> length buf \<Longrightarrow> length (copy_from_slice buf off src) = length buf"
  by (simp add: copy_from_slice_def)

lemma subslice_copy_same [buffer_simps]:
  "off + length src \<le> length buf \<Longrightarrow> n = length src
    \<Longrightarrow> subslice (copy_from_slice buf off src) off n = src"
  by (simp add: subslice_def copy_from_slice_def)

lemma subslice_copy_below [buffer_simps]:
  "off + length src \<le> length buf \<Longrightarrow> o' + n \<le> off
    \<Longrightarrow> subslice (copy_from_slice buf off src) o' n = subslice buf o' n"
  by (simp add: subslice_def copy_from_slice_def) (simp add: drop_take)

lemma subslice_copy_above [buffer_simps]:
  "off + length src \<le> length buf \<Longrightarrow> off + length src \<le> o'
    \<Longrightarrow> subslice (copy_from_slice buf off src) o' n = subslice buf o' n"
  by (simp add: subslice_def copy_from_slice_def)

lemma drop_copy_from_slice [buffer_simps]:
  "off + length src \<le> k \<Longrightarrow> k \<le> length buf
    \<Longrightarrow> drop k (copy_from_slice buf off src) = drop k buf"
  by (simp add: copy_from_slice_def)

lemma subslice_append_left [simp]:
  "off + n \<le> length xs \<Longrightarrow> subslice (xs @ ys) off n = subslice xs off n"
  by (simp add: subslice_def)

lemma subslice_take [simp]:
  "off + n \<le> k \<Longrightarrow> subslice (take k xs) off n = subslice xs off n"
  by (simp add: subslice_def drop_take min_def)

lemma take_copy_extend:
  "take k out = take k buf \<Longrightarrow> k + n \<le> length out \<Longrightarrow> k + n \<le> length buf
    \<Longrightarrow> take (k + n) (copy_from_slice out k (subslice buf k n)) = take (k + n) buf"
  by (simp add: copy_from_slice_def subslice_def take_add)

section \<open>Ordered maps\<close>

text \<open>
  A \<open>BTreeMap\<close> is the list of its entries in ascending key order, which is the
  order its iterators use.  \<open>get\<close> is \<^const>\<open>map_of\<close>, \<open>first_key_value\<close> the head of
  the list.
\<close>

type_synonym ('k, 'v) btree = "('k \<times> 'v) list"

definition btree_ok :: "('k::linorder, 'v) btree \<Rightarrow> bool" where
  "btree_ok m = sorted_wrt (<) (map fst m)"

fun btree_insert :: "'k::linorder \<Rightarrow> 'v \<Rightarrow> ('k, 'v) btree \<Rightarrow> ('k, 'v) btree" where
  "btree_insert k v [] = [(k, v)]"
| "btree_insert k v ((k', v') # m) =
    (if k < k' then (k, v) # (k', v') # m
     else if k = k' then (k, v) # m
     else (k', v') # btree_insert k v m)"

definition btree_remove :: "'k::linorder \<Rightarrow> ('k, 'v) btree \<Rightarrow> ('k, 'v) btree" where
  "btree_remove k m = filter (\<lambda>e. fst e \<noteq> k) m"

lemma btree_ok_Nil [simp]: "btree_ok []"
  by (simp add: btree_ok_def)

lemma btree_ok_Cons:
  "btree_ok ((k, v) # m) \<longleftrightarrow> (\<forall>k' \<in> fst ` set m. k < k') \<and> btree_ok m"
  by (auto simp: btree_ok_def)

lemma keys_btree_insert: "fst ` set (btree_insert k v m) = insert k (fst ` set m)"
  by (induction k v m rule: btree_insert.induct) (simp_all add: insert_commute)

lemma btree_ok_insert [simp, intro]: "btree_ok m \<Longrightarrow> btree_ok (btree_insert k v m)"
  by (induction k v m rule: btree_insert.induct)
    (auto simp: btree_ok_Cons keys_btree_insert intro: less_trans
      simp del: ball_simps image_iff)

lemma btree_ok_remove [simp, intro]: "btree_ok m \<Longrightarrow> btree_ok (btree_remove k m)"
  by (induction m) (auto simp: btree_ok_Cons btree_remove_def)

lemma keys_btree_remove: "fst ` set (btree_remove k m) = fst ` set m - {k}"
  by (auto simp: btree_remove_def)

lemma length_btree_insert: "length (btree_insert k v m) \<le> Suc (length m)"
  by (induction k v m rule: btree_insert.induct) auto

lemma map_of_btree_insert [omap_simps]:
  "btree_ok m \<Longrightarrow> map_of (btree_insert k v m) = (map_of m)(k \<mapsto> v)"
proof (induction m)
  case (Cons e m)
  obtain k' v' where e: "e = (k', v')" by (cases e)
  from Cons show ?case by (auto simp: e btree_ok_Cons fun_eq_iff)
qed simp

lemma map_of_btree_remove [omap_simps]:
  "map_of (btree_remove k m) = (map_of m)(k := None)"
  by (induction m) (auto simp: btree_remove_def fun_eq_iff)

lemma btree_eqI:
  "btree_ok m \<Longrightarrow> btree_ok m' \<Longrightarrow> map_of m = map_of m' \<Longrightarrow> m = m'"
proof (induction m arbitrary: m')
  case Nil
  then show ?case by (cases m') (auto simp: fun_eq_iff split: if_splits)
next
  case (Cons e m)
  obtain k v where e: "e = (k, v)" by (cases e)
  from Cons.prems e obtain e' n where m': "m' = e' # n"
    by (cases m') (auto simp: fun_eq_iff split: if_splits)
  obtain k' v' where e': "e' = (k', v')" by (cases e')
  have below: "a < b" if "btree_ok ((a, x) # l)" "map_of l b = Some y" for a x l b y
    using that by (auto simp: btree_ok_Cons dest!: map_of_SomeD)
  have eq: "map_of (e # m) j = map_of (e' # n) j" for j
    using Cons.prems(3) m' by (simp add: fun_eq_iff)
  have "k = k'"
  proof (rule ccontr)
    assume ne: "k \<noteq> k'"
    then have "map_of n k = Some v" "map_of m k' = Some v'"
      using eq [of k] eq [of k'] e e' by (auto split: if_splits)
    with below [of k' v' n k v] below [of k v m k' v'] Cons.prems e e' m' show False by auto
  qed
  moreover have "v = v'" using eq [of k] e e' \<open>k = k'\<close> by simp
  moreover have "map_of m j = map_of n j" for j
  proof (cases "j = k")
    case True
    have "map_of m k = None" "map_of n k = None"
      using Cons.prems e e' m' \<open>k = k'\<close> by (auto simp: map_of_eq_None_iff btree_ok_Cons)
    with True show ?thesis by simp
  next
    case False
    then show ?thesis using eq [of j] e e' \<open>k = k'\<close> by simp
  qed
  then have "m = n" using Cons e m' e' by (auto simp: btree_ok_Cons fun_eq_iff)
  ultimately show ?case using e e' m' by simp
qed

lemma map_of_btree_first:
  "btree_ok ((k, v) # m) \<Longrightarrow> map_of ((k, v) # m) k' = Some v' \<Longrightarrow> k \<le> k'"
  by (auto simp: btree_ok_Cons split: if_splits dest!: map_of_SomeD)

lemma map_of_btree_last:
  assumes "btree_ok m" "m \<noteq> []" "map_of m k = Some v"
  shows "k \<le> fst (last m)"
proof -
  from assms(2) obtain xs e where m: "m = xs @ [e]" by (metis rev_exhaust)
  from assms(3) have "(k, v) \<in> set m" by (rule map_of_SomeD)
  with assms(1) m show ?thesis by (auto simp: btree_ok_def sorted_wrt_append)
qed

section \<open>Sums over finite maps\<close>

text \<open>A \<open>HashMap\<close> is a finite map \<open>'k \<rightharpoonup> 'v\<close>; \<open>msum f m\<close> adds up a quantity of its values.\<close>

definition msum :: "('v \<Rightarrow> nat) \<Rightarrow> ('k \<rightharpoonup> 'v) \<Rightarrow> nat" where
  "msum f m = (\<Sum>k \<in> dom m. f (the (m k)))"

lemma msum_empty [simp]: "msum f Map.empty = 0"
  by (simp add: msum_def)

lemma msum_remove:
  assumes "finite (dom m)" "m k = Some v"
  shows "msum f m = msum f (m(k := None)) + f v"
proof -
  have "dom m = insert k (dom m - {k})" using assms(2) by auto
  then have "msum f m = f v + (\<Sum>j \<in> dom m - {k}. f (the (m j)))"
    unfolding msum_def using assms
    by (metis (no_types, lifting) Diff_iff finite_Diff insertI1 option.sel sum.insert)
  moreover have "msum f (m(k := None)) = (\<Sum>j \<in> dom m - {k}. f (the (m j)))"
    unfolding msum_def by (rule sum.cong) auto
  ultimately show ?thesis by simp
qed

lemma msum_insert:
  assumes "finite (dom m)" "m k = None"
  shows "msum f (m(k \<mapsto> v)) = msum f m + f v"
  using msum_remove [of "m(k \<mapsto> v)" k v f] assms by (simp add: fun_upd_idem)

lemma msum_update:
  assumes "finite (dom m)" "m k = Some v"
  shows "msum f (m(k \<mapsto> w)) + f v = msum f m + f w"
  using msum_remove [of "m(k \<mapsto> w)" k w f] msum_remove [OF assms, of f] assms(1) by simp

lemma msum_le:
  assumes "finite (dom m)" "m k = Some v"
  shows "f v \<le> msum f m"
  using msum_remove [OF assms, of f] by simp

lemma msum_eq_0:
  assumes "finite (dom m)"
  shows "msum f m = 0 \<longleftrightarrow> (\<forall>k v. m k = Some v \<longrightarrow> f v = 0)"
proof -
  have "msum f m = 0 \<longleftrightarrow> (\<forall>k \<in> dom m. f (the (m k)) = 0)"
    unfolding msum_def using assms by (rule sum_eq_0_iff)
  then show ?thesis by force
qed

lemma unat_pos_iff: "0 < unat w \<longleftrightarrow> w \<noteq> 0"
  using unat_eq_0 [of w] by auto

lemma msum_bound:
  assumes "finite (dom m)" "\<And>k v. m k = Some v \<Longrightarrow> f v \<le> B"
  shows "msum f m \<le> card (dom m) * B"
proof -
  have "f (the (m k)) \<le> B" if "k \<in> dom m" for k using assms(2) that by auto
  then show ?thesis unfolding msum_def by (rule sum_bounded_above [where K = B, simplified])
qed

end
