(* ===== verification/Itch_Primitives.thy ===== *)
theory Itch_Primitives
  imports Itch_Prelude
begin

text \<open>
  The protocol error type (\<open>itch-protocol/src/error.rs\<close>) and the primitive
  newtypes of the wire format (\<open>itch-protocol/src/primitives.rs\<close>).  A newtype is
  a one-constructor datatype whose selector carries the name of the Rust
  accessor and whose constructor is the Rust \<open>from_\<close> function; the fixed-size
  byte arrays \<open>[u8; N]\<close> are byte lists, their length is part of the
  well-formedness predicates.
\<close>

named_theorems wire_ok_defs \<open>well-formedness of values with a fixed wire size\<close>

section \<open>Protocol errors\<close>

datatype ProtocolError =
    InvalidEnumCode string u8
  | Truncated nat nat
  | BufferTooSmall nat nat
  | UnknownMessageType u8

section \<open>Integer newtypes\<close>

datatype StockLocate = StockLocate (as_u16: u16)
datatype TrackingNumber = TrackingNumber (as_u16: u16)
datatype OrderReference = OrderReference (as_u64: u64)
datatype MatchNumber = MatchNumber (as_u64: u64)
datatype Shares = Shares (as_u32: u32)
datatype Timestamp = Timestamp (as_u64: u64)
datatype Price4 = Price4 (as_u32: u32)
datatype Price8 = Price8 (as_u64: u64)

text \<open>The derived \<open>Ord\<close> of \<open>Price4\<close>, the key order of the price ladders, and of
  \<open>Timestamp\<close>, the key of the merge heap: the order of the one field.\<close>

definition le_Price4 :: "Price4 \<Rightarrow> Price4 \<Rightarrow> bool" where
  "le_Price4 a b = (Price4.as_u32 a \<le> Price4.as_u32 b)"

definition le_Timestamp :: "Timestamp \<Rightarrow> Timestamp \<Rightarrow> bool" where
  "le_Timestamp a b = (Timestamp.as_u64 a \<le> Timestamp.as_u64 b)"

instantiation Price4 :: linorder
begin
definition less_eq_Price4 :: "Price4 \<Rightarrow> Price4 \<Rightarrow> bool" where
  "less_eq_Price4 = le_Price4"
definition less_Price4 :: "Price4 \<Rightarrow> Price4 \<Rightarrow> bool" where
  "less_Price4 a b = (a \<le> b \<and> \<not> b \<le> a)"
instance
  by standard (auto simp: less_eq_Price4_def less_Price4_def le_Price4_def Price4.expand)
end

instantiation Timestamp :: linorder
begin
definition less_eq_Timestamp :: "Timestamp \<Rightarrow> Timestamp \<Rightarrow> bool" where
  "less_eq_Timestamp = le_Timestamp"
definition less_Timestamp :: "Timestamp \<Rightarrow> Timestamp \<Rightarrow> bool" where
  "less_Timestamp a b = (a \<le> b \<and> \<not> b \<le> a)"
instance
  by standard (auto simp: less_eq_Timestamp_def less_Timestamp_def le_Timestamp_def Timestamp.expand)
end

lemma Price4_le [simp]: "Price4 a \<le> Price4 b \<longleftrightarrow> a \<le> b"
  and Price4_less [simp]: "Price4 a < Price4 b \<longleftrightarrow> a < b"
  by (auto simp: less_eq_Price4_def less_Price4_def le_Price4_def)

lemma Timestamp_le [simp]: "Timestamp a \<le> Timestamp b \<longleftrightarrow> a \<le> b"
  and Timestamp_less [simp]: "Timestamp a < Timestamp b \<longleftrightarrow> a < b"
  by (auto simp: less_eq_Timestamp_def less_Timestamp_def le_Timestamp_def)

datatype TimestampError = OutOfRange u64

abbreviation Timestamp_MAX :: u64 where
  "Timestamp_MAX \<equiv> push_bit 48 1 - 1"

definition Timestamp_try_new :: "u64 \<Rightarrow> TimestampError + Timestamp" where
  "Timestamp_try_new v = (if v > Timestamp_MAX then Inl (OutOfRange v) else Inr (Timestamp v))"

definition Timestamp_ok :: "Timestamp \<Rightarrow> bool" where
  "Timestamp_ok t = (Timestamp.as_u64 t \<le> Timestamp_MAX)"

lemma Timestamp_MAX_eq: "Timestamp_MAX = 0xFFFFFFFFFFFF"
  by (simp add: push_bit_eq_mult)

lemma Timestamp_ok_iff: "Timestamp_ok t \<longleftrightarrow> unat (Timestamp.as_u64 t) < 256 ^ 6"
  by (simp add: Timestamp_ok_def Timestamp_MAX_eq word_le_nat_alt less_eq_Suc_le)

lemma Timestamp_try_new_Inr: "Timestamp_try_new v = Inr t \<longleftrightarrow> t = Timestamp v \<and> Timestamp_ok t"
  by (auto simp: Timestamp_try_new_def Timestamp_ok_def)

section \<open>Fixed-size ASCII fields\<close>

datatype Stock = Stock (as_bytes: bytes)
datatype Mpid = Mpid (as_bytes: bytes)

abbreviation Stock_WIRE_LEN :: nat where "Stock_WIRE_LEN \<equiv> 8"
abbreviation Mpid_WIRE_LEN :: nat where "Mpid_WIRE_LEN \<equiv> 4"

definition Stock_ok :: "Stock \<Rightarrow> bool" where
  [wire_ok_defs]: "Stock_ok s = (length (Stock.as_bytes s) = 8)"

definition Mpid_ok :: "Mpid \<Rightarrow> bool" where
  [wire_ok_defs]: "Mpid_ok m = (length (Mpid.as_bytes m) = 4)"

abbreviation byte :: "char \<Rightarrow> u8" where
  "byte c \<equiv> of_char c"

definition space :: u8 where
  "space = 0x20"

definition Stock_default :: Stock where
  "Stock_default = Stock (replicate Stock_WIRE_LEN space)"

definition Mpid_default :: Mpid where
  "Mpid_default = Mpid (replicate Mpid_WIRE_LEN space)"

text \<open>The argument of \<open>new\<close> is the UTF-8 byte string of the Rust \<open>&str\<close>.\<close>

definition padded_new :: "nat \<Rightarrow> bytes \<Rightarrow> bytes" where
  "padded_new wire_len s =
    (let buf = replicate wire_len space;
         n = min (length s) wire_len
     in copy_from_slice buf 0 (take n s))"

definition Stock_new :: "bytes \<Rightarrow> Stock" where
  "Stock_new s = Stock (padded_new Stock_WIRE_LEN s)"

definition Mpid_new :: "bytes \<Rightarrow> Mpid" where
  "Mpid_new s = Mpid (padded_new Mpid_WIRE_LEN s)"

text \<open>\<open>iter().rposition(p)\<close>: the index of the last element satisfying \<open>p\<close>.\<close>

fun rposition :: "('a \<Rightarrow> bool) \<Rightarrow> 'a list \<Rightarrow> nat option" where
  "rposition p [] = None"
| "rposition p (x # xs) =
    (case rposition p xs of Some i \<Rightarrow> Some (Suc i) | None \<Rightarrow> if p x then Some 0 else None)"

text \<open>\<open>core::str::from_utf8\<close> accepts exactly the well-formed UTF-8 sequences.\<close>

definition utf8_cont :: "u8 \<Rightarrow> bool" where
  "utf8_cont b = (0x80 \<le> b \<and> b \<le> 0xBF)"

fun utf8_valid :: "bytes \<Rightarrow> bool" where
  "utf8_valid [] = True"
| "utf8_valid (a # bs) =
    (if a \<le> 0x7F then utf8_valid bs
     else if 0xC2 \<le> a \<and> a \<le> 0xDF then
       (case bs of b # cs \<Rightarrow> utf8_cont b \<and> utf8_valid cs | _ \<Rightarrow> False)
     else if 0xE0 \<le> a \<and> a \<le> 0xEF then
       (case bs of b # c # ds \<Rightarrow>
          utf8_cont b \<and> (a = 0xE0 \<longrightarrow> 0xA0 \<le> b) \<and> (a = 0xED \<longrightarrow> b \<le> 0x9F)
            \<and> utf8_cont c \<and> utf8_valid ds
        | _ \<Rightarrow> False)
     else if 0xF0 \<le> a \<and> a \<le> 0xF4 then
       (case bs of b # c # d # es \<Rightarrow>
          utf8_cont b \<and> (a = 0xF0 \<longrightarrow> 0x90 \<le> b) \<and> (a = 0xF4 \<longrightarrow> b \<le> 0x8F)
            \<and> utf8_cont c \<and> utf8_cont d \<and> utf8_valid es
        | _ \<Rightarrow> False)
     else False)"

datatype Utf8Error = Utf8Error

definition trimmed_str :: "bytes \<Rightarrow> Utf8Error + bytes" where
  "trimmed_str bs =
    (let trimmed_end = (case rposition (\<lambda>b. b \<noteq> space) bs of
           Some idx \<Rightarrow> take (Suc idx) bs
         | None \<Rightarrow> take 0 bs)
     in if utf8_valid trimmed_end then Inr trimmed_end else Inl Utf8Error)"

definition Stock_as_str :: "Stock \<Rightarrow> Utf8Error + bytes" where
  "Stock_as_str s = trimmed_str (Stock.as_bytes s)"

definition Mpid_as_str :: "Mpid \<Rightarrow> Utf8Error + bytes" where
  "Mpid_as_str m = trimmed_str (Mpid.as_bytes m)"

section \<open>Padding and trimming\<close>

lemma padded_new_eq: "padded_new w s = take w s @ replicate (w - length s) space"
  by (auto simp: padded_new_def Let_def copy_from_slice_def min_def)

lemma length_padded_new [simp]: "length (padded_new w s) = w"
  by (simp add: padded_new_eq min_def)

lemma Stock_new_ok [simp]: "Stock_ok (Stock_new s)"
  by (simp add: Stock_new_def Stock_ok_def)

lemma Mpid_new_ok [simp]: "Mpid_ok (Mpid_new s)"
  by (simp add: Mpid_new_def Mpid_ok_def)

lemma Stock_default_ok [simp]: "Stock_ok Stock_default"
  by (simp add: Stock_default_def Stock_ok_def)

lemma Mpid_default_ok [simp]: "Mpid_ok Mpid_default"
  by (simp add: Mpid_default_def Mpid_ok_def)

lemma rposition_None: "rposition p xs = None \<longleftrightarrow> (\<forall>x \<in> set xs. \<not> p x)"
  by (induction xs) (auto split: option.splits)

lemma rposition_append_none:
  "\<forall>y \<in> set ys. \<not> p y \<Longrightarrow> rposition p (xs @ ys) = rposition p xs"
  by (induction xs) (auto simp: rposition_None split: option.splits)

lemma rposition_snoc: "p x \<Longrightarrow> rposition p (xs @ [x]) = Some (length xs)"
  by (induction xs) auto

lemma trimmed_str_padded:
  assumes "utf8_valid s" "s = [] \<or> last s \<noteq> space"
  shows "trimmed_str (s @ replicate n space) = Inr s"
proof (cases s rule: rev_cases)
  case Nil
  have "rposition (\<lambda>b. b \<noteq> space) (replicate n space) = None"
    by (simp add: rposition_None)
  with Nil show ?thesis by (simp add: trimmed_str_def)
next
  case (snoc xs x)
  have "rposition (\<lambda>b. b \<noteq> space) (s @ replicate n space) = Some (length xs)"
    using assms(2) snoc rposition_snoc [of "\<lambda>b. b \<noteq> space" x xs]
    by (subst rposition_append_none) auto
  with snoc assms(1) show ?thesis by (simp add: trimmed_str_def)
qed

lemma padded_round_trip:
  assumes "length s \<le> w" "utf8_valid s" "s = [] \<or> last s \<noteq> space"
  shows "trimmed_str (padded_new w s) = Inr s"
  using trimmed_str_padded [OF assms(2,3)] assms(1) by (simp add: padded_new_eq)

end
