(* ===== verification/Itch_Enums.thy ===== *)
theory Itch_Enums
  imports Itch_Primitives
begin

text \<open>
  The closed-set ASCII enums of \<open>itch-protocol/src/enums.rs\<close>.  The Rust macro
  \<open>enum_alpha!\<close> turns a table of variants and bytes into the enum and its
  \<open>AlphaCoded\<close> implementation; the two functions it generates are written once,
  over the table, and every enum is its datatype, its table and the two
  instances.  What the codec relies on is the locale \<open>alpha_coded\<close>, and every
  enum of the protocol is an interpretation of it.
\<close>

named_theorems alpha_simps \<open>conversions of the enums, by their contract\<close>

section \<open>The generated conversions\<close>

text \<open>\<open>self as u8\<close> is the discriminant the table gives the variant; \<open>from_byte\<close>
  tries the arms in the order of the table.\<close>

definition alpha_to_byte :: "('v \<times> u8) list \<Rightarrow> 'v \<Rightarrow> u8" where
  "alpha_to_byte arms v = (case map_of arms v of Some b \<Rightarrow> b | None \<Rightarrow> 0)"

fun alpha_from_byte :: "string \<Rightarrow> ('v \<times> u8) list \<Rightarrow> u8 \<Rightarrow> ProtocolError + 'v" where
  "alpha_from_byte field [] b = Inl (InvalidEnumCode field b)"
| "alpha_from_byte field ((v, c) # arms) b =
    (if b = c then Inr v else alpha_from_byte field arms b)"

text \<open>A table is usable when it names every variant once and gives no byte twice.\<close>

definition arms_ok :: "('v \<times> u8) list \<Rightarrow> bool" where
  "arms_ok arms = (distinct (map fst arms) \<and> distinct (map snd arms))"

section \<open>The contract of an \<open>AlphaCoded\<close> type\<close>

locale alpha_coded =
  fixes to_byte :: "'v \<Rightarrow> u8"
    and from_byte :: "u8 \<Rightarrow> ProtocolError + 'v"
    and field :: string
  assumes from_to: "from_byte (to_byte v) = Inr v"
    and from_byte_sound: "from_byte b = Inr v \<Longrightarrow> to_byte v = b"
    and from_byte_error: "from_byte b = Inl e \<Longrightarrow> e = InvalidEnumCode field b"
begin

lemma to_byte_inj: "to_byte v = to_byte w \<longleftrightarrow> v = w"
  by (metis from_to sum.inject(2))

lemma from_byte_Inr_iff: "from_byte b = Inr v \<longleftrightarrow> to_byte v = b"
  using from_to from_byte_sound by blast

lemma from_byte_Inl_iff:
  "from_byte b = Inl e \<longleftrightarrow> e = InvalidEnumCode field b \<and> b \<notin> range to_byte"
  by (cases "from_byte b") (auto simp: from_to dest: from_byte_sound from_byte_error)

lemma from_byte_cases:
  "from_byte b = (if b \<in> range to_byte then Inr (inv to_byte b) else Inl (InvalidEnumCode field b))"
  by (auto simp: from_byte_Inl_iff from_byte_Inr_iff f_inv_into_f)

end

lemma alpha_from_byte_Inr:
  "alpha_from_byte field arms b = Inr v \<Longrightarrow> (v, b) \<in> set arms"
  by (induction field arms b rule: alpha_from_byte.induct) (auto split: if_splits)

lemma alpha_from_byte_Inl:
  "alpha_from_byte field arms b = Inl e \<Longrightarrow> e = InvalidEnumCode field b"
  by (induction field arms b rule: alpha_from_byte.induct) (auto split: if_splits)

lemma alpha_from_byte_hit:
  "distinct (map snd arms) \<Longrightarrow> (v, b) \<in> set arms \<Longrightarrow> alpha_from_byte field arms b = Inr v"
  by (induction field arms b rule: alpha_from_byte.induct) force+

lemma alpha_codedI:
  assumes ok: "arms_ok arms" and all: "\<And>v. v \<in> fst ` set arms"
    and tb: "\<And>v. tb v = alpha_to_byte arms v"
    and fb: "\<And>b. fb b = alpha_from_byte field arms b"
  shows "alpha_coded tb fb field"
proof
  have hit: "(v, alpha_to_byte arms v) \<in> set arms" for v
    using all [of v] ok
    by (auto simp: alpha_to_byte_def arms_ok_def dest: map_of_SomeD split: option.splits)
  show "fb (tb v) = Inr v" for v
    using ok hit by (simp add: tb fb arms_ok_def alpha_from_byte_hit)
  show "tb v = b" if "fb b = Inr v" for b v
    using that ok by (auto simp: tb fb arms_ok_def alpha_to_byte_def dest!: alpha_from_byte_Inr)
  show "e = InvalidEnumCode field b" if "fb b = Inl e" for b e
    using that by (auto simp: fb dest: alpha_from_byte_Inl)
qed

section \<open>The enums\<close>

datatype EventCode =
    StartOfMessages
  | StartOfSystemHours
  | StartOfMarketHours
  | EndOfMarketHours
  | EndOfSystemHours
  | EndOfMessages

definition EventCode_arms :: "(EventCode \<times> u8) list" where
  "EventCode_arms =
    [(EventCode.StartOfMessages, byte CHR ''O''),
     (EventCode.StartOfSystemHours, byte CHR ''S''),
     (EventCode.StartOfMarketHours, byte CHR ''Q''),
     (EventCode.EndOfMarketHours, byte CHR ''M''),
     (EventCode.EndOfSystemHours, byte CHR ''E''),
     (EventCode.EndOfMessages, byte CHR ''C'')]"

abbreviation EventCode_to_byte :: "EventCode \<Rightarrow> u8" where
  "EventCode_to_byte \<equiv> alpha_to_byte EventCode_arms"

abbreviation EventCode_from_byte :: "u8 \<Rightarrow> ProtocolError + EventCode" where
  "EventCode_from_byte \<equiv> alpha_from_byte ''EventCode'' EventCode_arms"

abbreviation EventCode_default :: EventCode where
  "EventCode_default \<equiv> EventCode.StartOfMessages"

datatype MarketCategory =
    NasdaqGlobalSelect
  | NasdaqGlobalMarket
  | NasdaqCapitalMarket
  | NyseMkt
  | Nyse
  | NyseArca
  | BatsZ
  | Iex
  | Unavailable

definition MarketCategory_arms :: "(MarketCategory \<times> u8) list" where
  "MarketCategory_arms =
    [(MarketCategory.NasdaqGlobalSelect, byte CHR ''Q''),
     (MarketCategory.NasdaqGlobalMarket, byte CHR ''G''),
     (MarketCategory.NasdaqCapitalMarket, byte CHR ''S''),
     (MarketCategory.NyseMkt, byte CHR ''A''),
     (MarketCategory.Nyse, byte CHR ''N''),
     (MarketCategory.NyseArca, byte CHR ''P''),
     (MarketCategory.BatsZ, byte CHR ''Z''),
     (MarketCategory.Iex, byte CHR ''V''),
     (MarketCategory.Unavailable, byte CHR '' '')]"

abbreviation MarketCategory_to_byte :: "MarketCategory \<Rightarrow> u8" where
  "MarketCategory_to_byte \<equiv> alpha_to_byte MarketCategory_arms"

abbreviation MarketCategory_from_byte :: "u8 \<Rightarrow> ProtocolError + MarketCategory" where
  "MarketCategory_from_byte \<equiv> alpha_from_byte ''MarketCategory'' MarketCategory_arms"

abbreviation MarketCategory_default :: MarketCategory where
  "MarketCategory_default \<equiv> MarketCategory.Unavailable"

datatype FinancialStatus =
    Deficient
  | Delinquent
  | Bankrupt
  | Suspended
  | DeficientAndBankrupt
  | DeficientAndDelinquent
  | DelinquentAndBankrupt
  | DeficientDelinquentBankrupt
  | CreationsRedemptionsSuspended
  | Normal
  | Unavailable

definition FinancialStatus_arms :: "(FinancialStatus \<times> u8) list" where
  "FinancialStatus_arms =
    [(FinancialStatus.Deficient, byte CHR ''D''),
     (FinancialStatus.Delinquent, byte CHR ''E''),
     (FinancialStatus.Bankrupt, byte CHR ''Q''),
     (FinancialStatus.Suspended, byte CHR ''S''),
     (FinancialStatus.DeficientAndBankrupt, byte CHR ''G''),
     (FinancialStatus.DeficientAndDelinquent, byte CHR ''H''),
     (FinancialStatus.DelinquentAndBankrupt, byte CHR ''J''),
     (FinancialStatus.DeficientDelinquentBankrupt, byte CHR ''K''),
     (FinancialStatus.CreationsRedemptionsSuspended, byte CHR ''C''),
     (FinancialStatus.Normal, byte CHR ''N''),
     (FinancialStatus.Unavailable, byte CHR '' '')]"

abbreviation FinancialStatus_to_byte :: "FinancialStatus \<Rightarrow> u8" where
  "FinancialStatus_to_byte \<equiv> alpha_to_byte FinancialStatus_arms"

abbreviation FinancialStatus_from_byte :: "u8 \<Rightarrow> ProtocolError + FinancialStatus" where
  "FinancialStatus_from_byte \<equiv> alpha_from_byte ''FinancialStatus'' FinancialStatus_arms"

abbreviation FinancialStatus_default :: FinancialStatus where
  "FinancialStatus_default \<equiv> FinancialStatus.Unavailable"

datatype Authenticity =
    Live
  | Test

definition Authenticity_arms :: "(Authenticity \<times> u8) list" where
  "Authenticity_arms =
    [(Authenticity.Live, byte CHR ''P''),
     (Authenticity.Test, byte CHR ''T'')]"

abbreviation Authenticity_to_byte :: "Authenticity \<Rightarrow> u8" where
  "Authenticity_to_byte \<equiv> alpha_to_byte Authenticity_arms"

abbreviation Authenticity_from_byte :: "u8 \<Rightarrow> ProtocolError + Authenticity" where
  "Authenticity_from_byte \<equiv> alpha_from_byte ''Authenticity'' Authenticity_arms"

abbreviation Authenticity_default :: Authenticity where
  "Authenticity_default \<equiv> Authenticity.Live"

datatype YesNo =
    Yes
  | No
  | Unavailable

definition YesNo_arms :: "(YesNo \<times> u8) list" where
  "YesNo_arms =
    [(YesNo.Yes, byte CHR ''Y''),
     (YesNo.No, byte CHR ''N''),
     (YesNo.Unavailable, byte CHR '' '')]"

abbreviation YesNo_to_byte :: "YesNo \<Rightarrow> u8" where
  "YesNo_to_byte \<equiv> alpha_to_byte YesNo_arms"

abbreviation YesNo_from_byte :: "u8 \<Rightarrow> ProtocolError + YesNo" where
  "YesNo_from_byte \<equiv> alpha_from_byte ''YesNo'' YesNo_arms"

abbreviation YesNo_default :: YesNo where
  "YesNo_default \<equiv> YesNo.Unavailable"

datatype LuldTier =
    Tier1
  | Tier2
  | Unavailable

definition LuldTier_arms :: "(LuldTier \<times> u8) list" where
  "LuldTier_arms =
    [(LuldTier.Tier1, byte CHR ''1''),
     (LuldTier.Tier2, byte CHR ''2''),
     (LuldTier.Unavailable, byte CHR '' '')]"

abbreviation LuldTier_to_byte :: "LuldTier \<Rightarrow> u8" where
  "LuldTier_to_byte \<equiv> alpha_to_byte LuldTier_arms"

abbreviation LuldTier_from_byte :: "u8 \<Rightarrow> ProtocolError + LuldTier" where
  "LuldTier_from_byte \<equiv> alpha_from_byte ''LuldTier'' LuldTier_arms"

abbreviation LuldTier_default :: LuldTier where
  "LuldTier_default \<equiv> LuldTier.Unavailable"

datatype TradingState =
    Halted
  | Paused
  | QuotationOnly
  | Trading

definition TradingState_arms :: "(TradingState \<times> u8) list" where
  "TradingState_arms =
    [(TradingState.Halted, byte CHR ''H''),
     (TradingState.Paused, byte CHR ''P''),
     (TradingState.QuotationOnly, byte CHR ''Q''),
     (TradingState.Trading, byte CHR ''T'')]"

abbreviation TradingState_to_byte :: "TradingState \<Rightarrow> u8" where
  "TradingState_to_byte \<equiv> alpha_to_byte TradingState_arms"

abbreviation TradingState_from_byte :: "u8 \<Rightarrow> ProtocolError + TradingState" where
  "TradingState_from_byte \<equiv> alpha_from_byte ''TradingState'' TradingState_arms"

abbreviation TradingState_default :: TradingState where
  "TradingState_default \<equiv> TradingState.Trading"

datatype RegShoAction =
    NoPriceTest
  | InEffectIntradayDrop
  | InEffect

definition RegShoAction_arms :: "(RegShoAction \<times> u8) list" where
  "RegShoAction_arms =
    [(RegShoAction.NoPriceTest, byte CHR ''0''),
     (RegShoAction.InEffectIntradayDrop, byte CHR ''1''),
     (RegShoAction.InEffect, byte CHR ''2'')]"

abbreviation RegShoAction_to_byte :: "RegShoAction \<Rightarrow> u8" where
  "RegShoAction_to_byte \<equiv> alpha_to_byte RegShoAction_arms"

abbreviation RegShoAction_from_byte :: "u8 \<Rightarrow> ProtocolError + RegShoAction" where
  "RegShoAction_from_byte \<equiv> alpha_from_byte ''RegShoAction'' RegShoAction_arms"

abbreviation RegShoAction_default :: RegShoAction where
  "RegShoAction_default \<equiv> RegShoAction.NoPriceTest"

datatype MarketMakerMode =
    Normal
  | Passive
  | Syndicate
  | PreSyndicate
  | Penalty

definition MarketMakerMode_arms :: "(MarketMakerMode \<times> u8) list" where
  "MarketMakerMode_arms =
    [(MarketMakerMode.Normal, byte CHR ''N''),
     (MarketMakerMode.Passive, byte CHR ''P''),
     (MarketMakerMode.Syndicate, byte CHR ''S''),
     (MarketMakerMode.PreSyndicate, byte CHR ''R''),
     (MarketMakerMode.Penalty, byte CHR ''L'')]"

abbreviation MarketMakerMode_to_byte :: "MarketMakerMode \<Rightarrow> u8" where
  "MarketMakerMode_to_byte \<equiv> alpha_to_byte MarketMakerMode_arms"

abbreviation MarketMakerMode_from_byte :: "u8 \<Rightarrow> ProtocolError + MarketMakerMode" where
  "MarketMakerMode_from_byte \<equiv> alpha_from_byte ''MarketMakerMode'' MarketMakerMode_arms"

abbreviation MarketMakerMode_default :: MarketMakerMode where
  "MarketMakerMode_default \<equiv> MarketMakerMode.Normal"

datatype MarketParticipantState =
    Active
  | ExcusedOrWithdrawn
  | Withdrawn
  | Suspended
  | Deleted

definition MarketParticipantState_arms :: "(MarketParticipantState \<times> u8) list" where
  "MarketParticipantState_arms =
    [(MarketParticipantState.Active, byte CHR ''A''),
     (MarketParticipantState.ExcusedOrWithdrawn, byte CHR ''E''),
     (MarketParticipantState.Withdrawn, byte CHR ''W''),
     (MarketParticipantState.Suspended, byte CHR ''S''),
     (MarketParticipantState.Deleted, byte CHR ''D'')]"

abbreviation MarketParticipantState_to_byte :: "MarketParticipantState \<Rightarrow> u8" where
  "MarketParticipantState_to_byte \<equiv> alpha_to_byte MarketParticipantState_arms"

abbreviation MarketParticipantState_from_byte :: "u8 \<Rightarrow> ProtocolError + MarketParticipantState" where
  "MarketParticipantState_from_byte \<equiv> alpha_from_byte ''MarketParticipantState'' MarketParticipantState_arms"

abbreviation MarketParticipantState_default :: MarketParticipantState where
  "MarketParticipantState_default \<equiv> MarketParticipantState.Active"

datatype BreachedLevel =
    Level1
  | Level2
  | Level3

definition BreachedLevel_arms :: "(BreachedLevel \<times> u8) list" where
  "BreachedLevel_arms =
    [(BreachedLevel.Level1, byte CHR ''1''),
     (BreachedLevel.Level2, byte CHR ''2''),
     (BreachedLevel.Level3, byte CHR ''3'')]"

abbreviation BreachedLevel_to_byte :: "BreachedLevel \<Rightarrow> u8" where
  "BreachedLevel_to_byte \<equiv> alpha_to_byte BreachedLevel_arms"

abbreviation BreachedLevel_from_byte :: "u8 \<Rightarrow> ProtocolError + BreachedLevel" where
  "BreachedLevel_from_byte \<equiv> alpha_from_byte ''BreachedLevel'' BreachedLevel_arms"

abbreviation BreachedLevel_default :: BreachedLevel where
  "BreachedLevel_default \<equiv> BreachedLevel.Level1"

datatype IpoReleaseQualifier =
    Anticipated
  | Cancelled

definition IpoReleaseQualifier_arms :: "(IpoReleaseQualifier \<times> u8) list" where
  "IpoReleaseQualifier_arms =
    [(IpoReleaseQualifier.Anticipated, byte CHR ''A''),
     (IpoReleaseQualifier.Cancelled, byte CHR ''C'')]"

abbreviation IpoReleaseQualifier_to_byte :: "IpoReleaseQualifier \<Rightarrow> u8" where
  "IpoReleaseQualifier_to_byte \<equiv> alpha_to_byte IpoReleaseQualifier_arms"

abbreviation IpoReleaseQualifier_from_byte :: "u8 \<Rightarrow> ProtocolError + IpoReleaseQualifier" where
  "IpoReleaseQualifier_from_byte \<equiv> alpha_from_byte ''IpoReleaseQualifier'' IpoReleaseQualifier_arms"

abbreviation IpoReleaseQualifier_default :: IpoReleaseQualifier where
  "IpoReleaseQualifier_default \<equiv> IpoReleaseQualifier.Anticipated"

datatype Side =
    Buy
  | Sell

definition Side_arms :: "(Side \<times> u8) list" where
  "Side_arms =
    [(Side.Buy, byte CHR ''B''),
     (Side.Sell, byte CHR ''S'')]"

abbreviation Side_to_byte :: "Side \<Rightarrow> u8" where
  "Side_to_byte \<equiv> alpha_to_byte Side_arms"

abbreviation Side_from_byte :: "u8 \<Rightarrow> ProtocolError + Side" where
  "Side_from_byte \<equiv> alpha_from_byte ''Side'' Side_arms"

abbreviation Side_default :: Side where
  "Side_default \<equiv> Side.Buy"

datatype Printable =
    NonPrintable
  | Printable

definition Printable_arms :: "(Printable \<times> u8) list" where
  "Printable_arms =
    [(Printable.NonPrintable, byte CHR ''N''),
     (Printable.Printable, byte CHR ''Y'')]"

abbreviation Printable_to_byte :: "Printable \<Rightarrow> u8" where
  "Printable_to_byte \<equiv> alpha_to_byte Printable_arms"

abbreviation Printable_from_byte :: "u8 \<Rightarrow> ProtocolError + Printable" where
  "Printable_from_byte \<equiv> alpha_from_byte ''Printable'' Printable_arms"

abbreviation Printable_default :: Printable where
  "Printable_default \<equiv> Printable.Printable"

datatype CrossType =
    Opening
  | Closing
  | Halted
  | Intraday

definition CrossType_arms :: "(CrossType \<times> u8) list" where
  "CrossType_arms =
    [(CrossType.Opening, byte CHR ''O''),
     (CrossType.Closing, byte CHR ''C''),
     (CrossType.Halted, byte CHR ''H''),
     (CrossType.Intraday, byte CHR ''I'')]"

abbreviation CrossType_to_byte :: "CrossType \<Rightarrow> u8" where
  "CrossType_to_byte \<equiv> alpha_to_byte CrossType_arms"

abbreviation CrossType_from_byte :: "u8 \<Rightarrow> ProtocolError + CrossType" where
  "CrossType_from_byte \<equiv> alpha_from_byte ''CrossType'' CrossType_arms"

abbreviation CrossType_default :: CrossType where
  "CrossType_default \<equiv> CrossType.Opening"

datatype ImbalanceDirection =
    Buy
  | Sell
  | NoImbalance
  | InsufficientToCalc

definition ImbalanceDirection_arms :: "(ImbalanceDirection \<times> u8) list" where
  "ImbalanceDirection_arms =
    [(ImbalanceDirection.Buy, byte CHR ''B''),
     (ImbalanceDirection.Sell, byte CHR ''S''),
     (ImbalanceDirection.NoImbalance, byte CHR ''N''),
     (ImbalanceDirection.InsufficientToCalc, byte CHR ''O'')]"

abbreviation ImbalanceDirection_to_byte :: "ImbalanceDirection \<Rightarrow> u8" where
  "ImbalanceDirection_to_byte \<equiv> alpha_to_byte ImbalanceDirection_arms"

abbreviation ImbalanceDirection_from_byte :: "u8 \<Rightarrow> ProtocolError + ImbalanceDirection" where
  "ImbalanceDirection_from_byte \<equiv> alpha_from_byte ''ImbalanceDirection'' ImbalanceDirection_arms"

abbreviation ImbalanceDirection_default :: ImbalanceDirection where
  "ImbalanceDirection_default \<equiv> ImbalanceDirection.NoImbalance"

datatype PriceVariation =
    LessThan1Percent
  | Pct1To2
  | Pct2To3
  | Pct3To4
  | Pct4To5
  | Pct5To6
  | Pct6To7
  | Pct7To8
  | Pct8To9
  | Pct9To10
  | Pct10To20
  | Pct20To30
  | Pct30OrGreater
  | CannotBeCalculated

definition PriceVariation_arms :: "(PriceVariation \<times> u8) list" where
  "PriceVariation_arms =
    [(PriceVariation.LessThan1Percent, byte CHR ''L''),
     (PriceVariation.Pct1To2, byte CHR ''1''),
     (PriceVariation.Pct2To3, byte CHR ''2''),
     (PriceVariation.Pct3To4, byte CHR ''3''),
     (PriceVariation.Pct4To5, byte CHR ''4''),
     (PriceVariation.Pct5To6, byte CHR ''5''),
     (PriceVariation.Pct6To7, byte CHR ''6''),
     (PriceVariation.Pct7To8, byte CHR ''7''),
     (PriceVariation.Pct8To9, byte CHR ''8''),
     (PriceVariation.Pct9To10, byte CHR ''9''),
     (PriceVariation.Pct10To20, byte CHR ''A''),
     (PriceVariation.Pct20To30, byte CHR ''B''),
     (PriceVariation.Pct30OrGreater, byte CHR ''C''),
     (PriceVariation.CannotBeCalculated, byte CHR '' '')]"

abbreviation PriceVariation_to_byte :: "PriceVariation \<Rightarrow> u8" where
  "PriceVariation_to_byte \<equiv> alpha_to_byte PriceVariation_arms"

abbreviation PriceVariation_from_byte :: "u8 \<Rightarrow> ProtocolError + PriceVariation" where
  "PriceVariation_from_byte \<equiv> alpha_from_byte ''PriceVariation'' PriceVariation_arms"

abbreviation PriceVariation_default :: PriceVariation where
  "PriceVariation_default \<equiv> PriceVariation.CannotBeCalculated"

datatype RpiInterestFlag =
    BuySide
  | SellSide
  | BothSides
  | NoInterest

definition RpiInterestFlag_arms :: "(RpiInterestFlag \<times> u8) list" where
  "RpiInterestFlag_arms =
    [(RpiInterestFlag.BuySide, byte CHR ''B''),
     (RpiInterestFlag.SellSide, byte CHR ''S''),
     (RpiInterestFlag.BothSides, byte CHR ''A''),
     (RpiInterestFlag.NoInterest, byte CHR ''N'')]"

abbreviation RpiInterestFlag_to_byte :: "RpiInterestFlag \<Rightarrow> u8" where
  "RpiInterestFlag_to_byte \<equiv> alpha_to_byte RpiInterestFlag_arms"

abbreviation RpiInterestFlag_from_byte :: "u8 \<Rightarrow> ProtocolError + RpiInterestFlag" where
  "RpiInterestFlag_from_byte \<equiv> alpha_from_byte ''RpiInterestFlag'' RpiInterestFlag_arms"

abbreviation RpiInterestFlag_default :: RpiInterestFlag where
  "RpiInterestFlag_default \<equiv> RpiInterestFlag.NoInterest"

section \<open>Every enum is an \<open>AlphaCoded\<close> type\<close>

interpretation EventCode_alpha: alpha_coded EventCode_to_byte EventCode_from_byte "''EventCode''"
proof (rule alpha_codedI [where arms = EventCode_arms])
  show "arms_ok EventCode_arms" by (simp add: arms_ok_def EventCode_arms_def)
  show "v \<in> fst ` set EventCode_arms" for v by (cases v) (simp_all add: EventCode_arms_def)
qed simp_all

interpretation MarketCategory_alpha: alpha_coded MarketCategory_to_byte MarketCategory_from_byte "''MarketCategory''"
proof (rule alpha_codedI [where arms = MarketCategory_arms])
  show "arms_ok MarketCategory_arms" by (simp add: arms_ok_def MarketCategory_arms_def)
  show "v \<in> fst ` set MarketCategory_arms" for v by (cases v) (simp_all add: MarketCategory_arms_def)
qed simp_all

interpretation FinancialStatus_alpha: alpha_coded FinancialStatus_to_byte FinancialStatus_from_byte "''FinancialStatus''"
proof (rule alpha_codedI [where arms = FinancialStatus_arms])
  show "arms_ok FinancialStatus_arms" by (simp add: arms_ok_def FinancialStatus_arms_def)
  show "v \<in> fst ` set FinancialStatus_arms" for v by (cases v) (simp_all add: FinancialStatus_arms_def)
qed simp_all

interpretation Authenticity_alpha: alpha_coded Authenticity_to_byte Authenticity_from_byte "''Authenticity''"
proof (rule alpha_codedI [where arms = Authenticity_arms])
  show "arms_ok Authenticity_arms" by (simp add: arms_ok_def Authenticity_arms_def)
  show "v \<in> fst ` set Authenticity_arms" for v by (cases v) (simp_all add: Authenticity_arms_def)
qed simp_all

interpretation YesNo_alpha: alpha_coded YesNo_to_byte YesNo_from_byte "''YesNo''"
proof (rule alpha_codedI [where arms = YesNo_arms])
  show "arms_ok YesNo_arms" by (simp add: arms_ok_def YesNo_arms_def)
  show "v \<in> fst ` set YesNo_arms" for v by (cases v) (simp_all add: YesNo_arms_def)
qed simp_all

interpretation LuldTier_alpha: alpha_coded LuldTier_to_byte LuldTier_from_byte "''LuldTier''"
proof (rule alpha_codedI [where arms = LuldTier_arms])
  show "arms_ok LuldTier_arms" by (simp add: arms_ok_def LuldTier_arms_def)
  show "v \<in> fst ` set LuldTier_arms" for v by (cases v) (simp_all add: LuldTier_arms_def)
qed simp_all

interpretation TradingState_alpha: alpha_coded TradingState_to_byte TradingState_from_byte "''TradingState''"
proof (rule alpha_codedI [where arms = TradingState_arms])
  show "arms_ok TradingState_arms" by (simp add: arms_ok_def TradingState_arms_def)
  show "v \<in> fst ` set TradingState_arms" for v by (cases v) (simp_all add: TradingState_arms_def)
qed simp_all

interpretation RegShoAction_alpha: alpha_coded RegShoAction_to_byte RegShoAction_from_byte "''RegShoAction''"
proof (rule alpha_codedI [where arms = RegShoAction_arms])
  show "arms_ok RegShoAction_arms" by (simp add: arms_ok_def RegShoAction_arms_def)
  show "v \<in> fst ` set RegShoAction_arms" for v by (cases v) (simp_all add: RegShoAction_arms_def)
qed simp_all

interpretation MarketMakerMode_alpha: alpha_coded MarketMakerMode_to_byte MarketMakerMode_from_byte "''MarketMakerMode''"
proof (rule alpha_codedI [where arms = MarketMakerMode_arms])
  show "arms_ok MarketMakerMode_arms" by (simp add: arms_ok_def MarketMakerMode_arms_def)
  show "v \<in> fst ` set MarketMakerMode_arms" for v by (cases v) (simp_all add: MarketMakerMode_arms_def)
qed simp_all

interpretation MarketParticipantState_alpha: alpha_coded MarketParticipantState_to_byte MarketParticipantState_from_byte "''MarketParticipantState''"
proof (rule alpha_codedI [where arms = MarketParticipantState_arms])
  show "arms_ok MarketParticipantState_arms" by (simp add: arms_ok_def MarketParticipantState_arms_def)
  show "v \<in> fst ` set MarketParticipantState_arms" for v by (cases v) (simp_all add: MarketParticipantState_arms_def)
qed simp_all

interpretation BreachedLevel_alpha: alpha_coded BreachedLevel_to_byte BreachedLevel_from_byte "''BreachedLevel''"
proof (rule alpha_codedI [where arms = BreachedLevel_arms])
  show "arms_ok BreachedLevel_arms" by (simp add: arms_ok_def BreachedLevel_arms_def)
  show "v \<in> fst ` set BreachedLevel_arms" for v by (cases v) (simp_all add: BreachedLevel_arms_def)
qed simp_all

interpretation IpoReleaseQualifier_alpha: alpha_coded IpoReleaseQualifier_to_byte IpoReleaseQualifier_from_byte "''IpoReleaseQualifier''"
proof (rule alpha_codedI [where arms = IpoReleaseQualifier_arms])
  show "arms_ok IpoReleaseQualifier_arms" by (simp add: arms_ok_def IpoReleaseQualifier_arms_def)
  show "v \<in> fst ` set IpoReleaseQualifier_arms" for v by (cases v) (simp_all add: IpoReleaseQualifier_arms_def)
qed simp_all

interpretation Side_alpha: alpha_coded Side_to_byte Side_from_byte "''Side''"
proof (rule alpha_codedI [where arms = Side_arms])
  show "arms_ok Side_arms" by (simp add: arms_ok_def Side_arms_def)
  show "v \<in> fst ` set Side_arms" for v by (cases v) (simp_all add: Side_arms_def)
qed simp_all

interpretation Printable_alpha: alpha_coded Printable_to_byte Printable_from_byte "''Printable''"
proof (rule alpha_codedI [where arms = Printable_arms])
  show "arms_ok Printable_arms" by (simp add: arms_ok_def Printable_arms_def)
  show "v \<in> fst ` set Printable_arms" for v by (cases v) (simp_all add: Printable_arms_def)
qed simp_all

interpretation CrossType_alpha: alpha_coded CrossType_to_byte CrossType_from_byte "''CrossType''"
proof (rule alpha_codedI [where arms = CrossType_arms])
  show "arms_ok CrossType_arms" by (simp add: arms_ok_def CrossType_arms_def)
  show "v \<in> fst ` set CrossType_arms" for v by (cases v) (simp_all add: CrossType_arms_def)
qed simp_all

interpretation ImbalanceDirection_alpha: alpha_coded ImbalanceDirection_to_byte ImbalanceDirection_from_byte "''ImbalanceDirection''"
proof (rule alpha_codedI [where arms = ImbalanceDirection_arms])
  show "arms_ok ImbalanceDirection_arms" by (simp add: arms_ok_def ImbalanceDirection_arms_def)
  show "v \<in> fst ` set ImbalanceDirection_arms" for v by (cases v) (simp_all add: ImbalanceDirection_arms_def)
qed simp_all

interpretation PriceVariation_alpha: alpha_coded PriceVariation_to_byte PriceVariation_from_byte "''PriceVariation''"
proof (rule alpha_codedI [where arms = PriceVariation_arms])
  show "arms_ok PriceVariation_arms" by (simp add: arms_ok_def PriceVariation_arms_def)
  show "v \<in> fst ` set PriceVariation_arms" for v by (cases v) (simp_all add: PriceVariation_arms_def)
qed simp_all

interpretation RpiInterestFlag_alpha: alpha_coded RpiInterestFlag_to_byte RpiInterestFlag_from_byte "''RpiInterestFlag''"
proof (rule alpha_codedI [where arms = RpiInterestFlag_arms])
  show "arms_ok RpiInterestFlag_arms" by (simp add: arms_ok_def RpiInterestFlag_arms_def)
  show "v \<in> fst ` set RpiInterestFlag_arms" for v by (cases v) (simp_all add: RpiInterestFlag_arms_def)
qed simp_all

lemmas alpha_encoded [alpha_simps] =
  EventCode_alpha.from_to
  MarketCategory_alpha.from_to
  FinancialStatus_alpha.from_to
  Authenticity_alpha.from_to
  YesNo_alpha.from_to
  LuldTier_alpha.from_to
  TradingState_alpha.from_to
  RegShoAction_alpha.from_to
  MarketMakerMode_alpha.from_to
  MarketParticipantState_alpha.from_to
  BreachedLevel_alpha.from_to
  IpoReleaseQualifier_alpha.from_to
  Side_alpha.from_to
  Printable_alpha.from_to
  CrossType_alpha.from_to
  ImbalanceDirection_alpha.from_to
  PriceVariation_alpha.from_to
  RpiInterestFlag_alpha.from_to

lemmas alpha_decoded [alpha_simps] =
  EventCode_alpha.from_byte_Inr_iff
  MarketCategory_alpha.from_byte_Inr_iff
  FinancialStatus_alpha.from_byte_Inr_iff
  Authenticity_alpha.from_byte_Inr_iff
  YesNo_alpha.from_byte_Inr_iff
  LuldTier_alpha.from_byte_Inr_iff
  TradingState_alpha.from_byte_Inr_iff
  RegShoAction_alpha.from_byte_Inr_iff
  MarketMakerMode_alpha.from_byte_Inr_iff
  MarketParticipantState_alpha.from_byte_Inr_iff
  BreachedLevel_alpha.from_byte_Inr_iff
  IpoReleaseQualifier_alpha.from_byte_Inr_iff
  Side_alpha.from_byte_Inr_iff
  Printable_alpha.from_byte_Inr_iff
  CrossType_alpha.from_byte_Inr_iff
  ImbalanceDirection_alpha.from_byte_Inr_iff
  PriceVariation_alpha.from_byte_Inr_iff
  RpiInterestFlag_alpha.from_byte_Inr_iff

lemmas alpha_rejected [alpha_simps] =
  EventCode_alpha.from_byte_Inl_iff
  MarketCategory_alpha.from_byte_Inl_iff
  FinancialStatus_alpha.from_byte_Inl_iff
  Authenticity_alpha.from_byte_Inl_iff
  YesNo_alpha.from_byte_Inl_iff
  LuldTier_alpha.from_byte_Inl_iff
  TradingState_alpha.from_byte_Inl_iff
  RegShoAction_alpha.from_byte_Inl_iff
  MarketMakerMode_alpha.from_byte_Inl_iff
  MarketParticipantState_alpha.from_byte_Inl_iff
  BreachedLevel_alpha.from_byte_Inl_iff
  IpoReleaseQualifier_alpha.from_byte_Inl_iff
  Side_alpha.from_byte_Inl_iff
  Printable_alpha.from_byte_Inl_iff
  CrossType_alpha.from_byte_Inl_iff
  ImbalanceDirection_alpha.from_byte_Inl_iff
  PriceVariation_alpha.from_byte_Inl_iff
  RpiInterestFlag_alpha.from_byte_Inl_iff

end
