(* ===== verification/Itch_Messages.thy ===== *)
theory Itch_Messages
  imports Itch_Enums
begin

text \<open>
  The twenty message bodies of ITCH 5.0, their common header and the tagged
  union \<open>Message\<close> (\<open>itch-protocol/src/messages.rs\<close>).  Every struct is a record
  with the fields of the source in their order, \<open>BODY_LEN\<close> is the constant of
  the source and \<open>_default\<close> the \<open>Default\<close> implementation, an abbreviation where
  it is derived.  The predicates \<open>_ok\<close> say what the Rust types guarantee by construction
  (array lengths) and what the newtype \<open>Timestamp\<close> documents (48 bits).
\<close>

section \<open>Header\<close>

record Header =
  stock_locate :: StockLocate
  tracking_number :: TrackingNumber
  timestamp :: Timestamp

abbreviation Header_WIRE_LEN :: nat where
  "Header_WIRE_LEN \<equiv> 10"

definition Header_default :: Header where
  "Header_default = \<lparr>Header.stock_locate = StockLocate 0,
     Header.tracking_number = TrackingNumber 0,
     Header.timestamp = Timestamp 0\<rparr>"

definition Header_ok :: "Header \<Rightarrow> bool" where
  [wire_ok_defs]: "Header_ok m = (Timestamp_ok (Header.timestamp m))"

section \<open>Message bodies\<close>

record SystemEvent =
  header :: Header
  event_code :: EventCode

definition SystemEvent_BODY_LEN :: nat where
  "SystemEvent_BODY_LEN = 11"

abbreviation SystemEvent_default :: SystemEvent where
  "SystemEvent_default \<equiv> \<lparr>SystemEvent.header = Header_default,
     SystemEvent.event_code = EventCode_default\<rparr>"

definition SystemEvent_ok :: "SystemEvent \<Rightarrow> bool" where
  [wire_ok_defs]: "SystemEvent_ok m = (Header_ok (SystemEvent.header m))"

record StockDirectory =
  header :: Header
  stock :: Stock
  market_category :: MarketCategory
  financial_status :: FinancialStatus
  round_lot_size :: Shares
  round_lots_only :: YesNo
  issue_classification :: u8
  issue_subtype :: bytes
  authenticity :: Authenticity
  short_sale_threshold :: YesNo
  ipo_flag :: YesNo
  luld_reference_price_tier :: LuldTier
  etp_flag :: YesNo
  etp_leverage_factor :: u32
  inverse_indicator :: YesNo

definition StockDirectory_BODY_LEN :: nat where
  "StockDirectory_BODY_LEN = 38"

definition StockDirectory_default :: StockDirectory where
  "StockDirectory_default = \<lparr>StockDirectory.header = Header_default,
     StockDirectory.stock = Stock_default,
     StockDirectory.market_category = MarketCategory_default,
     StockDirectory.financial_status = FinancialStatus_default,
     StockDirectory.round_lot_size = Shares 0,
     StockDirectory.round_lots_only = YesNo_default,
     StockDirectory.issue_classification = space,
     StockDirectory.issue_subtype = replicate 2 space,
     StockDirectory.authenticity = Authenticity_default,
     StockDirectory.short_sale_threshold = YesNo_default,
     StockDirectory.ipo_flag = YesNo_default,
     StockDirectory.luld_reference_price_tier = LuldTier_default,
     StockDirectory.etp_flag = YesNo_default,
     StockDirectory.etp_leverage_factor = 0,
     StockDirectory.inverse_indicator = YesNo_default\<rparr>"

definition StockDirectory_ok :: "StockDirectory \<Rightarrow> bool" where
  [wire_ok_defs]: "StockDirectory_ok m = (Header_ok (StockDirectory.header m) \<and> Stock_ok (StockDirectory.stock m) \<and> length (StockDirectory.issue_subtype m) = 2)"

record StockTradingAction =
  header :: Header
  stock :: Stock
  trading_state :: TradingState
  reserved :: u8
  reason :: bytes

definition StockTradingAction_BODY_LEN :: nat where
  "StockTradingAction_BODY_LEN = 24"

definition StockTradingAction_default :: StockTradingAction where
  "StockTradingAction_default = \<lparr>StockTradingAction.header = Header_default,
     StockTradingAction.stock = Stock_default,
     StockTradingAction.trading_state = TradingState_default,
     StockTradingAction.reserved = space,
     StockTradingAction.reason = replicate 4 space\<rparr>"

definition StockTradingAction_ok :: "StockTradingAction \<Rightarrow> bool" where
  [wire_ok_defs]: "StockTradingAction_ok m = (Header_ok (StockTradingAction.header m) \<and> Stock_ok (StockTradingAction.stock m) \<and> length (StockTradingAction.reason m) = 4)"

record RegShoRestriction =
  header :: Header
  stock :: Stock
  reg_sho_action :: RegShoAction

definition RegShoRestriction_BODY_LEN :: nat where
  "RegShoRestriction_BODY_LEN = 19"

abbreviation RegShoRestriction_default :: RegShoRestriction where
  "RegShoRestriction_default \<equiv> \<lparr>RegShoRestriction.header = Header_default,
     RegShoRestriction.stock = Stock_default,
     RegShoRestriction.reg_sho_action = RegShoAction_default\<rparr>"

definition RegShoRestriction_ok :: "RegShoRestriction \<Rightarrow> bool" where
  [wire_ok_defs]: "RegShoRestriction_ok m = (Header_ok (RegShoRestriction.header m) \<and> Stock_ok (RegShoRestriction.stock m))"

record MarketParticipantPosition =
  header :: Header
  mpid :: Mpid
  stock :: Stock
  primary_market_maker :: YesNo
  market_maker_mode :: MarketMakerMode
  market_participant_state :: MarketParticipantState

definition MarketParticipantPosition_BODY_LEN :: nat where
  "MarketParticipantPosition_BODY_LEN = 25"

abbreviation MarketParticipantPosition_default :: MarketParticipantPosition where
  "MarketParticipantPosition_default \<equiv> \<lparr>MarketParticipantPosition.header = Header_default,
     MarketParticipantPosition.mpid = Mpid_default,
     MarketParticipantPosition.stock = Stock_default,
     MarketParticipantPosition.primary_market_maker = YesNo_default,
     MarketParticipantPosition.market_maker_mode = MarketMakerMode_default,
     MarketParticipantPosition.market_participant_state = MarketParticipantState_default\<rparr>"

definition MarketParticipantPosition_ok :: "MarketParticipantPosition \<Rightarrow> bool" where
  [wire_ok_defs]: "MarketParticipantPosition_ok m = (Header_ok (MarketParticipantPosition.header m) \<and> Mpid_ok (MarketParticipantPosition.mpid m) \<and> Stock_ok (MarketParticipantPosition.stock m))"

record MwcbDeclineLevel =
  header :: Header
  level1 :: Price8
  level2 :: Price8
  level3 :: Price8

definition MwcbDeclineLevel_BODY_LEN :: nat where
  "MwcbDeclineLevel_BODY_LEN = 34"

abbreviation MwcbDeclineLevel_default :: MwcbDeclineLevel where
  "MwcbDeclineLevel_default \<equiv> \<lparr>MwcbDeclineLevel.header = Header_default,
     MwcbDeclineLevel.level1 = Price8 0,
     MwcbDeclineLevel.level2 = Price8 0,
     MwcbDeclineLevel.level3 = Price8 0\<rparr>"

definition MwcbDeclineLevel_ok :: "MwcbDeclineLevel \<Rightarrow> bool" where
  [wire_ok_defs]: "MwcbDeclineLevel_ok m = (Header_ok (MwcbDeclineLevel.header m))"

record MwcbStatus =
  header :: Header
  breached_level :: BreachedLevel

definition MwcbStatus_BODY_LEN :: nat where
  "MwcbStatus_BODY_LEN = 11"

abbreviation MwcbStatus_default :: MwcbStatus where
  "MwcbStatus_default \<equiv> \<lparr>MwcbStatus.header = Header_default,
     MwcbStatus.breached_level = BreachedLevel_default\<rparr>"

definition MwcbStatus_ok :: "MwcbStatus \<Rightarrow> bool" where
  [wire_ok_defs]: "MwcbStatus_ok m = (Header_ok (MwcbStatus.header m))"

record IpoQuotingPeriodUpdate =
  header :: Header
  stock :: Stock
  ipo_quotation_release_time :: u32
  ipo_quotation_release_qualifier :: IpoReleaseQualifier
  ipo_price :: Price4

definition IpoQuotingPeriodUpdate_BODY_LEN :: nat where
  "IpoQuotingPeriodUpdate_BODY_LEN = 27"

abbreviation IpoQuotingPeriodUpdate_default :: IpoQuotingPeriodUpdate where
  "IpoQuotingPeriodUpdate_default \<equiv> \<lparr>IpoQuotingPeriodUpdate.header = Header_default,
     IpoQuotingPeriodUpdate.stock = Stock_default,
     IpoQuotingPeriodUpdate.ipo_quotation_release_time = 0,
     IpoQuotingPeriodUpdate.ipo_quotation_release_qualifier = IpoReleaseQualifier_default,
     IpoQuotingPeriodUpdate.ipo_price = Price4 0\<rparr>"

definition IpoQuotingPeriodUpdate_ok :: "IpoQuotingPeriodUpdate \<Rightarrow> bool" where
  [wire_ok_defs]: "IpoQuotingPeriodUpdate_ok m = (Header_ok (IpoQuotingPeriodUpdate.header m) \<and> Stock_ok (IpoQuotingPeriodUpdate.stock m))"

record AddOrder =
  header :: Header
  order_ref :: OrderReference
  side :: Side
  shares :: Shares
  stock :: Stock
  price :: Price4

definition AddOrder_BODY_LEN :: nat where
  "AddOrder_BODY_LEN = 35"

abbreviation AddOrder_default :: AddOrder where
  "AddOrder_default \<equiv> \<lparr>AddOrder.header = Header_default,
     AddOrder.order_ref = OrderReference 0,
     AddOrder.side = Side_default,
     AddOrder.shares = Shares 0,
     AddOrder.stock = Stock_default,
     AddOrder.price = Price4 0\<rparr>"

definition AddOrder_ok :: "AddOrder \<Rightarrow> bool" where
  [wire_ok_defs]: "AddOrder_ok m = (Header_ok (AddOrder.header m) \<and> Stock_ok (AddOrder.stock m))"

record AddOrderWithMpid =
  header :: Header
  order_ref :: OrderReference
  side :: Side
  shares :: Shares
  stock :: Stock
  price :: Price4
  attribution :: Mpid

definition AddOrderWithMpid_BODY_LEN :: nat where
  "AddOrderWithMpid_BODY_LEN = 39"

abbreviation AddOrderWithMpid_default :: AddOrderWithMpid where
  "AddOrderWithMpid_default \<equiv> \<lparr>AddOrderWithMpid.header = Header_default,
     AddOrderWithMpid.order_ref = OrderReference 0,
     AddOrderWithMpid.side = Side_default,
     AddOrderWithMpid.shares = Shares 0,
     AddOrderWithMpid.stock = Stock_default,
     AddOrderWithMpid.price = Price4 0,
     AddOrderWithMpid.attribution = Mpid_default\<rparr>"

definition AddOrderWithMpid_ok :: "AddOrderWithMpid \<Rightarrow> bool" where
  [wire_ok_defs]: "AddOrderWithMpid_ok m = (Header_ok (AddOrderWithMpid.header m) \<and> Stock_ok (AddOrderWithMpid.stock m) \<and> Mpid_ok (AddOrderWithMpid.attribution m))"

record OrderExecuted =
  header :: Header
  order_ref :: OrderReference
  executed_shares :: Shares
  match_number :: MatchNumber

definition OrderExecuted_BODY_LEN :: nat where
  "OrderExecuted_BODY_LEN = 30"

abbreviation OrderExecuted_default :: OrderExecuted where
  "OrderExecuted_default \<equiv> \<lparr>OrderExecuted.header = Header_default,
     OrderExecuted.order_ref = OrderReference 0,
     OrderExecuted.executed_shares = Shares 0,
     OrderExecuted.match_number = MatchNumber 0\<rparr>"

definition OrderExecuted_ok :: "OrderExecuted \<Rightarrow> bool" where
  [wire_ok_defs]: "OrderExecuted_ok m = (Header_ok (OrderExecuted.header m))"

record OrderExecutedWithPrice =
  header :: Header
  order_ref :: OrderReference
  executed_shares :: Shares
  match_number :: MatchNumber
  printable :: Printable
  execution_price :: Price4

definition OrderExecutedWithPrice_BODY_LEN :: nat where
  "OrderExecutedWithPrice_BODY_LEN = 35"

abbreviation OrderExecutedWithPrice_default :: OrderExecutedWithPrice where
  "OrderExecutedWithPrice_default \<equiv> \<lparr>OrderExecutedWithPrice.header = Header_default,
     OrderExecutedWithPrice.order_ref = OrderReference 0,
     OrderExecutedWithPrice.executed_shares = Shares 0,
     OrderExecutedWithPrice.match_number = MatchNumber 0,
     OrderExecutedWithPrice.printable = Printable_default,
     OrderExecutedWithPrice.execution_price = Price4 0\<rparr>"

definition OrderExecutedWithPrice_ok :: "OrderExecutedWithPrice \<Rightarrow> bool" where
  [wire_ok_defs]: "OrderExecutedWithPrice_ok m = (Header_ok (OrderExecutedWithPrice.header m))"

record OrderCancel =
  header :: Header
  order_ref :: OrderReference
  cancelled_shares :: Shares

definition OrderCancel_BODY_LEN :: nat where
  "OrderCancel_BODY_LEN = 22"

abbreviation OrderCancel_default :: OrderCancel where
  "OrderCancel_default \<equiv> \<lparr>OrderCancel.header = Header_default,
     OrderCancel.order_ref = OrderReference 0,
     OrderCancel.cancelled_shares = Shares 0\<rparr>"

definition OrderCancel_ok :: "OrderCancel \<Rightarrow> bool" where
  [wire_ok_defs]: "OrderCancel_ok m = (Header_ok (OrderCancel.header m))"

record OrderDelete =
  header :: Header
  order_ref :: OrderReference

definition OrderDelete_BODY_LEN :: nat where
  "OrderDelete_BODY_LEN = 18"

abbreviation OrderDelete_default :: OrderDelete where
  "OrderDelete_default \<equiv> \<lparr>OrderDelete.header = Header_default,
     OrderDelete.order_ref = OrderReference 0\<rparr>"

definition OrderDelete_ok :: "OrderDelete \<Rightarrow> bool" where
  [wire_ok_defs]: "OrderDelete_ok m = (Header_ok (OrderDelete.header m))"

record OrderReplace =
  header :: Header
  original_order_ref :: OrderReference
  new_order_ref :: OrderReference
  shares :: Shares
  price :: Price4

definition OrderReplace_BODY_LEN :: nat where
  "OrderReplace_BODY_LEN = 34"

abbreviation OrderReplace_default :: OrderReplace where
  "OrderReplace_default \<equiv> \<lparr>OrderReplace.header = Header_default,
     OrderReplace.original_order_ref = OrderReference 0,
     OrderReplace.new_order_ref = OrderReference 0,
     OrderReplace.shares = Shares 0,
     OrderReplace.price = Price4 0\<rparr>"

definition OrderReplace_ok :: "OrderReplace \<Rightarrow> bool" where
  [wire_ok_defs]: "OrderReplace_ok m = (Header_ok (OrderReplace.header m))"

record TradeNonCross =
  header :: Header
  order_ref :: OrderReference
  side :: Side
  shares :: Shares
  stock :: Stock
  price :: Price4
  match_number :: MatchNumber

definition TradeNonCross_BODY_LEN :: nat where
  "TradeNonCross_BODY_LEN = 43"

abbreviation TradeNonCross_default :: TradeNonCross where
  "TradeNonCross_default \<equiv> \<lparr>TradeNonCross.header = Header_default,
     TradeNonCross.order_ref = OrderReference 0,
     TradeNonCross.side = Side_default,
     TradeNonCross.shares = Shares 0,
     TradeNonCross.stock = Stock_default,
     TradeNonCross.price = Price4 0,
     TradeNonCross.match_number = MatchNumber 0\<rparr>"

definition TradeNonCross_ok :: "TradeNonCross \<Rightarrow> bool" where
  [wire_ok_defs]: "TradeNonCross_ok m = (Header_ok (TradeNonCross.header m) \<and> Stock_ok (TradeNonCross.stock m))"

record CrossTrade =
  header :: Header
  shares :: u64
  stock :: Stock
  cross_price :: Price4
  match_number :: MatchNumber
  cross_type :: CrossType

definition CrossTrade_BODY_LEN :: nat where
  "CrossTrade_BODY_LEN = 39"

abbreviation CrossTrade_default :: CrossTrade where
  "CrossTrade_default \<equiv> \<lparr>CrossTrade.header = Header_default,
     CrossTrade.shares = 0,
     CrossTrade.stock = Stock_default,
     CrossTrade.cross_price = Price4 0,
     CrossTrade.match_number = MatchNumber 0,
     CrossTrade.cross_type = CrossType_default\<rparr>"

definition CrossTrade_ok :: "CrossTrade \<Rightarrow> bool" where
  [wire_ok_defs]: "CrossTrade_ok m = (Header_ok (CrossTrade.header m) \<and> Stock_ok (CrossTrade.stock m))"

record BrokenTrade =
  header :: Header
  match_number :: MatchNumber

definition BrokenTrade_BODY_LEN :: nat where
  "BrokenTrade_BODY_LEN = 18"

abbreviation BrokenTrade_default :: BrokenTrade where
  "BrokenTrade_default \<equiv> \<lparr>BrokenTrade.header = Header_default,
     BrokenTrade.match_number = MatchNumber 0\<rparr>"

definition BrokenTrade_ok :: "BrokenTrade \<Rightarrow> bool" where
  [wire_ok_defs]: "BrokenTrade_ok m = (Header_ok (BrokenTrade.header m))"

record Noii =
  header :: Header
  paired_shares :: u64
  imbalance_shares :: u64
  imbalance_direction :: ImbalanceDirection
  stock :: Stock
  far_price :: Price4
  near_price :: Price4
  current_reference_price :: Price4
  cross_type :: CrossType
  price_variation :: PriceVariation

definition Noii_BODY_LEN :: nat where
  "Noii_BODY_LEN = 49"

abbreviation Noii_default :: Noii where
  "Noii_default \<equiv> \<lparr>Noii.header = Header_default,
     Noii.paired_shares = 0,
     Noii.imbalance_shares = 0,
     Noii.imbalance_direction = ImbalanceDirection_default,
     Noii.stock = Stock_default,
     Noii.far_price = Price4 0,
     Noii.near_price = Price4 0,
     Noii.current_reference_price = Price4 0,
     Noii.cross_type = CrossType_default,
     Noii.price_variation = PriceVariation_default\<rparr>"

definition Noii_ok :: "Noii \<Rightarrow> bool" where
  [wire_ok_defs]: "Noii_ok m = (Header_ok (Noii.header m) \<and> Stock_ok (Noii.stock m))"

record RetailPriceImprovement =
  header :: Header
  stock :: Stock
  interest_flag :: RpiInterestFlag

definition RetailPriceImprovement_BODY_LEN :: nat where
  "RetailPriceImprovement_BODY_LEN = 19"

abbreviation RetailPriceImprovement_default :: RetailPriceImprovement where
  "RetailPriceImprovement_default \<equiv> \<lparr>RetailPriceImprovement.header = Header_default,
     RetailPriceImprovement.stock = Stock_default,
     RetailPriceImprovement.interest_flag = RpiInterestFlag_default\<rparr>"

definition RetailPriceImprovement_ok :: "RetailPriceImprovement \<Rightarrow> bool" where
  [wire_ok_defs]: "RetailPriceImprovement_ok m = (Header_ok (RetailPriceImprovement.header m) \<and> Stock_ok (RetailPriceImprovement.stock m))"

section \<open>The message union\<close>

datatype Message =
    SystemEvent SystemEvent
  | StockDirectory StockDirectory
  | StockTradingAction StockTradingAction
  | RegShoRestriction RegShoRestriction
  | MarketParticipantPosition MarketParticipantPosition
  | MwcbDeclineLevel MwcbDeclineLevel
  | MwcbStatus MwcbStatus
  | IpoQuotingPeriodUpdate IpoQuotingPeriodUpdate
  | AddOrder AddOrder
  | AddOrderWithMpid AddOrderWithMpid
  | OrderExecuted OrderExecuted
  | OrderExecutedWithPrice OrderExecutedWithPrice
  | OrderCancel OrderCancel
  | OrderDelete OrderDelete
  | OrderReplace OrderReplace
  | TradeNonCross TradeNonCross
  | CrossTrade CrossTrade
  | BrokenTrade BrokenTrade
  | Noii Noii
  | RetailPriceImprovement RetailPriceImprovement

fun Message_tag :: "Message \<Rightarrow> u8" where
  "Message_tag (SystemEvent _) = byte CHR ''S''"
| "Message_tag (StockDirectory _) = byte CHR ''R''"
| "Message_tag (StockTradingAction _) = byte CHR ''H''"
| "Message_tag (RegShoRestriction _) = byte CHR ''Y''"
| "Message_tag (MarketParticipantPosition _) = byte CHR ''L''"
| "Message_tag (MwcbDeclineLevel _) = byte CHR ''V''"
| "Message_tag (MwcbStatus _) = byte CHR ''W''"
| "Message_tag (IpoQuotingPeriodUpdate _) = byte CHR ''K''"
| "Message_tag (AddOrder _) = byte CHR ''A''"
| "Message_tag (AddOrderWithMpid _) = byte CHR ''F''"
| "Message_tag (OrderExecuted _) = byte CHR ''E''"
| "Message_tag (OrderExecutedWithPrice _) = byte CHR ''C''"
| "Message_tag (OrderCancel _) = byte CHR ''X''"
| "Message_tag (OrderDelete _) = byte CHR ''D''"
| "Message_tag (OrderReplace _) = byte CHR ''U''"
| "Message_tag (TradeNonCross _) = byte CHR ''P''"
| "Message_tag (CrossTrade _) = byte CHR ''Q''"
| "Message_tag (BrokenTrade _) = byte CHR ''B''"
| "Message_tag (Noii _) = byte CHR ''I''"
| "Message_tag (RetailPriceImprovement _) = byte CHR ''N''"

fun Message_header :: "Message \<Rightarrow> Header" where
  "Message_header (SystemEvent m) = SystemEvent.header m"
| "Message_header (StockDirectory m) = StockDirectory.header m"
| "Message_header (StockTradingAction m) = StockTradingAction.header m"
| "Message_header (RegShoRestriction m) = RegShoRestriction.header m"
| "Message_header (MarketParticipantPosition m) = MarketParticipantPosition.header m"
| "Message_header (MwcbDeclineLevel m) = MwcbDeclineLevel.header m"
| "Message_header (MwcbStatus m) = MwcbStatus.header m"
| "Message_header (IpoQuotingPeriodUpdate m) = IpoQuotingPeriodUpdate.header m"
| "Message_header (AddOrder m) = AddOrder.header m"
| "Message_header (AddOrderWithMpid m) = AddOrderWithMpid.header m"
| "Message_header (OrderExecuted m) = OrderExecuted.header m"
| "Message_header (OrderExecutedWithPrice m) = OrderExecutedWithPrice.header m"
| "Message_header (OrderCancel m) = OrderCancel.header m"
| "Message_header (OrderDelete m) = OrderDelete.header m"
| "Message_header (OrderReplace m) = OrderReplace.header m"
| "Message_header (TradeNonCross m) = TradeNonCross.header m"
| "Message_header (CrossTrade m) = CrossTrade.header m"
| "Message_header (BrokenTrade m) = BrokenTrade.header m"
| "Message_header (Noii m) = Noii.header m"
| "Message_header (RetailPriceImprovement m) = RetailPriceImprovement.header m"

fun Message_body_len :: "Message \<Rightarrow> nat" where
  "Message_body_len (SystemEvent _) = SystemEvent_BODY_LEN"
| "Message_body_len (StockDirectory _) = StockDirectory_BODY_LEN"
| "Message_body_len (StockTradingAction _) = StockTradingAction_BODY_LEN"
| "Message_body_len (RegShoRestriction _) = RegShoRestriction_BODY_LEN"
| "Message_body_len (MarketParticipantPosition _) = MarketParticipantPosition_BODY_LEN"
| "Message_body_len (MwcbDeclineLevel _) = MwcbDeclineLevel_BODY_LEN"
| "Message_body_len (MwcbStatus _) = MwcbStatus_BODY_LEN"
| "Message_body_len (IpoQuotingPeriodUpdate _) = IpoQuotingPeriodUpdate_BODY_LEN"
| "Message_body_len (AddOrder _) = AddOrder_BODY_LEN"
| "Message_body_len (AddOrderWithMpid _) = AddOrderWithMpid_BODY_LEN"
| "Message_body_len (OrderExecuted _) = OrderExecuted_BODY_LEN"
| "Message_body_len (OrderExecutedWithPrice _) = OrderExecutedWithPrice_BODY_LEN"
| "Message_body_len (OrderCancel _) = OrderCancel_BODY_LEN"
| "Message_body_len (OrderDelete _) = OrderDelete_BODY_LEN"
| "Message_body_len (OrderReplace _) = OrderReplace_BODY_LEN"
| "Message_body_len (TradeNonCross _) = TradeNonCross_BODY_LEN"
| "Message_body_len (CrossTrade _) = CrossTrade_BODY_LEN"
| "Message_body_len (BrokenTrade _) = BrokenTrade_BODY_LEN"
| "Message_body_len (Noii _) = Noii_BODY_LEN"
| "Message_body_len (RetailPriceImprovement _) = RetailPriceImprovement_BODY_LEN"

definition Message_encoded_len :: "Message \<Rightarrow> nat" where
  "Message_encoded_len m = 1 + Message_body_len m"

fun Message_ok :: "Message \<Rightarrow> bool" where
  "Message_ok (SystemEvent m) = SystemEvent_ok m"
| "Message_ok (StockDirectory m) = StockDirectory_ok m"
| "Message_ok (StockTradingAction m) = StockTradingAction_ok m"
| "Message_ok (RegShoRestriction m) = RegShoRestriction_ok m"
| "Message_ok (MarketParticipantPosition m) = MarketParticipantPosition_ok m"
| "Message_ok (MwcbDeclineLevel m) = MwcbDeclineLevel_ok m"
| "Message_ok (MwcbStatus m) = MwcbStatus_ok m"
| "Message_ok (IpoQuotingPeriodUpdate m) = IpoQuotingPeriodUpdate_ok m"
| "Message_ok (AddOrder m) = AddOrder_ok m"
| "Message_ok (AddOrderWithMpid m) = AddOrderWithMpid_ok m"
| "Message_ok (OrderExecuted m) = OrderExecuted_ok m"
| "Message_ok (OrderExecutedWithPrice m) = OrderExecutedWithPrice_ok m"
| "Message_ok (OrderCancel m) = OrderCancel_ok m"
| "Message_ok (OrderDelete m) = OrderDelete_ok m"
| "Message_ok (OrderReplace m) = OrderReplace_ok m"
| "Message_ok (TradeNonCross m) = TradeNonCross_ok m"
| "Message_ok (CrossTrade m) = CrossTrade_ok m"
| "Message_ok (BrokenTrade m) = BrokenTrade_ok m"
| "Message_ok (Noii m) = Noii_ok m"
| "Message_ok (RetailPriceImprovement m) = RetailPriceImprovement_ok m"

lemmas BODY_LEN_defs =
  SystemEvent_BODY_LEN_def
  StockDirectory_BODY_LEN_def
  StockTradingAction_BODY_LEN_def
  RegShoRestriction_BODY_LEN_def
  MarketParticipantPosition_BODY_LEN_def
  MwcbDeclineLevel_BODY_LEN_def
  MwcbStatus_BODY_LEN_def
  IpoQuotingPeriodUpdate_BODY_LEN_def
  AddOrder_BODY_LEN_def
  AddOrderWithMpid_BODY_LEN_def
  OrderExecuted_BODY_LEN_def
  OrderExecutedWithPrice_BODY_LEN_def
  OrderCancel_BODY_LEN_def
  OrderDelete_BODY_LEN_def
  OrderReplace_BODY_LEN_def
  TradeNonCross_BODY_LEN_def
  CrossTrade_BODY_LEN_def
  BrokenTrade_BODY_LEN_def
  Noii_BODY_LEN_def
  RetailPriceImprovement_BODY_LEN_def

lemmas body_default_defs =
  Header_default_def StockDirectory_default_def StockTradingAction_default_def

end
