(* ===== verification/Itch_Wire.thy ===== *)
theory Itch_Wire
  imports Itch_Messages
begin

text \<open>
  The byte helpers of \<open>itch-protocol/src/codec.rs\<close> and the header codec, with
  the two ways the body codecs use them: a write at the end of the part already
  written, and a read of a field of a buffer that is the concatenation of its
  fields.  A mutable buffer is passed in and the updated buffer is returned;
  the borrowed range of \<open>slice_n_mut\<close> is the pair of its bounds.
\<close>

named_theorems write_simps \<open>a write behind the bytes already written\<close>
named_theorems read_simps \<open>a read inside a long enough buffer\<close>
named_theorems layout_simps \<open>fields of a concatenation of fields\<close>
named_theorems glue_simps \<open>adjacent fields glue together\<close>

section \<open>Definitions\<close>

definition need :: "bytes \<Rightarrow> nat \<Rightarrow> ProtocolError + unit" where
  "need buf n = (if length buf < n then Inl (Truncated n (length buf)) else Inr ())"

definition slice_n :: "bytes \<Rightarrow> nat \<Rightarrow> nat \<Rightarrow> ProtocolError + bytes" where
  "slice_n buf off n =
    and_then (ok_or (checked_add_usize off n) (Truncated usize_max (length buf))) (\<lambda>e.
      if e \<le> length buf then Inr (subslice buf off (e - off))
      else Inl (Truncated e (length buf)))"

definition slice_n_mut :: "bytes \<Rightarrow> nat \<Rightarrow> nat \<Rightarrow> ProtocolError + nat \<times> nat" where
  "slice_n_mut buf off n =
    and_then (ok_or (checked_add_usize off n) (BufferTooSmall usize_max (length buf))) (\<lambda>e.
      if e \<le> length buf then Inr (off, e)
      else Inl (BufferTooSmall e (length buf)))"

definition read_u8 :: "bytes \<Rightarrow> nat \<Rightarrow> ProtocolError + u8" where
  "read_u8 buf off = and_then (slice_n buf off 1) (\<lambda>s. Inr (s ! 0))"

definition read_u16 :: "bytes \<Rightarrow> nat \<Rightarrow> ProtocolError + u16" where
  "read_u16 buf off = and_then (slice_n buf off 2) (\<lambda>s. Inr (of_nat (be_val s)))"

definition read_u32 :: "bytes \<Rightarrow> nat \<Rightarrow> ProtocolError + u32" where
  "read_u32 buf off = and_then (slice_n buf off 4) (\<lambda>s. Inr (of_nat (be_val s)))"

definition read_u64 :: "bytes \<Rightarrow> nat \<Rightarrow> ProtocolError + u64" where
  "read_u64 buf off = and_then (slice_n buf off 8) (\<lambda>s. Inr (of_nat (be_val s)))"

definition read_u48 :: "bytes \<Rightarrow> nat \<Rightarrow> ProtocolError + u64" where
  "read_u48 buf off =
    and_then (slice_n buf off 6) (\<lambda>s.
      let wide = copy_from_slice (replicate 8 0) 2 s
      in Inr (of_nat (be_val wide)))"

definition read_bytes_n :: "nat \<Rightarrow> bytes \<Rightarrow> nat \<Rightarrow> ProtocolError + bytes" where
  "read_bytes_n N buf off = slice_n buf off N"

definition write_bytes :: "bytes \<Rightarrow> nat \<Rightarrow> bytes \<Rightarrow> ProtocolError + bytes" where
  "write_bytes buf off src =
    and_then (slice_n_mut buf off (length src)) (\<lambda>s. Inr (copy_from_slice buf (fst s) src))"

definition write_u8 :: "bytes \<Rightarrow> nat \<Rightarrow> u8 \<Rightarrow> ProtocolError + bytes" where
  "write_u8 buf off v = and_then (slice_n_mut buf off 1) (\<lambda>s. Inr (buf[fst s := v]))"

definition write_u16 :: "bytes \<Rightarrow> nat \<Rightarrow> u16 \<Rightarrow> ProtocolError + bytes" where
  "write_u16 buf off v =
    and_then (slice_n_mut buf off 2) (\<lambda>s. Inr (copy_from_slice buf (fst s) (to_be 2 (unat v))))"

definition write_u32 :: "bytes \<Rightarrow> nat \<Rightarrow> u32 \<Rightarrow> ProtocolError + bytes" where
  "write_u32 buf off v =
    and_then (slice_n_mut buf off 4) (\<lambda>s. Inr (copy_from_slice buf (fst s) (to_be 4 (unat v))))"

definition write_u64 :: "bytes \<Rightarrow> nat \<Rightarrow> u64 \<Rightarrow> ProtocolError + bytes" where
  "write_u64 buf off v =
    and_then (slice_n_mut buf off 8) (\<lambda>s. Inr (copy_from_slice buf (fst s) (to_be 8 (unat v))))"

definition write_u48 :: "bytes \<Rightarrow> nat \<Rightarrow> u64 \<Rightarrow> ProtocolError + bytes" where
  "write_u48 buf off v =
    and_then (slice_n_mut buf off 6) (\<lambda>s.
      let bytes = to_be 8 (unat v)
      in Inr (copy_from_slice buf (fst s) (subslice bytes 2 6)))"

definition Header_decode_at :: "bytes \<Rightarrow> ProtocolError + Header" where
  "Header_decode_at buf =
    and_then (read_u16 buf 0) (\<lambda>stock_locate.
    and_then (read_u16 buf 2) (\<lambda>tracking_number.
    and_then (read_u48 buf 4) (\<lambda>timestamp.
    Inr \<lparr>Header.stock_locate = StockLocate stock_locate,
         Header.tracking_number = TrackingNumber tracking_number,
         Header.timestamp = Timestamp timestamp\<rparr>)))"

definition Header_encode_at :: "Header \<Rightarrow> bytes \<Rightarrow> ProtocolError + bytes" where
  "Header_encode_at h buf =
    and_then (write_u16 buf 0 (StockLocate.as_u16 (Header.stock_locate h))) (\<lambda>buf.
    and_then (write_u16 buf 2 (TrackingNumber.as_u16 (Header.tracking_number h))) (\<lambda>buf.
    and_then (write_u48 buf 4 (Timestamp.as_u64 (Header.timestamp h))) (\<lambda>buf.
    Inr buf)))"

section \<open>Words and their big-endian bytes\<close>

lemma of_nat_be_val_to_be [simp]:
  "of_nat (be_val (to_be 2 (unat v))) = (v :: u16)"
  "of_nat (be_val (to_be 4 (unat w))) = (w :: u32)"
  "of_nat (be_val (to_be 8 (unat x))) = (x :: u64)"
proof -
  have "unat v < 2 ^ LENGTH(16)" "unat w < 2 ^ LENGTH(32)" "unat x < 2 ^ LENGTH(64)"
    by (rule unsigned_less)+
  then show "of_nat (be_val (to_be 2 (unat v))) = (v :: u16)"
    "of_nat (be_val (to_be 4 (unat w))) = (w :: u32)"
    "of_nat (be_val (to_be 8 (unat x))) = (x :: u64)"
    by (simp_all add: be_val_to_be)
qed

lemma to_be_unat_of_nat:
  assumes "length bs = n" "(256 :: nat) ^ n \<le> 2 ^ LENGTH('w)"
  shows "to_be n (unat (of_nat (be_val bs) :: 'w::len word)) = bs"
proof -
  have "be_val bs < 2 ^ LENGTH('w)"
    using be_val_less [of bs] assms by simp
  then have "unat (of_nat (be_val bs) :: 'w word) = be_val bs"
    by (simp add: unat_of_nat)
  with to_be_be_val [of bs] assms(1) show ?thesis by simp
qed

lemma drop_to_be: "drop k (to_be (k + n) v) = to_be n v"
  by (induction k) simp_all

lemma subslice_to_be [simp]: "subslice (to_be 8 v) 2 6 = to_be 6 v"
  using drop_to_be [of 2 6 v] by (simp add: subslice_def)

lemma be_val_zeros [simp]: "be_val (replicate n 0 @ bs) = be_val bs"
  by (induction n) simp_all

section \<open>Writes behind the part already written\<close>

lemma slice_n_mut_Inr:
  "off + n \<le> length buf \<Longrightarrow> off + n \<le> usize_max \<Longrightarrow> slice_n_mut buf off n = Inr (off, off + n)"
  by (simp add: slice_n_mut_def checked_add_usize_def)

lemma slice_n_mut_small:
  "length buf < n \<Longrightarrow> n \<le> usize_max \<Longrightarrow> slice_n_mut buf 0 n = Inl (BufferTooSmall n (length buf))"
  by (simp add: slice_n_mut_def checked_add_usize_def)

lemma copy_append:
  "length pre = off \<Longrightarrow> copy_from_slice (pre @ rest) off src = (pre @ src) @ drop (length src) rest"
  by (simp add: copy_from_slice_def)

lemma write_append [write_simps]:
  "length pre = off \<Longrightarrow> 1 \<le> length rest \<Longrightarrow> off + 1 \<le> usize_max
    \<Longrightarrow> write_u8 (pre @ rest) off b = Inr ((pre @ [b]) @ drop 1 rest)"
  "length pre = off \<Longrightarrow> 2 \<le> length rest \<Longrightarrow> off + 2 \<le> usize_max
    \<Longrightarrow> write_u16 (pre @ rest) off v2 = Inr ((pre @ to_be 2 (unat v2)) @ drop 2 rest)"
  "length pre = off \<Longrightarrow> 4 \<le> length rest \<Longrightarrow> off + 4 \<le> usize_max
    \<Longrightarrow> write_u32 (pre @ rest) off v4 = Inr ((pre @ to_be 4 (unat v4)) @ drop 4 rest)"
  "length pre = off \<Longrightarrow> 8 \<le> length rest \<Longrightarrow> off + 8 \<le> usize_max
    \<Longrightarrow> write_u64 (pre @ rest) off v8 = Inr ((pre @ to_be 8 (unat v8)) @ drop 8 rest)"
  "length pre = off \<Longrightarrow> 6 \<le> length rest \<Longrightarrow> off + 6 \<le> usize_max
    \<Longrightarrow> write_u48 (pre @ rest) off v8 = Inr ((pre @ to_be 6 (unat v8)) @ drop 6 rest)"
  "length pre = off \<Longrightarrow> length src \<le> length rest \<Longrightarrow> off + length src \<le> usize_max
    \<Longrightarrow> write_bytes (pre @ rest) off src = Inr ((pre @ src) @ drop (length src) rest)"
  by (simp_all add: write_u8_def write_u16_def write_u32_def write_u64_def write_u48_def
      write_bytes_def slice_n_mut_Inr copy_append list_update_append del: append_assoc)
    (cases rest; simp)

section \<open>Reads of fields\<close>

lemma slice_n_Inr:
  "off + n \<le> length buf \<Longrightarrow> off + n \<le> usize_max \<Longrightarrow> slice_n buf off n = Inr (subslice buf off n)"
  by (simp add: slice_n_def checked_add_usize_def)

lemma read_Inr [read_simps]:
  "off + 1 \<le> length buf \<Longrightarrow> off + 1 \<le> usize_max \<Longrightarrow> read_u8 buf off = Inr (buf ! off)"
  "off + 2 \<le> length buf \<Longrightarrow> off + 2 \<le> usize_max
    \<Longrightarrow> read_u16 buf off = Inr (of_nat (be_val (subslice buf off 2)))"
  "off + 4 \<le> length buf \<Longrightarrow> off + 4 \<le> usize_max
    \<Longrightarrow> read_u32 buf off = Inr (of_nat (be_val (subslice buf off 4)))"
  "off + 8 \<le> length buf \<Longrightarrow> off + 8 \<le> usize_max
    \<Longrightarrow> read_u64 buf off = Inr (of_nat (be_val (subslice buf off 8)))"
  "off + 6 \<le> length buf \<Longrightarrow> off + 6 \<le> usize_max
    \<Longrightarrow> read_u48 buf off = Inr (of_nat (be_val (subslice buf off 6)))"
  "off + n \<le> length buf \<Longrightarrow> off + n \<le> usize_max \<Longrightarrow> read_bytes_n n buf off = Inr (subslice buf off n)"
  by (simp_all add: read_u8_def read_u16_def read_u32_def read_u64_def read_u48_def
      read_bytes_n_def slice_n_Inr copy_from_slice_def subslice_def)

lemma subslice_append2 [layout_simps]:
  "length xs \<le> off \<Longrightarrow> subslice (xs @ ys) off n = subslice ys (off - length xs) n"
  by (simp add: subslice_def)

lemma nth_append2 [layout_simps]: "length xs \<le> i \<Longrightarrow> (xs @ ys) ! i = ys ! (i - length xs)"
  by (simp add: nth_append)

lemma subslice_all [layout_simps]: "length xs = n \<Longrightarrow> subslice xs 0 n = xs"
  by (simp add: subslice_def)

lemma subslice_Cons [layout_simps]:
  "0 < off \<Longrightarrow> subslice (x # xs) off n = subslice xs (off - 1) n"
  "subslice (x # xs) 0 1 = [x]" "subslice (x # xs) 0 (Suc 0) = [x]"
  by (simp_all add: subslice_def drop_Cons')

text \<open>Adjacent fields read from a buffer glue together to the range they cover.\<close>

lemma subslice_glue [glue_simps]:
  "b = a + m \<Longrightarrow> subslice buf a m @ subslice buf b n = subslice buf a (m + n)"
  "b = a + m \<Longrightarrow> subslice buf a m @ subslice buf b n @ zs = subslice buf a (m + n) @ zs"
  "subslice buf 0 n = take n buf"
  "b = m \<Longrightarrow> take m buf @ subslice buf b n = take (m + n) buf"
  "b = m \<Longrightarrow> take m buf @ subslice buf b n @ zs = take (m + n) buf @ zs"
  by (simp_all add: subslice_def take_add add.commute)

lemma byte_glue [glue_simps]:
  "off < length buf \<Longrightarrow> buf ! off # zs = subslice buf off 1 @ zs"
  by (simp add: subslice_def take_Suc hd_drop_conv_nth)

section \<open>The header codec\<close>

definition Header_wire :: "Header \<Rightarrow> bytes" where
  "Header_wire h = to_be 2 (unat (StockLocate.as_u16 (Header.stock_locate h)))
    @ to_be 2 (unat (TrackingNumber.as_u16 (Header.tracking_number h)))
    @ to_be 6 (unat (Timestamp.as_u64 (Header.timestamp h)))"

lemma length_Header_wire [simp]: "length (Header_wire h) = 10"
  by (simp add: Header_wire_def)

lemma Header_encode_at_Inr [write_simps]:
  "10 \<le> length buf \<Longrightarrow> Header_encode_at h buf = Inr (Header_wire h @ drop 10 buf)"
  using write_append(2) [of "[]" 0 buf "StockLocate.as_u16 (Header.stock_locate h)"]
  by (simp add: Header_encode_at_def Header_wire_def write_simps del: append_assoc)

lemma u48_round_trip: "Timestamp_ok t \<Longrightarrow> Timestamp (of_nat (be_val (to_be 6 (unat (Timestamp.as_u64 t))))) = t"
  by (simp add: be_val_to_be Timestamp_ok_iff)

lemma Header_decode_wire [layout_simps]:
  "Header_ok h \<Longrightarrow> Header_decode_at (Header_wire h @ rest) = Inr h"
  by (cases h) (simp add: Header_decode_at_def Header_wire_def read_simps layout_simps
      Header_ok_def u48_round_trip)

lemma Header_decode_sound:
  assumes "Header_decode_at buf = Inr h" "10 \<le> length buf"
  shows "Header_ok h \<and> Header_wire h = take 10 buf"
proof -
  let ?t = "be_val (subslice buf 4 6)"
  have lt: "?t < 256 ^ 6" using be_val_less [of "subslice buf 4 6"] assms(2) by simp
  then have "unat (of_nat ?t :: u64) = ?t" by (simp add: unat_of_nat)
  moreover have "to_be 6 ?t = subslice buf 4 6"
    using to_be_be_val [of "subslice buf 4 6"] assms(2) by simp
  ultimately show ?thesis using assms lt
    by (auto simp: Header_decode_at_def read_simps Header_ok_def Timestamp_ok_iff Header_wire_def
        to_be_unat_of_nat glue_simps)
qed

lemma Header_decode_total: "10 \<le> length buf \<Longrightarrow> \<exists>h. Header_decode_at buf = Inr h"
  by (simp add: Header_decode_at_def read_simps)

end
