(* ===== verification/Itch_Codec.thy ===== *)
theory Itch_Codec
  imports Itch_Wire
begin

text \<open>
  The per-message body codecs of \<open>itch-protocol/src/codec.rs\<close>: for every message
  kind \<open>encode_body\<close>, the sequence of writes at fixed offsets, and
  \<open>decode_body\<close>, the reads of the fields in the order of the struct literal
  (the order in which the first bad enum byte is reported).
\<close>

definition SystemEvent_encode_body :: "SystemEvent \<Rightarrow> bytes \<Rightarrow> ProtocolError + bytes" where
  "SystemEvent_encode_body m buf =
    and_then (slice_n_mut buf 0 SystemEvent_BODY_LEN) (\<lambda>_.
    and_then (Header_encode_at (SystemEvent.header m) buf) (\<lambda>buf.
    and_then (write_u8 buf 10 (EventCode_to_byte (SystemEvent.event_code m))) (\<lambda>buf.
    Inr buf)))"

definition SystemEvent_decode_body :: "bytes \<Rightarrow> ProtocolError + SystemEvent" where
  "SystemEvent_decode_body buf =
    and_then (need buf SystemEvent_BODY_LEN) (\<lambda>_.
    and_then (Header_decode_at buf) (\<lambda>header.
    and_then (and_then (read_u8 buf 10) EventCode_from_byte) (\<lambda>event_code.
    Inr \<lparr>SystemEvent.header = header,
         SystemEvent.event_code = event_code\<rparr>)))"

definition StockDirectory_encode_body :: "StockDirectory \<Rightarrow> bytes \<Rightarrow> ProtocolError + bytes" where
  "StockDirectory_encode_body m buf =
    and_then (slice_n_mut buf 0 StockDirectory_BODY_LEN) (\<lambda>_.
    and_then (Header_encode_at (StockDirectory.header m) buf) (\<lambda>buf.
    and_then (write_bytes buf 10 (Stock.as_bytes (StockDirectory.stock m))) (\<lambda>buf.
    and_then (write_u8 buf 18 (MarketCategory_to_byte (StockDirectory.market_category m))) (\<lambda>buf.
    and_then (write_u8 buf 19 (FinancialStatus_to_byte (StockDirectory.financial_status m))) (\<lambda>buf.
    and_then (write_u32 buf 20 (Shares.as_u32 (StockDirectory.round_lot_size m))) (\<lambda>buf.
    and_then (write_u8 buf 24 (YesNo_to_byte (StockDirectory.round_lots_only m))) (\<lambda>buf.
    and_then (write_u8 buf 25 (StockDirectory.issue_classification m)) (\<lambda>buf.
    and_then (write_bytes buf 26 (StockDirectory.issue_subtype m)) (\<lambda>buf.
    and_then (write_u8 buf 28 (Authenticity_to_byte (StockDirectory.authenticity m))) (\<lambda>buf.
    and_then (write_u8 buf 29 (YesNo_to_byte (StockDirectory.short_sale_threshold m))) (\<lambda>buf.
    and_then (write_u8 buf 30 (YesNo_to_byte (StockDirectory.ipo_flag m))) (\<lambda>buf.
    and_then (write_u8 buf 31 (LuldTier_to_byte (StockDirectory.luld_reference_price_tier m))) (\<lambda>buf.
    and_then (write_u8 buf 32 (YesNo_to_byte (StockDirectory.etp_flag m))) (\<lambda>buf.
    and_then (write_u32 buf 33 (StockDirectory.etp_leverage_factor m)) (\<lambda>buf.
    and_then (write_u8 buf 37 (YesNo_to_byte (StockDirectory.inverse_indicator m))) (\<lambda>buf.
    Inr buf))))))))))))))))"

definition StockDirectory_decode_body :: "bytes \<Rightarrow> ProtocolError + StockDirectory" where
  "StockDirectory_decode_body buf =
    and_then (need buf StockDirectory_BODY_LEN) (\<lambda>_.
    and_then (Header_decode_at buf) (\<lambda>header.
    and_then (read_bytes_n 8 buf 10) (\<lambda>stock.
    and_then (and_then (read_u8 buf 18) MarketCategory_from_byte) (\<lambda>market_category.
    and_then (and_then (read_u8 buf 19) FinancialStatus_from_byte) (\<lambda>financial_status.
    and_then (read_u32 buf 20) (\<lambda>round_lot_size.
    and_then (and_then (read_u8 buf 24) YesNo_from_byte) (\<lambda>round_lots_only.
    and_then (read_u8 buf 25) (\<lambda>issue_classification.
    and_then (read_bytes_n 2 buf 26) (\<lambda>issue_subtype.
    and_then (and_then (read_u8 buf 28) Authenticity_from_byte) (\<lambda>authenticity.
    and_then (and_then (read_u8 buf 29) YesNo_from_byte) (\<lambda>short_sale_threshold.
    and_then (and_then (read_u8 buf 30) YesNo_from_byte) (\<lambda>ipo_flag.
    and_then (and_then (read_u8 buf 31) LuldTier_from_byte) (\<lambda>luld_reference_price_tier.
    and_then (and_then (read_u8 buf 32) YesNo_from_byte) (\<lambda>etp_flag.
    and_then (read_u32 buf 33) (\<lambda>etp_leverage_factor.
    and_then (and_then (read_u8 buf 37) YesNo_from_byte) (\<lambda>inverse_indicator.
    Inr \<lparr>StockDirectory.header = header,
         StockDirectory.stock = Stock stock,
         StockDirectory.market_category = market_category,
         StockDirectory.financial_status = financial_status,
         StockDirectory.round_lot_size = Shares round_lot_size,
         StockDirectory.round_lots_only = round_lots_only,
         StockDirectory.issue_classification = issue_classification,
         StockDirectory.issue_subtype = issue_subtype,
         StockDirectory.authenticity = authenticity,
         StockDirectory.short_sale_threshold = short_sale_threshold,
         StockDirectory.ipo_flag = ipo_flag,
         StockDirectory.luld_reference_price_tier = luld_reference_price_tier,
         StockDirectory.etp_flag = etp_flag,
         StockDirectory.etp_leverage_factor = etp_leverage_factor,
         StockDirectory.inverse_indicator = inverse_indicator\<rparr>))))))))))))))))"

definition StockTradingAction_encode_body :: "StockTradingAction \<Rightarrow> bytes \<Rightarrow> ProtocolError + bytes" where
  "StockTradingAction_encode_body m buf =
    and_then (slice_n_mut buf 0 StockTradingAction_BODY_LEN) (\<lambda>_.
    and_then (Header_encode_at (StockTradingAction.header m) buf) (\<lambda>buf.
    and_then (write_bytes buf 10 (Stock.as_bytes (StockTradingAction.stock m))) (\<lambda>buf.
    and_then (write_u8 buf 18 (TradingState_to_byte (StockTradingAction.trading_state m))) (\<lambda>buf.
    and_then (write_u8 buf 19 (StockTradingAction.reserved m)) (\<lambda>buf.
    and_then (write_bytes buf 20 (StockTradingAction.reason m)) (\<lambda>buf.
    Inr buf))))))"

definition StockTradingAction_decode_body :: "bytes \<Rightarrow> ProtocolError + StockTradingAction" where
  "StockTradingAction_decode_body buf =
    and_then (need buf StockTradingAction_BODY_LEN) (\<lambda>_.
    and_then (Header_decode_at buf) (\<lambda>header.
    and_then (read_bytes_n 8 buf 10) (\<lambda>stock.
    and_then (and_then (read_u8 buf 18) TradingState_from_byte) (\<lambda>trading_state.
    and_then (read_u8 buf 19) (\<lambda>reserved.
    and_then (read_bytes_n 4 buf 20) (\<lambda>reason.
    Inr \<lparr>StockTradingAction.header = header,
         StockTradingAction.stock = Stock stock,
         StockTradingAction.trading_state = trading_state,
         StockTradingAction.reserved = reserved,
         StockTradingAction.reason = reason\<rparr>))))))"

definition RegShoRestriction_encode_body :: "RegShoRestriction \<Rightarrow> bytes \<Rightarrow> ProtocolError + bytes" where
  "RegShoRestriction_encode_body m buf =
    and_then (slice_n_mut buf 0 RegShoRestriction_BODY_LEN) (\<lambda>_.
    and_then (Header_encode_at (RegShoRestriction.header m) buf) (\<lambda>buf.
    and_then (write_bytes buf 10 (Stock.as_bytes (RegShoRestriction.stock m))) (\<lambda>buf.
    and_then (write_u8 buf 18 (RegShoAction_to_byte (RegShoRestriction.reg_sho_action m))) (\<lambda>buf.
    Inr buf))))"

definition RegShoRestriction_decode_body :: "bytes \<Rightarrow> ProtocolError + RegShoRestriction" where
  "RegShoRestriction_decode_body buf =
    and_then (need buf RegShoRestriction_BODY_LEN) (\<lambda>_.
    and_then (Header_decode_at buf) (\<lambda>header.
    and_then (read_bytes_n 8 buf 10) (\<lambda>stock.
    and_then (and_then (read_u8 buf 18) RegShoAction_from_byte) (\<lambda>reg_sho_action.
    Inr \<lparr>RegShoRestriction.header = header,
         RegShoRestriction.stock = Stock stock,
         RegShoRestriction.reg_sho_action = reg_sho_action\<rparr>))))"

definition MarketParticipantPosition_encode_body :: "MarketParticipantPosition \<Rightarrow> bytes \<Rightarrow> ProtocolError + bytes" where
  "MarketParticipantPosition_encode_body m buf =
    and_then (slice_n_mut buf 0 MarketParticipantPosition_BODY_LEN) (\<lambda>_.
    and_then (Header_encode_at (MarketParticipantPosition.header m) buf) (\<lambda>buf.
    and_then (write_bytes buf 10 (Mpid.as_bytes (MarketParticipantPosition.mpid m))) (\<lambda>buf.
    and_then (write_bytes buf 14 (Stock.as_bytes (MarketParticipantPosition.stock m))) (\<lambda>buf.
    and_then (write_u8 buf 22 (YesNo_to_byte (MarketParticipantPosition.primary_market_maker m))) (\<lambda>buf.
    and_then (write_u8 buf 23 (MarketMakerMode_to_byte (MarketParticipantPosition.market_maker_mode m))) (\<lambda>buf.
    and_then (write_u8 buf 24 (MarketParticipantState_to_byte (MarketParticipantPosition.market_participant_state m))) (\<lambda>buf.
    Inr buf)))))))"

definition MarketParticipantPosition_decode_body :: "bytes \<Rightarrow> ProtocolError + MarketParticipantPosition" where
  "MarketParticipantPosition_decode_body buf =
    and_then (need buf MarketParticipantPosition_BODY_LEN) (\<lambda>_.
    and_then (Header_decode_at buf) (\<lambda>header.
    and_then (read_bytes_n 4 buf 10) (\<lambda>mpid.
    and_then (read_bytes_n 8 buf 14) (\<lambda>stock.
    and_then (and_then (read_u8 buf 22) YesNo_from_byte) (\<lambda>primary_market_maker.
    and_then (and_then (read_u8 buf 23) MarketMakerMode_from_byte) (\<lambda>market_maker_mode.
    and_then (and_then (read_u8 buf 24) MarketParticipantState_from_byte) (\<lambda>market_participant_state.
    Inr \<lparr>MarketParticipantPosition.header = header,
         MarketParticipantPosition.mpid = Mpid mpid,
         MarketParticipantPosition.stock = Stock stock,
         MarketParticipantPosition.primary_market_maker = primary_market_maker,
         MarketParticipantPosition.market_maker_mode = market_maker_mode,
         MarketParticipantPosition.market_participant_state = market_participant_state\<rparr>)))))))"

definition MwcbDeclineLevel_encode_body :: "MwcbDeclineLevel \<Rightarrow> bytes \<Rightarrow> ProtocolError + bytes" where
  "MwcbDeclineLevel_encode_body m buf =
    and_then (slice_n_mut buf 0 MwcbDeclineLevel_BODY_LEN) (\<lambda>_.
    and_then (Header_encode_at (MwcbDeclineLevel.header m) buf) (\<lambda>buf.
    and_then (write_u64 buf 10 (Price8.as_u64 (MwcbDeclineLevel.level1 m))) (\<lambda>buf.
    and_then (write_u64 buf 18 (Price8.as_u64 (MwcbDeclineLevel.level2 m))) (\<lambda>buf.
    and_then (write_u64 buf 26 (Price8.as_u64 (MwcbDeclineLevel.level3 m))) (\<lambda>buf.
    Inr buf)))))"

definition MwcbDeclineLevel_decode_body :: "bytes \<Rightarrow> ProtocolError + MwcbDeclineLevel" where
  "MwcbDeclineLevel_decode_body buf =
    and_then (need buf MwcbDeclineLevel_BODY_LEN) (\<lambda>_.
    and_then (Header_decode_at buf) (\<lambda>header.
    and_then (read_u64 buf 10) (\<lambda>level1.
    and_then (read_u64 buf 18) (\<lambda>level2.
    and_then (read_u64 buf 26) (\<lambda>level3.
    Inr \<lparr>MwcbDeclineLevel.header = header,
         MwcbDeclineLevel.level1 = Price8 level1,
         MwcbDeclineLevel.level2 = Price8 level2,
         MwcbDeclineLevel.level3 = Price8 level3\<rparr>)))))"

definition MwcbStatus_encode_body :: "MwcbStatus \<Rightarrow> bytes \<Rightarrow> ProtocolError + bytes" where
  "MwcbStatus_encode_body m buf =
    and_then (slice_n_mut buf 0 MwcbStatus_BODY_LEN) (\<lambda>_.
    and_then (Header_encode_at (MwcbStatus.header m) buf) (\<lambda>buf.
    and_then (write_u8 buf 10 (BreachedLevel_to_byte (MwcbStatus.breached_level m))) (\<lambda>buf.
    Inr buf)))"

definition MwcbStatus_decode_body :: "bytes \<Rightarrow> ProtocolError + MwcbStatus" where
  "MwcbStatus_decode_body buf =
    and_then (need buf MwcbStatus_BODY_LEN) (\<lambda>_.
    and_then (Header_decode_at buf) (\<lambda>header.
    and_then (and_then (read_u8 buf 10) BreachedLevel_from_byte) (\<lambda>breached_level.
    Inr \<lparr>MwcbStatus.header = header,
         MwcbStatus.breached_level = breached_level\<rparr>)))"

definition IpoQuotingPeriodUpdate_encode_body :: "IpoQuotingPeriodUpdate \<Rightarrow> bytes \<Rightarrow> ProtocolError + bytes" where
  "IpoQuotingPeriodUpdate_encode_body m buf =
    and_then (slice_n_mut buf 0 IpoQuotingPeriodUpdate_BODY_LEN) (\<lambda>_.
    and_then (Header_encode_at (IpoQuotingPeriodUpdate.header m) buf) (\<lambda>buf.
    and_then (write_bytes buf 10 (Stock.as_bytes (IpoQuotingPeriodUpdate.stock m))) (\<lambda>buf.
    and_then (write_u32 buf 18 (IpoQuotingPeriodUpdate.ipo_quotation_release_time m)) (\<lambda>buf.
    and_then (write_u8 buf 22 (IpoReleaseQualifier_to_byte (IpoQuotingPeriodUpdate.ipo_quotation_release_qualifier m))) (\<lambda>buf.
    and_then (write_u32 buf 23 (Price4.as_u32 (IpoQuotingPeriodUpdate.ipo_price m))) (\<lambda>buf.
    Inr buf))))))"

definition IpoQuotingPeriodUpdate_decode_body :: "bytes \<Rightarrow> ProtocolError + IpoQuotingPeriodUpdate" where
  "IpoQuotingPeriodUpdate_decode_body buf =
    and_then (need buf IpoQuotingPeriodUpdate_BODY_LEN) (\<lambda>_.
    and_then (Header_decode_at buf) (\<lambda>header.
    and_then (read_bytes_n 8 buf 10) (\<lambda>stock.
    and_then (read_u32 buf 18) (\<lambda>ipo_quotation_release_time.
    and_then (and_then (read_u8 buf 22) IpoReleaseQualifier_from_byte) (\<lambda>ipo_quotation_release_qualifier.
    and_then (read_u32 buf 23) (\<lambda>ipo_price.
    Inr \<lparr>IpoQuotingPeriodUpdate.header = header,
         IpoQuotingPeriodUpdate.stock = Stock stock,
         IpoQuotingPeriodUpdate.ipo_quotation_release_time = ipo_quotation_release_time,
         IpoQuotingPeriodUpdate.ipo_quotation_release_qualifier = ipo_quotation_release_qualifier,
         IpoQuotingPeriodUpdate.ipo_price = Price4 ipo_price\<rparr>))))))"

definition AddOrder_encode_body :: "AddOrder \<Rightarrow> bytes \<Rightarrow> ProtocolError + bytes" where
  "AddOrder_encode_body m buf =
    and_then (slice_n_mut buf 0 AddOrder_BODY_LEN) (\<lambda>_.
    and_then (Header_encode_at (AddOrder.header m) buf) (\<lambda>buf.
    and_then (write_u64 buf 10 (OrderReference.as_u64 (AddOrder.order_ref m))) (\<lambda>buf.
    and_then (write_u8 buf 18 (Side_to_byte (AddOrder.side m))) (\<lambda>buf.
    and_then (write_u32 buf 19 (Shares.as_u32 (AddOrder.shares m))) (\<lambda>buf.
    and_then (write_bytes buf 23 (Stock.as_bytes (AddOrder.stock m))) (\<lambda>buf.
    and_then (write_u32 buf 31 (Price4.as_u32 (AddOrder.price m))) (\<lambda>buf.
    Inr buf)))))))"

definition AddOrder_decode_body :: "bytes \<Rightarrow> ProtocolError + AddOrder" where
  "AddOrder_decode_body buf =
    and_then (need buf AddOrder_BODY_LEN) (\<lambda>_.
    and_then (Header_decode_at buf) (\<lambda>header.
    and_then (read_u64 buf 10) (\<lambda>order_ref.
    and_then (and_then (read_u8 buf 18) Side_from_byte) (\<lambda>side.
    and_then (read_u32 buf 19) (\<lambda>shares.
    and_then (read_bytes_n 8 buf 23) (\<lambda>stock.
    and_then (read_u32 buf 31) (\<lambda>price.
    Inr \<lparr>AddOrder.header = header,
         AddOrder.order_ref = OrderReference order_ref,
         AddOrder.side = side,
         AddOrder.shares = Shares shares,
         AddOrder.stock = Stock stock,
         AddOrder.price = Price4 price\<rparr>)))))))"

definition AddOrderWithMpid_encode_body :: "AddOrderWithMpid \<Rightarrow> bytes \<Rightarrow> ProtocolError + bytes" where
  "AddOrderWithMpid_encode_body m buf =
    and_then (slice_n_mut buf 0 AddOrderWithMpid_BODY_LEN) (\<lambda>_.
    and_then (Header_encode_at (AddOrderWithMpid.header m) buf) (\<lambda>buf.
    and_then (write_u64 buf 10 (OrderReference.as_u64 (AddOrderWithMpid.order_ref m))) (\<lambda>buf.
    and_then (write_u8 buf 18 (Side_to_byte (AddOrderWithMpid.side m))) (\<lambda>buf.
    and_then (write_u32 buf 19 (Shares.as_u32 (AddOrderWithMpid.shares m))) (\<lambda>buf.
    and_then (write_bytes buf 23 (Stock.as_bytes (AddOrderWithMpid.stock m))) (\<lambda>buf.
    and_then (write_u32 buf 31 (Price4.as_u32 (AddOrderWithMpid.price m))) (\<lambda>buf.
    and_then (write_bytes buf 35 (Mpid.as_bytes (AddOrderWithMpid.attribution m))) (\<lambda>buf.
    Inr buf))))))))"

definition AddOrderWithMpid_decode_body :: "bytes \<Rightarrow> ProtocolError + AddOrderWithMpid" where
  "AddOrderWithMpid_decode_body buf =
    and_then (need buf AddOrderWithMpid_BODY_LEN) (\<lambda>_.
    and_then (Header_decode_at buf) (\<lambda>header.
    and_then (read_u64 buf 10) (\<lambda>order_ref.
    and_then (and_then (read_u8 buf 18) Side_from_byte) (\<lambda>side.
    and_then (read_u32 buf 19) (\<lambda>shares.
    and_then (read_bytes_n 8 buf 23) (\<lambda>stock.
    and_then (read_u32 buf 31) (\<lambda>price.
    and_then (read_bytes_n 4 buf 35) (\<lambda>attribution.
    Inr \<lparr>AddOrderWithMpid.header = header,
         AddOrderWithMpid.order_ref = OrderReference order_ref,
         AddOrderWithMpid.side = side,
         AddOrderWithMpid.shares = Shares shares,
         AddOrderWithMpid.stock = Stock stock,
         AddOrderWithMpid.price = Price4 price,
         AddOrderWithMpid.attribution = Mpid attribution\<rparr>))))))))"

definition OrderExecuted_encode_body :: "OrderExecuted \<Rightarrow> bytes \<Rightarrow> ProtocolError + bytes" where
  "OrderExecuted_encode_body m buf =
    and_then (slice_n_mut buf 0 OrderExecuted_BODY_LEN) (\<lambda>_.
    and_then (Header_encode_at (OrderExecuted.header m) buf) (\<lambda>buf.
    and_then (write_u64 buf 10 (OrderReference.as_u64 (OrderExecuted.order_ref m))) (\<lambda>buf.
    and_then (write_u32 buf 18 (Shares.as_u32 (OrderExecuted.executed_shares m))) (\<lambda>buf.
    and_then (write_u64 buf 22 (MatchNumber.as_u64 (OrderExecuted.match_number m))) (\<lambda>buf.
    Inr buf)))))"

definition OrderExecuted_decode_body :: "bytes \<Rightarrow> ProtocolError + OrderExecuted" where
  "OrderExecuted_decode_body buf =
    and_then (need buf OrderExecuted_BODY_LEN) (\<lambda>_.
    and_then (Header_decode_at buf) (\<lambda>header.
    and_then (read_u64 buf 10) (\<lambda>order_ref.
    and_then (read_u32 buf 18) (\<lambda>executed_shares.
    and_then (read_u64 buf 22) (\<lambda>match_number.
    Inr \<lparr>OrderExecuted.header = header,
         OrderExecuted.order_ref = OrderReference order_ref,
         OrderExecuted.executed_shares = Shares executed_shares,
         OrderExecuted.match_number = MatchNumber match_number\<rparr>)))))"

definition OrderExecutedWithPrice_encode_body :: "OrderExecutedWithPrice \<Rightarrow> bytes \<Rightarrow> ProtocolError + bytes" where
  "OrderExecutedWithPrice_encode_body m buf =
    and_then (slice_n_mut buf 0 OrderExecutedWithPrice_BODY_LEN) (\<lambda>_.
    and_then (Header_encode_at (OrderExecutedWithPrice.header m) buf) (\<lambda>buf.
    and_then (write_u64 buf 10 (OrderReference.as_u64 (OrderExecutedWithPrice.order_ref m))) (\<lambda>buf.
    and_then (write_u32 buf 18 (Shares.as_u32 (OrderExecutedWithPrice.executed_shares m))) (\<lambda>buf.
    and_then (write_u64 buf 22 (MatchNumber.as_u64 (OrderExecutedWithPrice.match_number m))) (\<lambda>buf.
    and_then (write_u8 buf 30 (Printable_to_byte (OrderExecutedWithPrice.printable m))) (\<lambda>buf.
    and_then (write_u32 buf 31 (Price4.as_u32 (OrderExecutedWithPrice.execution_price m))) (\<lambda>buf.
    Inr buf)))))))"

definition OrderExecutedWithPrice_decode_body :: "bytes \<Rightarrow> ProtocolError + OrderExecutedWithPrice" where
  "OrderExecutedWithPrice_decode_body buf =
    and_then (need buf OrderExecutedWithPrice_BODY_LEN) (\<lambda>_.
    and_then (Header_decode_at buf) (\<lambda>header.
    and_then (read_u64 buf 10) (\<lambda>order_ref.
    and_then (read_u32 buf 18) (\<lambda>executed_shares.
    and_then (read_u64 buf 22) (\<lambda>match_number.
    and_then (and_then (read_u8 buf 30) Printable_from_byte) (\<lambda>printable.
    and_then (read_u32 buf 31) (\<lambda>execution_price.
    Inr \<lparr>OrderExecutedWithPrice.header = header,
         OrderExecutedWithPrice.order_ref = OrderReference order_ref,
         OrderExecutedWithPrice.executed_shares = Shares executed_shares,
         OrderExecutedWithPrice.match_number = MatchNumber match_number,
         OrderExecutedWithPrice.printable = printable,
         OrderExecutedWithPrice.execution_price = Price4 execution_price\<rparr>)))))))"

definition OrderCancel_encode_body :: "OrderCancel \<Rightarrow> bytes \<Rightarrow> ProtocolError + bytes" where
  "OrderCancel_encode_body m buf =
    and_then (slice_n_mut buf 0 OrderCancel_BODY_LEN) (\<lambda>_.
    and_then (Header_encode_at (OrderCancel.header m) buf) (\<lambda>buf.
    and_then (write_u64 buf 10 (OrderReference.as_u64 (OrderCancel.order_ref m))) (\<lambda>buf.
    and_then (write_u32 buf 18 (Shares.as_u32 (OrderCancel.cancelled_shares m))) (\<lambda>buf.
    Inr buf))))"

definition OrderCancel_decode_body :: "bytes \<Rightarrow> ProtocolError + OrderCancel" where
  "OrderCancel_decode_body buf =
    and_then (need buf OrderCancel_BODY_LEN) (\<lambda>_.
    and_then (Header_decode_at buf) (\<lambda>header.
    and_then (read_u64 buf 10) (\<lambda>order_ref.
    and_then (read_u32 buf 18) (\<lambda>cancelled_shares.
    Inr \<lparr>OrderCancel.header = header,
         OrderCancel.order_ref = OrderReference order_ref,
         OrderCancel.cancelled_shares = Shares cancelled_shares\<rparr>))))"

definition OrderDelete_encode_body :: "OrderDelete \<Rightarrow> bytes \<Rightarrow> ProtocolError + bytes" where
  "OrderDelete_encode_body m buf =
    and_then (slice_n_mut buf 0 OrderDelete_BODY_LEN) (\<lambda>_.
    and_then (Header_encode_at (OrderDelete.header m) buf) (\<lambda>buf.
    and_then (write_u64 buf 10 (OrderReference.as_u64 (OrderDelete.order_ref m))) (\<lambda>buf.
    Inr buf)))"

definition OrderDelete_decode_body :: "bytes \<Rightarrow> ProtocolError + OrderDelete" where
  "OrderDelete_decode_body buf =
    and_then (need buf OrderDelete_BODY_LEN) (\<lambda>_.
    and_then (Header_decode_at buf) (\<lambda>header.
    and_then (read_u64 buf 10) (\<lambda>order_ref.
    Inr \<lparr>OrderDelete.header = header,
         OrderDelete.order_ref = OrderReference order_ref\<rparr>)))"

definition OrderReplace_encode_body :: "OrderReplace \<Rightarrow> bytes \<Rightarrow> ProtocolError + bytes" where
  "OrderReplace_encode_body m buf =
    and_then (slice_n_mut buf 0 OrderReplace_BODY_LEN) (\<lambda>_.
    and_then (Header_encode_at (OrderReplace.header m) buf) (\<lambda>buf.
    and_then (write_u64 buf 10 (OrderReference.as_u64 (OrderReplace.original_order_ref m))) (\<lambda>buf.
    and_then (write_u64 buf 18 (OrderReference.as_u64 (OrderReplace.new_order_ref m))) (\<lambda>buf.
    and_then (write_u32 buf 26 (Shares.as_u32 (OrderReplace.shares m))) (\<lambda>buf.
    and_then (write_u32 buf 30 (Price4.as_u32 (OrderReplace.price m))) (\<lambda>buf.
    Inr buf))))))"

definition OrderReplace_decode_body :: "bytes \<Rightarrow> ProtocolError + OrderReplace" where
  "OrderReplace_decode_body buf =
    and_then (need buf OrderReplace_BODY_LEN) (\<lambda>_.
    and_then (Header_decode_at buf) (\<lambda>header.
    and_then (read_u64 buf 10) (\<lambda>original_order_ref.
    and_then (read_u64 buf 18) (\<lambda>new_order_ref.
    and_then (read_u32 buf 26) (\<lambda>shares.
    and_then (read_u32 buf 30) (\<lambda>price.
    Inr \<lparr>OrderReplace.header = header,
         OrderReplace.original_order_ref = OrderReference original_order_ref,
         OrderReplace.new_order_ref = OrderReference new_order_ref,
         OrderReplace.shares = Shares shares,
         OrderReplace.price = Price4 price\<rparr>))))))"

definition TradeNonCross_encode_body :: "TradeNonCross \<Rightarrow> bytes \<Rightarrow> ProtocolError + bytes" where
  "TradeNonCross_encode_body m buf =
    and_then (slice_n_mut buf 0 TradeNonCross_BODY_LEN) (\<lambda>_.
    and_then (Header_encode_at (TradeNonCross.header m) buf) (\<lambda>buf.
    and_then (write_u64 buf 10 (OrderReference.as_u64 (TradeNonCross.order_ref m))) (\<lambda>buf.
    and_then (write_u8 buf 18 (Side_to_byte (TradeNonCross.side m))) (\<lambda>buf.
    and_then (write_u32 buf 19 (Shares.as_u32 (TradeNonCross.shares m))) (\<lambda>buf.
    and_then (write_bytes buf 23 (Stock.as_bytes (TradeNonCross.stock m))) (\<lambda>buf.
    and_then (write_u32 buf 31 (Price4.as_u32 (TradeNonCross.price m))) (\<lambda>buf.
    and_then (write_u64 buf 35 (MatchNumber.as_u64 (TradeNonCross.match_number m))) (\<lambda>buf.
    Inr buf))))))))"

definition TradeNonCross_decode_body :: "bytes \<Rightarrow> ProtocolError + TradeNonCross" where
  "TradeNonCross_decode_body buf =
    and_then (need buf TradeNonCross_BODY_LEN) (\<lambda>_.
    and_then (Header_decode_at buf) (\<lambda>header.
    and_then (read_u64 buf 10) (\<lambda>order_ref.
    and_then (and_then (read_u8 buf 18) Side_from_byte) (\<lambda>side.
    and_then (read_u32 buf 19) (\<lambda>shares.
    and_then (read_bytes_n 8 buf 23) (\<lambda>stock.
    and_then (read_u32 buf 31) (\<lambda>price.
    and_then (read_u64 buf 35) (\<lambda>match_number.
    Inr \<lparr>TradeNonCross.header = header,
         TradeNonCross.order_ref = OrderReference order_ref,
         TradeNonCross.side = side,
         TradeNonCross.shares = Shares shares,
         TradeNonCross.stock = Stock stock,
         TradeNonCross.price = Price4 price,
         TradeNonCross.match_number = MatchNumber match_number\<rparr>))))))))"

definition CrossTrade_encode_body :: "CrossTrade \<Rightarrow> bytes \<Rightarrow> ProtocolError + bytes" where
  "CrossTrade_encode_body m buf =
    and_then (slice_n_mut buf 0 CrossTrade_BODY_LEN) (\<lambda>_.
    and_then (Header_encode_at (CrossTrade.header m) buf) (\<lambda>buf.
    and_then (write_u64 buf 10 (CrossTrade.shares m)) (\<lambda>buf.
    and_then (write_bytes buf 18 (Stock.as_bytes (CrossTrade.stock m))) (\<lambda>buf.
    and_then (write_u32 buf 26 (Price4.as_u32 (CrossTrade.cross_price m))) (\<lambda>buf.
    and_then (write_u64 buf 30 (MatchNumber.as_u64 (CrossTrade.match_number m))) (\<lambda>buf.
    and_then (write_u8 buf 38 (CrossType_to_byte (CrossTrade.cross_type m))) (\<lambda>buf.
    Inr buf)))))))"

definition CrossTrade_decode_body :: "bytes \<Rightarrow> ProtocolError + CrossTrade" where
  "CrossTrade_decode_body buf =
    and_then (need buf CrossTrade_BODY_LEN) (\<lambda>_.
    and_then (Header_decode_at buf) (\<lambda>header.
    and_then (read_u64 buf 10) (\<lambda>shares.
    and_then (read_bytes_n 8 buf 18) (\<lambda>stock.
    and_then (read_u32 buf 26) (\<lambda>cross_price.
    and_then (read_u64 buf 30) (\<lambda>match_number.
    and_then (and_then (read_u8 buf 38) CrossType_from_byte) (\<lambda>cross_type.
    Inr \<lparr>CrossTrade.header = header,
         CrossTrade.shares = shares,
         CrossTrade.stock = Stock stock,
         CrossTrade.cross_price = Price4 cross_price,
         CrossTrade.match_number = MatchNumber match_number,
         CrossTrade.cross_type = cross_type\<rparr>)))))))"

definition BrokenTrade_encode_body :: "BrokenTrade \<Rightarrow> bytes \<Rightarrow> ProtocolError + bytes" where
  "BrokenTrade_encode_body m buf =
    and_then (slice_n_mut buf 0 BrokenTrade_BODY_LEN) (\<lambda>_.
    and_then (Header_encode_at (BrokenTrade.header m) buf) (\<lambda>buf.
    and_then (write_u64 buf 10 (MatchNumber.as_u64 (BrokenTrade.match_number m))) (\<lambda>buf.
    Inr buf)))"

definition BrokenTrade_decode_body :: "bytes \<Rightarrow> ProtocolError + BrokenTrade" where
  "BrokenTrade_decode_body buf =
    and_then (need buf BrokenTrade_BODY_LEN) (\<lambda>_.
    and_then (Header_decode_at buf) (\<lambda>header.
    and_then (read_u64 buf 10) (\<lambda>match_number.
    Inr \<lparr>BrokenTrade.header = header,
         BrokenTrade.match_number = MatchNumber match_number\<rparr>)))"

definition Noii_encode_body :: "Noii \<Rightarrow> bytes \<Rightarrow> ProtocolError + bytes" where
  "Noii_encode_body m buf =
    and_then (slice_n_mut buf 0 Noii_BODY_LEN) (\<lambda>_.
    and_then (Header_encode_at (Noii.header m) buf) (\<lambda>buf.
    and_then (write_u64 buf 10 (Noii.paired_shares m)) (\<lambda>buf.
    and_then (write_u64 buf 18 (Noii.imbalance_shares m)) (\<lambda>buf.
    and_then (write_u8 buf 26 (ImbalanceDirection_to_byte (Noii.imbalance_direction m))) (\<lambda>buf.
    and_then (write_bytes buf 27 (Stock.as_bytes (Noii.stock m))) (\<lambda>buf.
    and_then (write_u32 buf 35 (Price4.as_u32 (Noii.far_price m))) (\<lambda>buf.
    and_then (write_u32 buf 39 (Price4.as_u32 (Noii.near_price m))) (\<lambda>buf.
    and_then (write_u32 buf 43 (Price4.as_u32 (Noii.current_reference_price m))) (\<lambda>buf.
    and_then (write_u8 buf 47 (CrossType_to_byte (Noii.cross_type m))) (\<lambda>buf.
    and_then (write_u8 buf 48 (PriceVariation_to_byte (Noii.price_variation m))) (\<lambda>buf.
    Inr buf)))))))))))"

definition Noii_decode_body :: "bytes \<Rightarrow> ProtocolError + Noii" where
  "Noii_decode_body buf =
    and_then (need buf Noii_BODY_LEN) (\<lambda>_.
    and_then (Header_decode_at buf) (\<lambda>header.
    and_then (read_u64 buf 10) (\<lambda>paired_shares.
    and_then (read_u64 buf 18) (\<lambda>imbalance_shares.
    and_then (and_then (read_u8 buf 26) ImbalanceDirection_from_byte) (\<lambda>imbalance_direction.
    and_then (read_bytes_n 8 buf 27) (\<lambda>stock.
    and_then (read_u32 buf 35) (\<lambda>far_price.
    and_then (read_u32 buf 39) (\<lambda>near_price.
    and_then (read_u32 buf 43) (\<lambda>current_reference_price.
    and_then (and_then (read_u8 buf 47) CrossType_from_byte) (\<lambda>cross_type.
    and_then (and_then (read_u8 buf 48) PriceVariation_from_byte) (\<lambda>price_variation.
    Inr \<lparr>Noii.header = header,
         Noii.paired_shares = paired_shares,
         Noii.imbalance_shares = imbalance_shares,
         Noii.imbalance_direction = imbalance_direction,
         Noii.stock = Stock stock,
         Noii.far_price = Price4 far_price,
         Noii.near_price = Price4 near_price,
         Noii.current_reference_price = Price4 current_reference_price,
         Noii.cross_type = cross_type,
         Noii.price_variation = price_variation\<rparr>)))))))))))"

definition RetailPriceImprovement_encode_body :: "RetailPriceImprovement \<Rightarrow> bytes \<Rightarrow> ProtocolError + bytes" where
  "RetailPriceImprovement_encode_body m buf =
    and_then (slice_n_mut buf 0 RetailPriceImprovement_BODY_LEN) (\<lambda>_.
    and_then (Header_encode_at (RetailPriceImprovement.header m) buf) (\<lambda>buf.
    and_then (write_bytes buf 10 (Stock.as_bytes (RetailPriceImprovement.stock m))) (\<lambda>buf.
    and_then (write_u8 buf 18 (RpiInterestFlag_to_byte (RetailPriceImprovement.interest_flag m))) (\<lambda>buf.
    Inr buf))))"

definition RetailPriceImprovement_decode_body :: "bytes \<Rightarrow> ProtocolError + RetailPriceImprovement" where
  "RetailPriceImprovement_decode_body buf =
    and_then (need buf RetailPriceImprovement_BODY_LEN) (\<lambda>_.
    and_then (Header_decode_at buf) (\<lambda>header.
    and_then (read_bytes_n 8 buf 10) (\<lambda>stock.
    and_then (and_then (read_u8 buf 18) RpiInterestFlag_from_byte) (\<lambda>interest_flag.
    Inr \<lparr>RetailPriceImprovement.header = header,
         RetailPriceImprovement.stock = Stock stock,
         RetailPriceImprovement.interest_flag = interest_flag\<rparr>))))"

end
