(* ===== verification/Itch_Body_Codec.thy ===== *)
theory Itch_Body_Codec
  imports Itch_Codec
begin

text \<open>
  What a body codec promises.  The reference description of a body is its
  layout, the concatenation of its fields in wire order (\<open>_wire\<close>, the field
  tables of the protocol specification); the locale \<open>body_codec\<close> says that the
  offset-based routines of the source write and read exactly that layout, and
  holds what follows from it for every message kind.  Each of the twenty pairs
  of routines is an interpretation.
\<close>

section \<open>The contract\<close>

locale body_codec =
  fixes encode_body :: "'m \<Rightarrow> bytes \<Rightarrow> ProtocolError + bytes"
    and decode_body :: "bytes \<Rightarrow> ProtocolError + 'm"
    and body_len :: nat
    and ok :: "'m \<Rightarrow> bool"
    and wire :: "'m \<Rightarrow> bytes"
  assumes length_wire: "ok m \<Longrightarrow> length (wire m) = body_len"
    and encode_short:
      "length buf < body_len \<Longrightarrow> encode_body m buf = Inl (BufferTooSmall body_len (length buf))"
    and encode_long:
      "ok m \<Longrightarrow> body_len \<le> length buf
        \<Longrightarrow> encode_body m buf = Inr (wire m @ drop body_len buf)"
    and decode_short:
      "length buf < body_len \<Longrightarrow> decode_body buf = Inl (Truncated body_len (length buf))"
    and decode_wire: "ok m \<Longrightarrow> decode_body (wire m @ rest) = Inr m"
    and decode_sound:
      "body_len \<le> length buf \<Longrightarrow> decode_body buf = Inr m
        \<Longrightarrow> ok m \<and> wire m = take body_len buf"
    and decode_fail:
      "body_len \<le> length buf \<Longrightarrow> decode_body buf = Inl e
        \<Longrightarrow> \<exists>f. \<exists>c \<in> set (take body_len buf). e = InvalidEnumCode f c"
begin

lemma decode_Inr_length: "decode_body buf = Inr m \<Longrightarrow> body_len \<le> length buf"
  using decode_short [of buf] by (cases "length buf < body_len") auto

lemma decode_Inr_iff:
  "decode_body buf = Inr m \<longleftrightarrow> body_len \<le> length buf \<and> ok m \<and> wire m = take body_len buf"
proof
  assume "decode_body buf = Inr m"
  with decode_sound decode_Inr_length
  show "body_len \<le> length buf \<and> ok m \<and> wire m = take body_len buf" by blast
next
  assume *: "body_len \<le> length buf \<and> ok m \<and> wire m = take body_len buf"
  then show "decode_body buf = Inr m"
    using decode_wire [of m "drop body_len buf"] append_take_drop_id [of body_len buf] by metis
qed

lemma encode_decode:
  assumes "ok m" "encode_body m buf = Inr out"
  shows "length out = length buf \<and> drop body_len out = drop body_len buf \<and> decode_body out = Inr m"
proof -
  have "body_len \<le> length buf"
    using assms encode_short [of buf m] by (cases "length buf < body_len") auto
  with assms have "out = wire m @ drop body_len buf" by (simp add: encode_long)
  with assms \<open>body_len \<le> length buf\<close> show ?thesis by (simp add: decode_wire length_wire)
qed

lemma decode_encode:
  assumes "decode_body buf = Inr m" "body_len \<le> length out"
  shows "encode_body m out = Inr (take body_len buf @ drop body_len out)"
  using assms by (auto simp: decode_Inr_iff encode_long)

lemma wire_inj: "ok m \<Longrightarrow> ok m' \<Longrightarrow> wire m = wire m' \<longleftrightarrow> m = m'"
  by (metis decode_wire sum.inject(2))

lemma decode_take:
  "body_len \<le> k \<Longrightarrow> decode_body (take k buf) = Inr m \<longleftrightarrow> decode_body buf = Inr m \<and> body_len \<le> length buf"
  by (auto simp: decode_Inr_iff min_def)

end

section \<open>Layouts\<close>

definition SystemEvent_wire :: "SystemEvent \<Rightarrow> bytes" where
  "SystemEvent_wire m = Header_wire (SystemEvent.header m)
    @ [EventCode_to_byte (SystemEvent.event_code m)]"

definition StockDirectory_wire :: "StockDirectory \<Rightarrow> bytes" where
  "StockDirectory_wire m = Header_wire (StockDirectory.header m)
    @ Stock.as_bytes (StockDirectory.stock m)
    @ [MarketCategory_to_byte (StockDirectory.market_category m)]
    @ [FinancialStatus_to_byte (StockDirectory.financial_status m)]
    @ to_be 4 (unat (Shares.as_u32 (StockDirectory.round_lot_size m)))
    @ [YesNo_to_byte (StockDirectory.round_lots_only m)]
    @ [StockDirectory.issue_classification m]
    @ StockDirectory.issue_subtype m
    @ [Authenticity_to_byte (StockDirectory.authenticity m)]
    @ [YesNo_to_byte (StockDirectory.short_sale_threshold m)]
    @ [YesNo_to_byte (StockDirectory.ipo_flag m)]
    @ [LuldTier_to_byte (StockDirectory.luld_reference_price_tier m)]
    @ [YesNo_to_byte (StockDirectory.etp_flag m)]
    @ to_be 4 (unat (StockDirectory.etp_leverage_factor m))
    @ [YesNo_to_byte (StockDirectory.inverse_indicator m)]"

definition StockTradingAction_wire :: "StockTradingAction \<Rightarrow> bytes" where
  "StockTradingAction_wire m = Header_wire (StockTradingAction.header m)
    @ Stock.as_bytes (StockTradingAction.stock m)
    @ [TradingState_to_byte (StockTradingAction.trading_state m)]
    @ [StockTradingAction.reserved m]
    @ StockTradingAction.reason m"

definition RegShoRestriction_wire :: "RegShoRestriction \<Rightarrow> bytes" where
  "RegShoRestriction_wire m = Header_wire (RegShoRestriction.header m)
    @ Stock.as_bytes (RegShoRestriction.stock m)
    @ [RegShoAction_to_byte (RegShoRestriction.reg_sho_action m)]"

definition MarketParticipantPosition_wire :: "MarketParticipantPosition \<Rightarrow> bytes" where
  "MarketParticipantPosition_wire m = Header_wire (MarketParticipantPosition.header m)
    @ Mpid.as_bytes (MarketParticipantPosition.mpid m)
    @ Stock.as_bytes (MarketParticipantPosition.stock m)
    @ [YesNo_to_byte (MarketParticipantPosition.primary_market_maker m)]
    @ [MarketMakerMode_to_byte (MarketParticipantPosition.market_maker_mode m)]
    @ [MarketParticipantState_to_byte (MarketParticipantPosition.market_participant_state m)]"

definition MwcbDeclineLevel_wire :: "MwcbDeclineLevel \<Rightarrow> bytes" where
  "MwcbDeclineLevel_wire m = Header_wire (MwcbDeclineLevel.header m)
    @ to_be 8 (unat (Price8.as_u64 (MwcbDeclineLevel.level1 m)))
    @ to_be 8 (unat (Price8.as_u64 (MwcbDeclineLevel.level2 m)))
    @ to_be 8 (unat (Price8.as_u64 (MwcbDeclineLevel.level3 m)))"

definition MwcbStatus_wire :: "MwcbStatus \<Rightarrow> bytes" where
  "MwcbStatus_wire m = Header_wire (MwcbStatus.header m)
    @ [BreachedLevel_to_byte (MwcbStatus.breached_level m)]"

definition IpoQuotingPeriodUpdate_wire :: "IpoQuotingPeriodUpdate \<Rightarrow> bytes" where
  "IpoQuotingPeriodUpdate_wire m = Header_wire (IpoQuotingPeriodUpdate.header m)
    @ Stock.as_bytes (IpoQuotingPeriodUpdate.stock m)
    @ to_be 4 (unat (IpoQuotingPeriodUpdate.ipo_quotation_release_time m))
    @ [IpoReleaseQualifier_to_byte (IpoQuotingPeriodUpdate.ipo_quotation_release_qualifier m)]
    @ to_be 4 (unat (Price4.as_u32 (IpoQuotingPeriodUpdate.ipo_price m)))"

definition AddOrder_wire :: "AddOrder \<Rightarrow> bytes" where
  "AddOrder_wire m = Header_wire (AddOrder.header m)
    @ to_be 8 (unat (OrderReference.as_u64 (AddOrder.order_ref m)))
    @ [Side_to_byte (AddOrder.side m)]
    @ to_be 4 (unat (Shares.as_u32 (AddOrder.shares m)))
    @ Stock.as_bytes (AddOrder.stock m)
    @ to_be 4 (unat (Price4.as_u32 (AddOrder.price m)))"

definition AddOrderWithMpid_wire :: "AddOrderWithMpid \<Rightarrow> bytes" where
  "AddOrderWithMpid_wire m = Header_wire (AddOrderWithMpid.header m)
    @ to_be 8 (unat (OrderReference.as_u64 (AddOrderWithMpid.order_ref m)))
    @ [Side_to_byte (AddOrderWithMpid.side m)]
    @ to_be 4 (unat (Shares.as_u32 (AddOrderWithMpid.shares m)))
    @ Stock.as_bytes (AddOrderWithMpid.stock m)
    @ to_be 4 (unat (Price4.as_u32 (AddOrderWithMpid.price m)))
    @ Mpid.as_bytes (AddOrderWithMpid.attribution m)"

definition OrderExecuted_wire :: "OrderExecuted \<Rightarrow> bytes" where
  "OrderExecuted_wire m = Header_wire (OrderExecuted.header m)
    @ to_be 8 (unat (OrderReference.as_u64 (OrderExecuted.order_ref m)))
    @ to_be 4 (unat (Shares.as_u32 (OrderExecuted.executed_shares m)))
    @ to_be 8 (unat (MatchNumber.as_u64 (OrderExecuted.match_number m)))"

definition OrderExecutedWithPrice_wire :: "OrderExecutedWithPrice \<Rightarrow> bytes" where
  "OrderExecutedWithPrice_wire m = Header_wire (OrderExecutedWithPrice.header m)
    @ to_be 8 (unat (OrderReference.as_u64 (OrderExecutedWithPrice.order_ref m)))
    @ to_be 4 (unat (Shares.as_u32 (OrderExecutedWithPrice.executed_shares m)))
    @ to_be 8 (unat (MatchNumber.as_u64 (OrderExecutedWithPrice.match_number m)))
    @ [Printable_to_byte (OrderExecutedWithPrice.printable m)]
    @ to_be 4 (unat (Price4.as_u32 (OrderExecutedWithPrice.execution_price m)))"

definition OrderCancel_wire :: "OrderCancel \<Rightarrow> bytes" where
  "OrderCancel_wire m = Header_wire (OrderCancel.header m)
    @ to_be 8 (unat (OrderReference.as_u64 (OrderCancel.order_ref m)))
    @ to_be 4 (unat (Shares.as_u32 (OrderCancel.cancelled_shares m)))"

definition OrderDelete_wire :: "OrderDelete \<Rightarrow> bytes" where
  "OrderDelete_wire m = Header_wire (OrderDelete.header m)
    @ to_be 8 (unat (OrderReference.as_u64 (OrderDelete.order_ref m)))"

definition OrderReplace_wire :: "OrderReplace \<Rightarrow> bytes" where
  "OrderReplace_wire m = Header_wire (OrderReplace.header m)
    @ to_be 8 (unat (OrderReference.as_u64 (OrderReplace.original_order_ref m)))
    @ to_be 8 (unat (OrderReference.as_u64 (OrderReplace.new_order_ref m)))
    @ to_be 4 (unat (Shares.as_u32 (OrderReplace.shares m)))
    @ to_be 4 (unat (Price4.as_u32 (OrderReplace.price m)))"

definition TradeNonCross_wire :: "TradeNonCross \<Rightarrow> bytes" where
  "TradeNonCross_wire m = Header_wire (TradeNonCross.header m)
    @ to_be 8 (unat (OrderReference.as_u64 (TradeNonCross.order_ref m)))
    @ [Side_to_byte (TradeNonCross.side m)]
    @ to_be 4 (unat (Shares.as_u32 (TradeNonCross.shares m)))
    @ Stock.as_bytes (TradeNonCross.stock m)
    @ to_be 4 (unat (Price4.as_u32 (TradeNonCross.price m)))
    @ to_be 8 (unat (MatchNumber.as_u64 (TradeNonCross.match_number m)))"

definition CrossTrade_wire :: "CrossTrade \<Rightarrow> bytes" where
  "CrossTrade_wire m = Header_wire (CrossTrade.header m)
    @ to_be 8 (unat (CrossTrade.shares m))
    @ Stock.as_bytes (CrossTrade.stock m)
    @ to_be 4 (unat (Price4.as_u32 (CrossTrade.cross_price m)))
    @ to_be 8 (unat (MatchNumber.as_u64 (CrossTrade.match_number m)))
    @ [CrossType_to_byte (CrossTrade.cross_type m)]"

definition BrokenTrade_wire :: "BrokenTrade \<Rightarrow> bytes" where
  "BrokenTrade_wire m = Header_wire (BrokenTrade.header m)
    @ to_be 8 (unat (MatchNumber.as_u64 (BrokenTrade.match_number m)))"

definition Noii_wire :: "Noii \<Rightarrow> bytes" where
  "Noii_wire m = Header_wire (Noii.header m)
    @ to_be 8 (unat (Noii.paired_shares m))
    @ to_be 8 (unat (Noii.imbalance_shares m))
    @ [ImbalanceDirection_to_byte (Noii.imbalance_direction m)]
    @ Stock.as_bytes (Noii.stock m)
    @ to_be 4 (unat (Price4.as_u32 (Noii.far_price m)))
    @ to_be 4 (unat (Price4.as_u32 (Noii.near_price m)))
    @ to_be 4 (unat (Price4.as_u32 (Noii.current_reference_price m)))
    @ [CrossType_to_byte (Noii.cross_type m)]
    @ [PriceVariation_to_byte (Noii.price_variation m)]"

definition RetailPriceImprovement_wire :: "RetailPriceImprovement \<Rightarrow> bytes" where
  "RetailPriceImprovement_wire m = Header_wire (RetailPriceImprovement.header m)
    @ Stock.as_bytes (RetailPriceImprovement.stock m)
    @ [RpiInterestFlag_to_byte (RetailPriceImprovement.interest_flag m)]"

section \<open>The twenty codecs keep the contract\<close>

lemma nth_in_take: "i < n \<Longrightarrow> n \<le> length buf \<Longrightarrow> buf ! i \<in> set (take n buf)"
  by (auto simp: in_set_conv_nth intro!: exI [of _ i])

lemmas encode_run = BODY_LEN_defs wire_ok_defs slice_n_mut_Inr write_simps
lemmas decode_run = need_def BODY_LEN_defs wire_ok_defs read_simps layout_simps alpha_encoded
lemmas decode_inspect = need_def BODY_LEN_defs wire_ok_defs not_less read_simps result_simps
  alpha_decoded to_be_unat_of_nat glue_simps
lemmas decode_reject = need_def BODY_LEN_defs not_less read_simps and_then_eq_Inl_iff
  alpha_rejected nth_in_take

interpretation SystemEvent_codec: body_codec
  SystemEvent_encode_body SystemEvent_decode_body SystemEvent_BODY_LEN SystemEvent_ok SystemEvent_wire
proof
  fix m :: SystemEvent and buf rest :: bytes and e
  let ?n = SystemEvent_BODY_LEN
  show "length (SystemEvent_wire m) = ?n" if "SystemEvent_ok m"
    using that by (simp add: SystemEvent_wire_def BODY_LEN_defs wire_ok_defs)
  show "SystemEvent_encode_body m buf = Inl (BufferTooSmall ?n (length buf))" if "length buf < ?n"
    using that by (simp add: SystemEvent_encode_body_def BODY_LEN_defs slice_n_mut_small)
  show "SystemEvent_encode_body m buf = Inr (SystemEvent_wire m @ drop ?n buf)"
    if "SystemEvent_ok m" "?n \<le> length buf"
    using that by (simp add: SystemEvent_encode_body_def encode_run del: append_assoc)
      (simp add: SystemEvent_wire_def)
  show "SystemEvent_decode_body buf = Inl (Truncated ?n (length buf))" if "length buf < ?n"
    using that by (simp add: SystemEvent_decode_body_def need_def)
  show "SystemEvent_decode_body (SystemEvent_wire m @ rest) = Inr m" if "SystemEvent_ok m"
    using that by (simp add: SystemEvent_decode_body_def SystemEvent_wire_def decode_run)
  show "SystemEvent_ok m \<and> SystemEvent_wire m = take ?n buf"
    if "?n \<le> length buf" "SystemEvent_decode_body buf = Inr m"
    using that by (auto simp: SystemEvent_decode_body_def SystemEvent_wire_def decode_inspect
        dest!: Header_decode_sound)
  show "\<exists>f. \<exists>c \<in> set (take ?n buf). e = InvalidEnumCode f c"
    if "?n \<le> length buf" "SystemEvent_decode_body buf = Inl e"
    using that Header_decode_total [of buf] by (auto simp: SystemEvent_decode_body_def decode_reject)
qed

interpretation StockDirectory_codec: body_codec
  StockDirectory_encode_body StockDirectory_decode_body StockDirectory_BODY_LEN StockDirectory_ok StockDirectory_wire
proof
  fix m :: StockDirectory and buf rest :: bytes and e
  let ?n = StockDirectory_BODY_LEN
  show "length (StockDirectory_wire m) = ?n" if "StockDirectory_ok m"
    using that by (simp add: StockDirectory_wire_def BODY_LEN_defs wire_ok_defs)
  show "StockDirectory_encode_body m buf = Inl (BufferTooSmall ?n (length buf))" if "length buf < ?n"
    using that by (simp add: StockDirectory_encode_body_def BODY_LEN_defs slice_n_mut_small)
  show "StockDirectory_encode_body m buf = Inr (StockDirectory_wire m @ drop ?n buf)"
    if "StockDirectory_ok m" "?n \<le> length buf"
    using that by (simp add: StockDirectory_encode_body_def encode_run del: append_assoc)
      (simp add: StockDirectory_wire_def)
  show "StockDirectory_decode_body buf = Inl (Truncated ?n (length buf))" if "length buf < ?n"
    using that by (simp add: StockDirectory_decode_body_def need_def)
  show "StockDirectory_decode_body (StockDirectory_wire m @ rest) = Inr m" if "StockDirectory_ok m"
    using that by (simp add: StockDirectory_decode_body_def StockDirectory_wire_def decode_run)
  show "StockDirectory_ok m \<and> StockDirectory_wire m = take ?n buf"
    if "?n \<le> length buf" "StockDirectory_decode_body buf = Inr m"
    using that by (auto simp: StockDirectory_decode_body_def StockDirectory_wire_def decode_inspect
        dest!: Header_decode_sound)
  show "\<exists>f. \<exists>c \<in> set (take ?n buf). e = InvalidEnumCode f c"
    if "?n \<le> length buf" "StockDirectory_decode_body buf = Inl e"
    using that Header_decode_total [of buf] by (auto simp: StockDirectory_decode_body_def decode_reject)
qed

interpretation StockTradingAction_codec: body_codec
  StockTradingAction_encode_body StockTradingAction_decode_body StockTradingAction_BODY_LEN StockTradingAction_ok StockTradingAction_wire
proof
  fix m :: StockTradingAction and buf rest :: bytes and e
  let ?n = StockTradingAction_BODY_LEN
  show "length (StockTradingAction_wire m) = ?n" if "StockTradingAction_ok m"
    using that by (simp add: StockTradingAction_wire_def BODY_LEN_defs wire_ok_defs)
  show "StockTradingAction_encode_body m buf = Inl (BufferTooSmall ?n (length buf))" if "length buf < ?n"
    using that by (simp add: StockTradingAction_encode_body_def BODY_LEN_defs slice_n_mut_small)
  show "StockTradingAction_encode_body m buf = Inr (StockTradingAction_wire m @ drop ?n buf)"
    if "StockTradingAction_ok m" "?n \<le> length buf"
    using that by (simp add: StockTradingAction_encode_body_def encode_run del: append_assoc)
      (simp add: StockTradingAction_wire_def)
  show "StockTradingAction_decode_body buf = Inl (Truncated ?n (length buf))" if "length buf < ?n"
    using that by (simp add: StockTradingAction_decode_body_def need_def)
  show "StockTradingAction_decode_body (StockTradingAction_wire m @ rest) = Inr m" if "StockTradingAction_ok m"
    using that by (simp add: StockTradingAction_decode_body_def StockTradingAction_wire_def decode_run)
  show "StockTradingAction_ok m \<and> StockTradingAction_wire m = take ?n buf"
    if "?n \<le> length buf" "StockTradingAction_decode_body buf = Inr m"
    using that by (auto simp: StockTradingAction_decode_body_def StockTradingAction_wire_def decode_inspect
        dest!: Header_decode_sound)
  show "\<exists>f. \<exists>c \<in> set (take ?n buf). e = InvalidEnumCode f c"
    if "?n \<le> length buf" "StockTradingAction_decode_body buf = Inl e"
    using that Header_decode_total [of buf] by (auto simp: StockTradingAction_decode_body_def decode_reject)
qed

interpretation RegShoRestriction_codec: body_codec
  RegShoRestriction_encode_body RegShoRestriction_decode_body RegShoRestriction_BODY_LEN RegShoRestriction_ok RegShoRestriction_wire
proof
  fix m :: RegShoRestriction and buf rest :: bytes and e
  let ?n = RegShoRestriction_BODY_LEN
  show "length (RegShoRestriction_wire m) = ?n" if "RegShoRestriction_ok m"
    using that by (simp add: RegShoRestriction_wire_def BODY_LEN_defs wire_ok_defs)
  show "RegShoRestriction_encode_body m buf = Inl (BufferTooSmall ?n (length buf))" if "length buf < ?n"
    using that by (simp add: RegShoRestriction_encode_body_def BODY_LEN_defs slice_n_mut_small)
  show "RegShoRestriction_encode_body m buf = Inr (RegShoRestriction_wire m @ drop ?n buf)"
    if "RegShoRestriction_ok m" "?n \<le> length buf"
    using that by (simp add: RegShoRestriction_encode_body_def encode_run del: append_assoc)
      (simp add: RegShoRestriction_wire_def)
  show "RegShoRestriction_decode_body buf = Inl (Truncated ?n (length buf))" if "length buf < ?n"
    using that by (simp add: RegShoRestriction_decode_body_def need_def)
  show "RegShoRestriction_decode_body (RegShoRestriction_wire m @ rest) = Inr m" if "RegShoRestriction_ok m"
    using that by (simp add: RegShoRestriction_decode_body_def RegShoRestriction_wire_def decode_run)
  show "RegShoRestriction_ok m \<and> RegShoRestriction_wire m = take ?n buf"
    if "?n \<le> length buf" "RegShoRestriction_decode_body buf = Inr m"
    using that by (auto simp: RegShoRestriction_decode_body_def RegShoRestriction_wire_def decode_inspect
        dest!: Header_decode_sound)
  show "\<exists>f. \<exists>c \<in> set (take ?n buf). e = InvalidEnumCode f c"
    if "?n \<le> length buf" "RegShoRestriction_decode_body buf = Inl e"
    using that Header_decode_total [of buf] by (auto simp: RegShoRestriction_decode_body_def decode_reject)
qed

interpretation MarketParticipantPosition_codec: body_codec
  MarketParticipantPosition_encode_body MarketParticipantPosition_decode_body MarketParticipantPosition_BODY_LEN MarketParticipantPosition_ok MarketParticipantPosition_wire
proof
  fix m :: MarketParticipantPosition and buf rest :: bytes and e
  let ?n = MarketParticipantPosition_BODY_LEN
  show "length (MarketParticipantPosition_wire m) = ?n" if "MarketParticipantPosition_ok m"
    using that by (simp add: MarketParticipantPosition_wire_def BODY_LEN_defs wire_ok_defs)
  show "MarketParticipantPosition_encode_body m buf = Inl (BufferTooSmall ?n (length buf))" if "length buf < ?n"
    using that by (simp add: MarketParticipantPosition_encode_body_def BODY_LEN_defs slice_n_mut_small)
  show "MarketParticipantPosition_encode_body m buf = Inr (MarketParticipantPosition_wire m @ drop ?n buf)"
    if "MarketParticipantPosition_ok m" "?n \<le> length buf"
    using that by (simp add: MarketParticipantPosition_encode_body_def encode_run del: append_assoc)
      (simp add: MarketParticipantPosition_wire_def)
  show "MarketParticipantPosition_decode_body buf = Inl (Truncated ?n (length buf))" if "length buf < ?n"
    using that by (simp add: MarketParticipantPosition_decode_body_def need_def)
  show "MarketParticipantPosition_decode_body (MarketParticipantPosition_wire m @ rest) = Inr m" if "MarketParticipantPosition_ok m"
    using that by (simp add: MarketParticipantPosition_decode_body_def MarketParticipantPosition_wire_def decode_run)
  show "MarketParticipantPosition_ok m \<and> MarketParticipantPosition_wire m = take ?n buf"
    if "?n \<le> length buf" "MarketParticipantPosition_decode_body buf = Inr m"
    using that by (auto simp: MarketParticipantPosition_decode_body_def MarketParticipantPosition_wire_def decode_inspect
        dest!: Header_decode_sound)
  show "\<exists>f. \<exists>c \<in> set (take ?n buf). e = InvalidEnumCode f c"
    if "?n \<le> length buf" "MarketParticipantPosition_decode_body buf = Inl e"
    using that Header_decode_total [of buf] by (auto simp: MarketParticipantPosition_decode_body_def decode_reject)
qed

interpretation MwcbDeclineLevel_codec: body_codec
  MwcbDeclineLevel_encode_body MwcbDeclineLevel_decode_body MwcbDeclineLevel_BODY_LEN MwcbDeclineLevel_ok MwcbDeclineLevel_wire
proof
  fix m :: MwcbDeclineLevel and buf rest :: bytes and e
  let ?n = MwcbDeclineLevel_BODY_LEN
  show "length (MwcbDeclineLevel_wire m) = ?n" if "MwcbDeclineLevel_ok m"
    using that by (simp add: MwcbDeclineLevel_wire_def BODY_LEN_defs wire_ok_defs)
  show "MwcbDeclineLevel_encode_body m buf = Inl (BufferTooSmall ?n (length buf))" if "length buf < ?n"
    using that by (simp add: MwcbDeclineLevel_encode_body_def BODY_LEN_defs slice_n_mut_small)
  show "MwcbDeclineLevel_encode_body m buf = Inr (MwcbDeclineLevel_wire m @ drop ?n buf)"
    if "MwcbDeclineLevel_ok m" "?n \<le> length buf"
    using that by (simp add: MwcbDeclineLevel_encode_body_def encode_run del: append_assoc)
      (simp add: MwcbDeclineLevel_wire_def)
  show "MwcbDeclineLevel_decode_body buf = Inl (Truncated ?n (length buf))" if "length buf < ?n"
    using that by (simp add: MwcbDeclineLevel_decode_body_def need_def)
  show "MwcbDeclineLevel_decode_body (MwcbDeclineLevel_wire m @ rest) = Inr m" if "MwcbDeclineLevel_ok m"
    using that by (simp add: MwcbDeclineLevel_decode_body_def MwcbDeclineLevel_wire_def decode_run)
  show "MwcbDeclineLevel_ok m \<and> MwcbDeclineLevel_wire m = take ?n buf"
    if "?n \<le> length buf" "MwcbDeclineLevel_decode_body buf = Inr m"
    using that by (auto simp: MwcbDeclineLevel_decode_body_def MwcbDeclineLevel_wire_def decode_inspect
        dest!: Header_decode_sound)
  show "\<exists>f. \<exists>c \<in> set (take ?n buf). e = InvalidEnumCode f c"
    if "?n \<le> length buf" "MwcbDeclineLevel_decode_body buf = Inl e"
    using that Header_decode_total [of buf] by (auto simp: MwcbDeclineLevel_decode_body_def decode_reject)
qed

interpretation MwcbStatus_codec: body_codec
  MwcbStatus_encode_body MwcbStatus_decode_body MwcbStatus_BODY_LEN MwcbStatus_ok MwcbStatus_wire
proof
  fix m :: MwcbStatus and buf rest :: bytes and e
  let ?n = MwcbStatus_BODY_LEN
  show "length (MwcbStatus_wire m) = ?n" if "MwcbStatus_ok m"
    using that by (simp add: MwcbStatus_wire_def BODY_LEN_defs wire_ok_defs)
  show "MwcbStatus_encode_body m buf = Inl (BufferTooSmall ?n (length buf))" if "length buf < ?n"
    using that by (simp add: MwcbStatus_encode_body_def BODY_LEN_defs slice_n_mut_small)
  show "MwcbStatus_encode_body m buf = Inr (MwcbStatus_wire m @ drop ?n buf)"
    if "MwcbStatus_ok m" "?n \<le> length buf"
    using that by (simp add: MwcbStatus_encode_body_def encode_run del: append_assoc)
      (simp add: MwcbStatus_wire_def)
  show "MwcbStatus_decode_body buf = Inl (Truncated ?n (length buf))" if "length buf < ?n"
    using that by (simp add: MwcbStatus_decode_body_def need_def)
  show "MwcbStatus_decode_body (MwcbStatus_wire m @ rest) = Inr m" if "MwcbStatus_ok m"
    using that by (simp add: MwcbStatus_decode_body_def MwcbStatus_wire_def decode_run)
  show "MwcbStatus_ok m \<and> MwcbStatus_wire m = take ?n buf"
    if "?n \<le> length buf" "MwcbStatus_decode_body buf = Inr m"
    using that by (auto simp: MwcbStatus_decode_body_def MwcbStatus_wire_def decode_inspect
        dest!: Header_decode_sound)
  show "\<exists>f. \<exists>c \<in> set (take ?n buf). e = InvalidEnumCode f c"
    if "?n \<le> length buf" "MwcbStatus_decode_body buf = Inl e"
    using that Header_decode_total [of buf] by (auto simp: MwcbStatus_decode_body_def decode_reject)
qed

interpretation IpoQuotingPeriodUpdate_codec: body_codec
  IpoQuotingPeriodUpdate_encode_body IpoQuotingPeriodUpdate_decode_body IpoQuotingPeriodUpdate_BODY_LEN IpoQuotingPeriodUpdate_ok IpoQuotingPeriodUpdate_wire
proof
  fix m :: IpoQuotingPeriodUpdate and buf rest :: bytes and e
  let ?n = IpoQuotingPeriodUpdate_BODY_LEN
  show "length (IpoQuotingPeriodUpdate_wire m) = ?n" if "IpoQuotingPeriodUpdate_ok m"
    using that by (simp add: IpoQuotingPeriodUpdate_wire_def BODY_LEN_defs wire_ok_defs)
  show "IpoQuotingPeriodUpdate_encode_body m buf = Inl (BufferTooSmall ?n (length buf))" if "length buf < ?n"
    using that by (simp add: IpoQuotingPeriodUpdate_encode_body_def BODY_LEN_defs slice_n_mut_small)
  show "IpoQuotingPeriodUpdate_encode_body m buf = Inr (IpoQuotingPeriodUpdate_wire m @ drop ?n buf)"
    if "IpoQuotingPeriodUpdate_ok m" "?n \<le> length buf"
    using that by (simp add: IpoQuotingPeriodUpdate_encode_body_def encode_run del: append_assoc)
      (simp add: IpoQuotingPeriodUpdate_wire_def)
  show "IpoQuotingPeriodUpdate_decode_body buf = Inl (Truncated ?n (length buf))" if "length buf < ?n"
    using that by (simp add: IpoQuotingPeriodUpdate_decode_body_def need_def)
  show "IpoQuotingPeriodUpdate_decode_body (IpoQuotingPeriodUpdate_wire m @ rest) = Inr m" if "IpoQuotingPeriodUpdate_ok m"
    using that by (simp add: IpoQuotingPeriodUpdate_decode_body_def IpoQuotingPeriodUpdate_wire_def decode_run)
  show "IpoQuotingPeriodUpdate_ok m \<and> IpoQuotingPeriodUpdate_wire m = take ?n buf"
    if "?n \<le> length buf" "IpoQuotingPeriodUpdate_decode_body buf = Inr m"
    using that by (auto simp: IpoQuotingPeriodUpdate_decode_body_def IpoQuotingPeriodUpdate_wire_def decode_inspect
        dest!: Header_decode_sound)
  show "\<exists>f. \<exists>c \<in> set (take ?n buf). e = InvalidEnumCode f c"
    if "?n \<le> length buf" "IpoQuotingPeriodUpdate_decode_body buf = Inl e"
    using that Header_decode_total [of buf] by (auto simp: IpoQuotingPeriodUpdate_decode_body_def decode_reject)
qed

interpretation AddOrder_codec: body_codec
  AddOrder_encode_body AddOrder_decode_body AddOrder_BODY_LEN AddOrder_ok AddOrder_wire
proof
  fix m :: AddOrder and buf rest :: bytes and e
  let ?n = AddOrder_BODY_LEN
  show "length (AddOrder_wire m) = ?n" if "AddOrder_ok m"
    using that by (simp add: AddOrder_wire_def BODY_LEN_defs wire_ok_defs)
  show "AddOrder_encode_body m buf = Inl (BufferTooSmall ?n (length buf))" if "length buf < ?n"
    using that by (simp add: AddOrder_encode_body_def BODY_LEN_defs slice_n_mut_small)
  show "AddOrder_encode_body m buf = Inr (AddOrder_wire m @ drop ?n buf)"
    if "AddOrder_ok m" "?n \<le> length buf"
    using that by (simp add: AddOrder_encode_body_def encode_run del: append_assoc)
      (simp add: AddOrder_wire_def)
  show "AddOrder_decode_body buf = Inl (Truncated ?n (length buf))" if "length buf < ?n"
    using that by (simp add: AddOrder_decode_body_def need_def)
  show "AddOrder_decode_body (AddOrder_wire m @ rest) = Inr m" if "AddOrder_ok m"
    using that by (simp add: AddOrder_decode_body_def AddOrder_wire_def decode_run)
  show "AddOrder_ok m \<and> AddOrder_wire m = take ?n buf"
    if "?n \<le> length buf" "AddOrder_decode_body buf = Inr m"
    using that by (auto simp: AddOrder_decode_body_def AddOrder_wire_def decode_inspect
        dest!: Header_decode_sound)
  show "\<exists>f. \<exists>c \<in> set (take ?n buf). e = InvalidEnumCode f c"
    if "?n \<le> length buf" "AddOrder_decode_body buf = Inl e"
    using that Header_decode_total [of buf] by (auto simp: AddOrder_decode_body_def decode_reject)
qed

interpretation AddOrderWithMpid_codec: body_codec
  AddOrderWithMpid_encode_body AddOrderWithMpid_decode_body AddOrderWithMpid_BODY_LEN AddOrderWithMpid_ok AddOrderWithMpid_wire
proof
  fix m :: AddOrderWithMpid and buf rest :: bytes and e
  let ?n = AddOrderWithMpid_BODY_LEN
  show "length (AddOrderWithMpid_wire m) = ?n" if "AddOrderWithMpid_ok m"
    using that by (simp add: AddOrderWithMpid_wire_def BODY_LEN_defs wire_ok_defs)
  show "AddOrderWithMpid_encode_body m buf = Inl (BufferTooSmall ?n (length buf))" if "length buf < ?n"
    using that by (simp add: AddOrderWithMpid_encode_body_def BODY_LEN_defs slice_n_mut_small)
  show "AddOrderWithMpid_encode_body m buf = Inr (AddOrderWithMpid_wire m @ drop ?n buf)"
    if "AddOrderWithMpid_ok m" "?n \<le> length buf"
    using that by (simp add: AddOrderWithMpid_encode_body_def encode_run del: append_assoc)
      (simp add: AddOrderWithMpid_wire_def)
  show "AddOrderWithMpid_decode_body buf = Inl (Truncated ?n (length buf))" if "length buf < ?n"
    using that by (simp add: AddOrderWithMpid_decode_body_def need_def)
  show "AddOrderWithMpid_decode_body (AddOrderWithMpid_wire m @ rest) = Inr m" if "AddOrderWithMpid_ok m"
    using that by (simp add: AddOrderWithMpid_decode_body_def AddOrderWithMpid_wire_def decode_run)
  show "AddOrderWithMpid_ok m \<and> AddOrderWithMpid_wire m = take ?n buf"
    if "?n \<le> length buf" "AddOrderWithMpid_decode_body buf = Inr m"
    using that by (auto simp: AddOrderWithMpid_decode_body_def AddOrderWithMpid_wire_def decode_inspect
        dest!: Header_decode_sound)
  show "\<exists>f. \<exists>c \<in> set (take ?n buf). e = InvalidEnumCode f c"
    if "?n \<le> length buf" "AddOrderWithMpid_decode_body buf = Inl e"
    using that Header_decode_total [of buf] by (auto simp: AddOrderWithMpid_decode_body_def decode_reject)
qed

interpretation OrderExecuted_codec: body_codec
  OrderExecuted_encode_body OrderExecuted_decode_body OrderExecuted_BODY_LEN OrderExecuted_ok OrderExecuted_wire
proof
  fix m :: OrderExecuted and buf rest :: bytes and e
  let ?n = OrderExecuted_BODY_LEN
  show "length (OrderExecuted_wire m) = ?n" if "OrderExecuted_ok m"
    using that by (simp add: OrderExecuted_wire_def BODY_LEN_defs wire_ok_defs)
  show "OrderExecuted_encode_body m buf = Inl (BufferTooSmall ?n (length buf))" if "length buf < ?n"
    using that by (simp add: OrderExecuted_encode_body_def BODY_LEN_defs slice_n_mut_small)
  show "OrderExecuted_encode_body m buf = Inr (OrderExecuted_wire m @ drop ?n buf)"
    if "OrderExecuted_ok m" "?n \<le> length buf"
    using that by (simp add: OrderExecuted_encode_body_def encode_run del: append_assoc)
      (simp add: OrderExecuted_wire_def)
  show "OrderExecuted_decode_body buf = Inl (Truncated ?n (length buf))" if "length buf < ?n"
    using that by (simp add: OrderExecuted_decode_body_def need_def)
  show "OrderExecuted_decode_body (OrderExecuted_wire m @ rest) = Inr m" if "OrderExecuted_ok m"
    using that by (simp add: OrderExecuted_decode_body_def OrderExecuted_wire_def decode_run)
  show "OrderExecuted_ok m \<and> OrderExecuted_wire m = take ?n buf"
    if "?n \<le> length buf" "OrderExecuted_decode_body buf = Inr m"
    using that by (auto simp: OrderExecuted_decode_body_def OrderExecuted_wire_def decode_inspect
        dest!: Header_decode_sound)
  show "\<exists>f. \<exists>c \<in> set (take ?n buf). e = InvalidEnumCode f c"
    if "?n \<le> length buf" "OrderExecuted_decode_body buf = Inl e"
    using that Header_decode_total [of buf] by (auto simp: OrderExecuted_decode_body_def decode_reject)
qed

interpretation OrderExecutedWithPrice_codec: body_codec
  OrderExecutedWithPrice_encode_body OrderExecutedWithPrice_decode_body OrderExecutedWithPrice_BODY_LEN OrderExecutedWithPrice_ok OrderExecutedWithPrice_wire
proof
  fix m :: OrderExecutedWithPrice and buf rest :: bytes and e
  let ?n = OrderExecutedWithPrice_BODY_LEN
  show "length (OrderExecutedWithPrice_wire m) = ?n" if "OrderExecutedWithPrice_ok m"
    using that by (simp add: OrderExecutedWithPrice_wire_def BODY_LEN_defs wire_ok_defs)
  show "OrderExecutedWithPrice_encode_body m buf = Inl (BufferTooSmall ?n (length buf))" if "length buf < ?n"
    using that by (simp add: OrderExecutedWithPrice_encode_body_def BODY_LEN_defs slice_n_mut_small)
  show "OrderExecutedWithPrice_encode_body m buf = Inr (OrderExecutedWithPrice_wire m @ drop ?n buf)"
    if "OrderExecutedWithPrice_ok m" "?n \<le> length buf"
    using that by (simp add: OrderExecutedWithPrice_encode_body_def encode_run del: append_assoc)
      (simp add: OrderExecutedWithPrice_wire_def)
  show "OrderExecutedWithPrice_decode_body buf = Inl (Truncated ?n (length buf))" if "length buf < ?n"
    using that by (simp add: OrderExecutedWithPrice_decode_body_def need_def)
  show "OrderExecutedWithPrice_decode_body (OrderExecutedWithPrice_wire m @ rest) = Inr m" if "OrderExecutedWithPrice_ok m"
    using that by (simp add: OrderExecutedWithPrice_decode_body_def OrderExecutedWithPrice_wire_def decode_run)
  show "OrderExecutedWithPrice_ok m \<and> OrderExecutedWithPrice_wire m = take ?n buf"
    if "?n \<le> length buf" "OrderExecutedWithPrice_decode_body buf = Inr m"
    using that by (auto simp: OrderExecutedWithPrice_decode_body_def OrderExecutedWithPrice_wire_def decode_inspect
        dest!: Header_decode_sound)
  show "\<exists>f. \<exists>c \<in> set (take ?n buf). e = InvalidEnumCode f c"
    if "?n \<le> length buf" "OrderExecutedWithPrice_decode_body buf = Inl e"
    using that Header_decode_total [of buf] by (auto simp: OrderExecutedWithPrice_decode_body_def decode_reject)
qed

interpretation OrderCancel_codec: body_codec
  OrderCancel_encode_body OrderCancel_decode_body OrderCancel_BODY_LEN OrderCancel_ok OrderCancel_wire
proof
  fix m :: OrderCancel and buf rest :: bytes and e
  let ?n = OrderCancel_BODY_LEN
  show "length (OrderCancel_wire m) = ?n" if "OrderCancel_ok m"
    using that by (simp add: OrderCancel_wire_def BODY_LEN_defs wire_ok_defs)
  show "OrderCancel_encode_body m buf = Inl (BufferTooSmall ?n (length buf))" if "length buf < ?n"
    using that by (simp add: OrderCancel_encode_body_def BODY_LEN_defs slice_n_mut_small)
  show "OrderCancel_encode_body m buf = Inr (OrderCancel_wire m @ drop ?n buf)"
    if "OrderCancel_ok m" "?n \<le> length buf"
    using that by (simp add: OrderCancel_encode_body_def encode_run del: append_assoc)
      (simp add: OrderCancel_wire_def)
  show "OrderCancel_decode_body buf = Inl (Truncated ?n (length buf))" if "length buf < ?n"
    using that by (simp add: OrderCancel_decode_body_def need_def)
  show "OrderCancel_decode_body (OrderCancel_wire m @ rest) = Inr m" if "OrderCancel_ok m"
    using that by (simp add: OrderCancel_decode_body_def OrderCancel_wire_def decode_run)
  show "OrderCancel_ok m \<and> OrderCancel_wire m = take ?n buf"
    if "?n \<le> length buf" "OrderCancel_decode_body buf = Inr m"
    using that by (auto simp: OrderCancel_decode_body_def OrderCancel_wire_def decode_inspect
        dest!: Header_decode_sound)
  show "\<exists>f. \<exists>c \<in> set (take ?n buf). e = InvalidEnumCode f c"
    if "?n \<le> length buf" "OrderCancel_decode_body buf = Inl e"
    using that Header_decode_total [of buf] by (auto simp: OrderCancel_decode_body_def decode_reject)
qed

interpretation OrderDelete_codec: body_codec
  OrderDelete_encode_body OrderDelete_decode_body OrderDelete_BODY_LEN OrderDelete_ok OrderDelete_wire
proof
  fix m :: OrderDelete and buf rest :: bytes and e
  let ?n = OrderDelete_BODY_LEN
  show "length (OrderDelete_wire m) = ?n" if "OrderDelete_ok m"
    using that by (simp add: OrderDelete_wire_def BODY_LEN_defs wire_ok_defs)
  show "OrderDelete_encode_body m buf = Inl (BufferTooSmall ?n (length buf))" if "length buf < ?n"
    using that by (simp add: OrderDelete_encode_body_def BODY_LEN_defs slice_n_mut_small)
  show "OrderDelete_encode_body m buf = Inr (OrderDelete_wire m @ drop ?n buf)"
    if "OrderDelete_ok m" "?n \<le> length buf"
    using that by (simp add: OrderDelete_encode_body_def encode_run del: append_assoc)
      (simp add: OrderDelete_wire_def)
  show "OrderDelete_decode_body buf = Inl (Truncated ?n (length buf))" if "length buf < ?n"
    using that by (simp add: OrderDelete_decode_body_def need_def)
  show "OrderDelete_decode_body (OrderDelete_wire m @ rest) = Inr m" if "OrderDelete_ok m"
    using that by (simp add: OrderDelete_decode_body_def OrderDelete_wire_def decode_run)
  show "OrderDelete_ok m \<and> OrderDelete_wire m = take ?n buf"
    if "?n \<le> length buf" "OrderDelete_decode_body buf = Inr m"
    using that by (auto simp: OrderDelete_decode_body_def OrderDelete_wire_def decode_inspect
        dest!: Header_decode_sound)
  show "\<exists>f. \<exists>c \<in> set (take ?n buf). e = InvalidEnumCode f c"
    if "?n \<le> length buf" "OrderDelete_decode_body buf = Inl e"
    using that Header_decode_total [of buf] by (auto simp: OrderDelete_decode_body_def decode_reject)
qed

interpretation OrderReplace_codec: body_codec
  OrderReplace_encode_body OrderReplace_decode_body OrderReplace_BODY_LEN OrderReplace_ok OrderReplace_wire
proof
  fix m :: OrderReplace and buf rest :: bytes and e
  let ?n = OrderReplace_BODY_LEN
  show "length (OrderReplace_wire m) = ?n" if "OrderReplace_ok m"
    using that by (simp add: OrderReplace_wire_def BODY_LEN_defs wire_ok_defs)
  show "OrderReplace_encode_body m buf = Inl (BufferTooSmall ?n (length buf))" if "length buf < ?n"
    using that by (simp add: OrderReplace_encode_body_def BODY_LEN_defs slice_n_mut_small)
  show "OrderReplace_encode_body m buf = Inr (OrderReplace_wire m @ drop ?n buf)"
    if "OrderReplace_ok m" "?n \<le> length buf"
    using that by (simp add: OrderReplace_encode_body_def encode_run del: append_assoc)
      (simp add: OrderReplace_wire_def)
  show "OrderReplace_decode_body buf = Inl (Truncated ?n (length buf))" if "length buf < ?n"
    using that by (simp add: OrderReplace_decode_body_def need_def)
  show "OrderReplace_decode_body (OrderReplace_wire m @ rest) = Inr m" if "OrderReplace_ok m"
    using that by (simp add: OrderReplace_decode_body_def OrderReplace_wire_def decode_run)
  show "OrderReplace_ok m \<and> OrderReplace_wire m = take ?n buf"
    if "?n \<le> length buf" "OrderReplace_decode_body buf = Inr m"
    using that by (auto simp: OrderReplace_decode_body_def OrderReplace_wire_def decode_inspect
        dest!: Header_decode_sound)
  show "\<exists>f. \<exists>c \<in> set (take ?n buf). e = InvalidEnumCode f c"
    if "?n \<le> length buf" "OrderReplace_decode_body buf = Inl e"
    using that Header_decode_total [of buf] by (auto simp: OrderReplace_decode_body_def decode_reject)
qed

interpretation TradeNonCross_codec: body_codec
  TradeNonCross_encode_body TradeNonCross_decode_body TradeNonCross_BODY_LEN TradeNonCross_ok TradeNonCross_wire
proof
  fix m :: TradeNonCross and buf rest :: bytes and e
  let ?n = TradeNonCross_BODY_LEN
  show "length (TradeNonCross_wire m) = ?n" if "TradeNonCross_ok m"
    using that by (simp add: TradeNonCross_wire_def BODY_LEN_defs wire_ok_defs)
  show "TradeNonCross_encode_body m buf = Inl (BufferTooSmall ?n (length buf))" if "length buf < ?n"
    using that by (simp add: TradeNonCross_encode_body_def BODY_LEN_defs slice_n_mut_small)
  show "TradeNonCross_encode_body m buf = Inr (TradeNonCross_wire m @ drop ?n buf)"
    if "TradeNonCross_ok m" "?n \<le> length buf"
    using that by (simp add: TradeNonCross_encode_body_def encode_run del: append_assoc)
      (simp add: TradeNonCross_wire_def)
  show "TradeNonCross_decode_body buf = Inl (Truncated ?n (length buf))" if "length buf < ?n"
    using that by (simp add: TradeNonCross_decode_body_def need_def)
  show "TradeNonCross_decode_body (TradeNonCross_wire m @ rest) = Inr m" if "TradeNonCross_ok m"
    using that by (simp add: TradeNonCross_decode_body_def TradeNonCross_wire_def decode_run)
  show "TradeNonCross_ok m \<and> TradeNonCross_wire m = take ?n buf"
    if "?n \<le> length buf" "TradeNonCross_decode_body buf = Inr m"
    using that by (auto simp: TradeNonCross_decode_body_def TradeNonCross_wire_def decode_inspect
        dest!: Header_decode_sound)
  show "\<exists>f. \<exists>c \<in> set (take ?n buf). e = InvalidEnumCode f c"
    if "?n \<le> length buf" "TradeNonCross_decode_body buf = Inl e"
    using that Header_decode_total [of buf] by (auto simp: TradeNonCross_decode_body_def decode_reject)
qed

interpretation CrossTrade_codec: body_codec
  CrossTrade_encode_body CrossTrade_decode_body CrossTrade_BODY_LEN CrossTrade_ok CrossTrade_wire
proof
  fix m :: CrossTrade and buf rest :: bytes and e
  let ?n = CrossTrade_BODY_LEN
  show "length (CrossTrade_wire m) = ?n" if "CrossTrade_ok m"
    using that by (simp add: CrossTrade_wire_def BODY_LEN_defs wire_ok_defs)
  show "CrossTrade_encode_body m buf = Inl (BufferTooSmall ?n (length buf))" if "length buf < ?n"
    using that by (simp add: CrossTrade_encode_body_def BODY_LEN_defs slice_n_mut_small)
  show "CrossTrade_encode_body m buf = Inr (CrossTrade_wire m @ drop ?n buf)"
    if "CrossTrade_ok m" "?n \<le> length buf"
    using that by (simp add: CrossTrade_encode_body_def encode_run del: append_assoc)
      (simp add: CrossTrade_wire_def)
  show "CrossTrade_decode_body buf = Inl (Truncated ?n (length buf))" if "length buf < ?n"
    using that by (simp add: CrossTrade_decode_body_def need_def)
  show "CrossTrade_decode_body (CrossTrade_wire m @ rest) = Inr m" if "CrossTrade_ok m"
    using that by (simp add: CrossTrade_decode_body_def CrossTrade_wire_def decode_run)
  show "CrossTrade_ok m \<and> CrossTrade_wire m = take ?n buf"
    if "?n \<le> length buf" "CrossTrade_decode_body buf = Inr m"
    using that by (auto simp: CrossTrade_decode_body_def CrossTrade_wire_def decode_inspect
        dest!: Header_decode_sound)
  show "\<exists>f. \<exists>c \<in> set (take ?n buf). e = InvalidEnumCode f c"
    if "?n \<le> length buf" "CrossTrade_decode_body buf = Inl e"
    using that Header_decode_total [of buf] by (auto simp: CrossTrade_decode_body_def decode_reject)
qed

interpretation BrokenTrade_codec: body_codec
  BrokenTrade_encode_body BrokenTrade_decode_body BrokenTrade_BODY_LEN BrokenTrade_ok BrokenTrade_wire
proof
  fix m :: BrokenTrade and buf rest :: bytes and e
  let ?n = BrokenTrade_BODY_LEN
  show "length (BrokenTrade_wire m) = ?n" if "BrokenTrade_ok m"
    using that by (simp add: BrokenTrade_wire_def BODY_LEN_defs wire_ok_defs)
  show "BrokenTrade_encode_body m buf = Inl (BufferTooSmall ?n (length buf))" if "length buf < ?n"
    using that by (simp add: BrokenTrade_encode_body_def BODY_LEN_defs slice_n_mut_small)
  show "BrokenTrade_encode_body m buf = Inr (BrokenTrade_wire m @ drop ?n buf)"
    if "BrokenTrade_ok m" "?n \<le> length buf"
    using that by (simp add: BrokenTrade_encode_body_def encode_run del: append_assoc)
      (simp add: BrokenTrade_wire_def)
  show "BrokenTrade_decode_body buf = Inl (Truncated ?n (length buf))" if "length buf < ?n"
    using that by (simp add: BrokenTrade_decode_body_def need_def)
  show "BrokenTrade_decode_body (BrokenTrade_wire m @ rest) = Inr m" if "BrokenTrade_ok m"
    using that by (simp add: BrokenTrade_decode_body_def BrokenTrade_wire_def decode_run)
  show "BrokenTrade_ok m \<and> BrokenTrade_wire m = take ?n buf"
    if "?n \<le> length buf" "BrokenTrade_decode_body buf = Inr m"
    using that by (auto simp: BrokenTrade_decode_body_def BrokenTrade_wire_def decode_inspect
        dest!: Header_decode_sound)
  show "\<exists>f. \<exists>c \<in> set (take ?n buf). e = InvalidEnumCode f c"
    if "?n \<le> length buf" "BrokenTrade_decode_body buf = Inl e"
    using that Header_decode_total [of buf] by (auto simp: BrokenTrade_decode_body_def decode_reject)
qed

interpretation Noii_codec: body_codec
  Noii_encode_body Noii_decode_body Noii_BODY_LEN Noii_ok Noii_wire
proof
  fix m :: Noii and buf rest :: bytes and e
  let ?n = Noii_BODY_LEN
  show "length (Noii_wire m) = ?n" if "Noii_ok m"
    using that by (simp add: Noii_wire_def BODY_LEN_defs wire_ok_defs)
  show "Noii_encode_body m buf = Inl (BufferTooSmall ?n (length buf))" if "length buf < ?n"
    using that by (simp add: Noii_encode_body_def BODY_LEN_defs slice_n_mut_small)
  show "Noii_encode_body m buf = Inr (Noii_wire m @ drop ?n buf)"
    if "Noii_ok m" "?n \<le> length buf"
    using that by (simp add: Noii_encode_body_def encode_run del: append_assoc)
      (simp add: Noii_wire_def)
  show "Noii_decode_body buf = Inl (Truncated ?n (length buf))" if "length buf < ?n"
    using that by (simp add: Noii_decode_body_def need_def)
  show "Noii_decode_body (Noii_wire m @ rest) = Inr m" if "Noii_ok m"
    using that by (simp add: Noii_decode_body_def Noii_wire_def decode_run)
  show "Noii_ok m \<and> Noii_wire m = take ?n buf"
    if "?n \<le> length buf" "Noii_decode_body buf = Inr m"
    using that by (auto simp: Noii_decode_body_def Noii_wire_def decode_inspect
        dest!: Header_decode_sound)
  show "\<exists>f. \<exists>c \<in> set (take ?n buf). e = InvalidEnumCode f c"
    if "?n \<le> length buf" "Noii_decode_body buf = Inl e"
    using that Header_decode_total [of buf] by (auto simp: Noii_decode_body_def decode_reject)
qed

interpretation RetailPriceImprovement_codec: body_codec
  RetailPriceImprovement_encode_body RetailPriceImprovement_decode_body RetailPriceImprovement_BODY_LEN RetailPriceImprovement_ok RetailPriceImprovement_wire
proof
  fix m :: RetailPriceImprovement and buf rest :: bytes and e
  let ?n = RetailPriceImprovement_BODY_LEN
  show "length (RetailPriceImprovement_wire m) = ?n" if "RetailPriceImprovement_ok m"
    using that by (simp add: RetailPriceImprovement_wire_def BODY_LEN_defs wire_ok_defs)
  show "RetailPriceImprovement_encode_body m buf = Inl (BufferTooSmall ?n (length buf))" if "length buf < ?n"
    using that by (simp add: RetailPriceImprovement_encode_body_def BODY_LEN_defs slice_n_mut_small)
  show "RetailPriceImprovement_encode_body m buf = Inr (RetailPriceImprovement_wire m @ drop ?n buf)"
    if "RetailPriceImprovement_ok m" "?n \<le> length buf"
    using that by (simp add: RetailPriceImprovement_encode_body_def encode_run del: append_assoc)
      (simp add: RetailPriceImprovement_wire_def)
  show "RetailPriceImprovement_decode_body buf = Inl (Truncated ?n (length buf))" if "length buf < ?n"
    using that by (simp add: RetailPriceImprovement_decode_body_def need_def)
  show "RetailPriceImprovement_decode_body (RetailPriceImprovement_wire m @ rest) = Inr m" if "RetailPriceImprovement_ok m"
    using that by (simp add: RetailPriceImprovement_decode_body_def RetailPriceImprovement_wire_def decode_run)
  show "RetailPriceImprovement_ok m \<and> RetailPriceImprovement_wire m = take ?n buf"
    if "?n \<le> length buf" "RetailPriceImprovement_decode_body buf = Inr m"
    using that by (auto simp: RetailPriceImprovement_decode_body_def RetailPriceImprovement_wire_def decode_inspect
        dest!: Header_decode_sound)
  show "\<exists>f. \<exists>c \<in> set (take ?n buf). e = InvalidEnumCode f c"
    if "?n \<le> length buf" "RetailPriceImprovement_decode_body buf = Inl e"
    using that Header_decode_total [of buf] by (auto simp: RetailPriceImprovement_decode_body_def decode_reject)
qed

end
