(* ===== verification/Itch_Message_Codec.thy ===== *)
theory Itch_Message_Codec
  imports Itch_Body_Codec
begin

text \<open>
  \<open>Message::encode\<close> and \<open>Message::decode\<close> of \<open>itch-protocol/src/codec.rs\<close>: the
  1-byte tag and the dispatch to the body codecs.  The lemmas lift the contract
  of the body codecs to whole messages: the bytes written are the tag followed
  by the layout of the body, decoding inverts encoding on every well-formed
  message, every accepted buffer starts with the canonical encoding of the
  decoded message, and every rejection is one of four documented errors.
\<close>

section \<open>Definitions\<close>

fun Message_encode_body :: "Message \<Rightarrow> bytes \<Rightarrow> ProtocolError + bytes" where
  "Message_encode_body (SystemEvent m) body = SystemEvent_encode_body m body"
| "Message_encode_body (StockDirectory m) body = StockDirectory_encode_body m body"
| "Message_encode_body (StockTradingAction m) body = StockTradingAction_encode_body m body"
| "Message_encode_body (RegShoRestriction m) body = RegShoRestriction_encode_body m body"
| "Message_encode_body (MarketParticipantPosition m) body = MarketParticipantPosition_encode_body m body"
| "Message_encode_body (MwcbDeclineLevel m) body = MwcbDeclineLevel_encode_body m body"
| "Message_encode_body (MwcbStatus m) body = MwcbStatus_encode_body m body"
| "Message_encode_body (IpoQuotingPeriodUpdate m) body = IpoQuotingPeriodUpdate_encode_body m body"
| "Message_encode_body (AddOrder m) body = AddOrder_encode_body m body"
| "Message_encode_body (AddOrderWithMpid m) body = AddOrderWithMpid_encode_body m body"
| "Message_encode_body (OrderExecuted m) body = OrderExecuted_encode_body m body"
| "Message_encode_body (OrderExecutedWithPrice m) body = OrderExecutedWithPrice_encode_body m body"
| "Message_encode_body (OrderCancel m) body = OrderCancel_encode_body m body"
| "Message_encode_body (OrderDelete m) body = OrderDelete_encode_body m body"
| "Message_encode_body (OrderReplace m) body = OrderReplace_encode_body m body"
| "Message_encode_body (TradeNonCross m) body = TradeNonCross_encode_body m body"
| "Message_encode_body (CrossTrade m) body = CrossTrade_encode_body m body"
| "Message_encode_body (BrokenTrade m) body = BrokenTrade_encode_body m body"
| "Message_encode_body (Noii m) body = Noii_encode_body m body"
| "Message_encode_body (RetailPriceImprovement m) body = RetailPriceImprovement_encode_body m body"

text \<open>The result of \<open>encode\<close> is the buffer after the call together with the
  number of bytes written.\<close>

definition Message_encode :: "Message \<Rightarrow> bytes \<Rightarrow> ProtocolError + bytes \<times> nat" where
  "Message_encode self buf =
    (let total = Message_encoded_len self in
     and_then (slice_n_mut buf 0 total) (\<lambda>_.
     let out = buf[0 := Message_tag self];
         body = subslice out 1 (total - 1) in
     and_then (Message_encode_body self body) (\<lambda>body.
     Inr (copy_from_slice out 1 body, total))))"

definition Message_decode :: "bytes \<Rightarrow> ProtocolError + Message" where
  "Message_decode buf =
    and_then (ok_or (case buf of [] \<Rightarrow> None | b # _ \<Rightarrow> Some b) (Truncated 1 0)) (\<lambda>tag.
    let body = drop 1 buf in
    if tag = byte CHR ''S'' then map_sum id SystemEvent (SystemEvent_decode_body body)
    else if tag = byte CHR ''R'' then map_sum id StockDirectory (StockDirectory_decode_body body)
    else if tag = byte CHR ''H'' then map_sum id StockTradingAction (StockTradingAction_decode_body body)
    else if tag = byte CHR ''Y'' then map_sum id RegShoRestriction (RegShoRestriction_decode_body body)
    else if tag = byte CHR ''L'' then map_sum id MarketParticipantPosition (MarketParticipantPosition_decode_body body)
    else if tag = byte CHR ''V'' then map_sum id MwcbDeclineLevel (MwcbDeclineLevel_decode_body body)
    else if tag = byte CHR ''W'' then map_sum id MwcbStatus (MwcbStatus_decode_body body)
    else if tag = byte CHR ''K'' then map_sum id IpoQuotingPeriodUpdate (IpoQuotingPeriodUpdate_decode_body body)
    else if tag = byte CHR ''A'' then map_sum id AddOrder (AddOrder_decode_body body)
    else if tag = byte CHR ''F'' then map_sum id AddOrderWithMpid (AddOrderWithMpid_decode_body body)
    else if tag = byte CHR ''E'' then map_sum id OrderExecuted (OrderExecuted_decode_body body)
    else if tag = byte CHR ''C'' then map_sum id OrderExecutedWithPrice (OrderExecutedWithPrice_decode_body body)
    else if tag = byte CHR ''X'' then map_sum id OrderCancel (OrderCancel_decode_body body)
    else if tag = byte CHR ''D'' then map_sum id OrderDelete (OrderDelete_decode_body body)
    else if tag = byte CHR ''U'' then map_sum id OrderReplace (OrderReplace_decode_body body)
    else if tag = byte CHR ''P'' then map_sum id TradeNonCross (TradeNonCross_decode_body body)
    else if tag = byte CHR ''Q'' then map_sum id CrossTrade (CrossTrade_decode_body body)
    else if tag = byte CHR ''B'' then map_sum id BrokenTrade (BrokenTrade_decode_body body)
    else if tag = byte CHR ''I'' then map_sum id Noii (Noii_decode_body body)
    else if tag = byte CHR ''N'' then map_sum id RetailPriceImprovement (RetailPriceImprovement_decode_body body)
    else Inl (UnknownMessageType tag))"

text \<open>The layout of a whole message.\<close>

fun Message_body_wire :: "Message \<Rightarrow> bytes" where
  "Message_body_wire (SystemEvent m) = SystemEvent_wire m"
| "Message_body_wire (StockDirectory m) = StockDirectory_wire m"
| "Message_body_wire (StockTradingAction m) = StockTradingAction_wire m"
| "Message_body_wire (RegShoRestriction m) = RegShoRestriction_wire m"
| "Message_body_wire (MarketParticipantPosition m) = MarketParticipantPosition_wire m"
| "Message_body_wire (MwcbDeclineLevel m) = MwcbDeclineLevel_wire m"
| "Message_body_wire (MwcbStatus m) = MwcbStatus_wire m"
| "Message_body_wire (IpoQuotingPeriodUpdate m) = IpoQuotingPeriodUpdate_wire m"
| "Message_body_wire (AddOrder m) = AddOrder_wire m"
| "Message_body_wire (AddOrderWithMpid m) = AddOrderWithMpid_wire m"
| "Message_body_wire (OrderExecuted m) = OrderExecuted_wire m"
| "Message_body_wire (OrderExecutedWithPrice m) = OrderExecutedWithPrice_wire m"
| "Message_body_wire (OrderCancel m) = OrderCancel_wire m"
| "Message_body_wire (OrderDelete m) = OrderDelete_wire m"
| "Message_body_wire (OrderReplace m) = OrderReplace_wire m"
| "Message_body_wire (TradeNonCross m) = TradeNonCross_wire m"
| "Message_body_wire (CrossTrade m) = CrossTrade_wire m"
| "Message_body_wire (BrokenTrade m) = BrokenTrade_wire m"
| "Message_body_wire (Noii m) = Noii_wire m"
| "Message_body_wire (RetailPriceImprovement m) = RetailPriceImprovement_wire m"

definition Message_wire :: "Message \<Rightarrow> bytes" where
  "Message_wire m = Message_tag m # Message_body_wire m"


text \<open>One default message of every kind.\<close>

definition default_messages :: "Message list" where
  "default_messages = [SystemEvent SystemEvent_default,
     StockDirectory StockDirectory_default,
     StockTradingAction StockTradingAction_default,
     RegShoRestriction RegShoRestriction_default,
     MarketParticipantPosition MarketParticipantPosition_default,
     MwcbDeclineLevel MwcbDeclineLevel_default,
     MwcbStatus MwcbStatus_default,
     IpoQuotingPeriodUpdate IpoQuotingPeriodUpdate_default,
     AddOrder AddOrder_default,
     AddOrderWithMpid AddOrderWithMpid_default,
     OrderExecuted OrderExecuted_default,
     OrderExecutedWithPrice OrderExecutedWithPrice_default,
     OrderCancel OrderCancel_default,
     OrderDelete OrderDelete_default,
     OrderReplace OrderReplace_default,
     TradeNonCross TradeNonCross_default,
     CrossTrade CrossTrade_default,
     BrokenTrade BrokenTrade_default,
     Noii Noii_default,
     RetailPriceImprovement RetailPriceImprovement_default]"

section \<open>The body codecs, together\<close>

lemmas codec_length_wire =
  SystemEvent_codec.length_wire
  StockDirectory_codec.length_wire
  StockTradingAction_codec.length_wire
  RegShoRestriction_codec.length_wire
  MarketParticipantPosition_codec.length_wire
  MwcbDeclineLevel_codec.length_wire
  MwcbStatus_codec.length_wire
  IpoQuotingPeriodUpdate_codec.length_wire
  AddOrder_codec.length_wire
  AddOrderWithMpid_codec.length_wire
  OrderExecuted_codec.length_wire
  OrderExecutedWithPrice_codec.length_wire
  OrderCancel_codec.length_wire
  OrderDelete_codec.length_wire
  OrderReplace_codec.length_wire
  TradeNonCross_codec.length_wire
  CrossTrade_codec.length_wire
  BrokenTrade_codec.length_wire
  Noii_codec.length_wire
  RetailPriceImprovement_codec.length_wire

lemmas codec_encode_long =
  SystemEvent_codec.encode_long
  StockDirectory_codec.encode_long
  StockTradingAction_codec.encode_long
  RegShoRestriction_codec.encode_long
  MarketParticipantPosition_codec.encode_long
  MwcbDeclineLevel_codec.encode_long
  MwcbStatus_codec.encode_long
  IpoQuotingPeriodUpdate_codec.encode_long
  AddOrder_codec.encode_long
  AddOrderWithMpid_codec.encode_long
  OrderExecuted_codec.encode_long
  OrderExecutedWithPrice_codec.encode_long
  OrderCancel_codec.encode_long
  OrderDelete_codec.encode_long
  OrderReplace_codec.encode_long
  TradeNonCross_codec.encode_long
  CrossTrade_codec.encode_long
  BrokenTrade_codec.encode_long
  Noii_codec.encode_long
  RetailPriceImprovement_codec.encode_long

lemmas codec_encode_short =
  SystemEvent_codec.encode_short
  StockDirectory_codec.encode_short
  StockTradingAction_codec.encode_short
  RegShoRestriction_codec.encode_short
  MarketParticipantPosition_codec.encode_short
  MwcbDeclineLevel_codec.encode_short
  MwcbStatus_codec.encode_short
  IpoQuotingPeriodUpdate_codec.encode_short
  AddOrder_codec.encode_short
  AddOrderWithMpid_codec.encode_short
  OrderExecuted_codec.encode_short
  OrderExecutedWithPrice_codec.encode_short
  OrderCancel_codec.encode_short
  OrderDelete_codec.encode_short
  OrderReplace_codec.encode_short
  TradeNonCross_codec.encode_short
  CrossTrade_codec.encode_short
  BrokenTrade_codec.encode_short
  Noii_codec.encode_short
  RetailPriceImprovement_codec.encode_short

lemmas codec_decode_wire =
  SystemEvent_codec.decode_wire
  StockDirectory_codec.decode_wire
  StockTradingAction_codec.decode_wire
  RegShoRestriction_codec.decode_wire
  MarketParticipantPosition_codec.decode_wire
  MwcbDeclineLevel_codec.decode_wire
  MwcbStatus_codec.decode_wire
  IpoQuotingPeriodUpdate_codec.decode_wire
  AddOrder_codec.decode_wire
  AddOrderWithMpid_codec.decode_wire
  OrderExecuted_codec.decode_wire
  OrderExecutedWithPrice_codec.decode_wire
  OrderCancel_codec.decode_wire
  OrderDelete_codec.decode_wire
  OrderReplace_codec.decode_wire
  TradeNonCross_codec.decode_wire
  CrossTrade_codec.decode_wire
  BrokenTrade_codec.decode_wire
  Noii_codec.decode_wire
  RetailPriceImprovement_codec.decode_wire

lemmas codec_decode_Inr_iff =
  SystemEvent_codec.decode_Inr_iff
  StockDirectory_codec.decode_Inr_iff
  StockTradingAction_codec.decode_Inr_iff
  RegShoRestriction_codec.decode_Inr_iff
  MarketParticipantPosition_codec.decode_Inr_iff
  MwcbDeclineLevel_codec.decode_Inr_iff
  MwcbStatus_codec.decode_Inr_iff
  IpoQuotingPeriodUpdate_codec.decode_Inr_iff
  AddOrder_codec.decode_Inr_iff
  AddOrderWithMpid_codec.decode_Inr_iff
  OrderExecuted_codec.decode_Inr_iff
  OrderExecutedWithPrice_codec.decode_Inr_iff
  OrderCancel_codec.decode_Inr_iff
  OrderDelete_codec.decode_Inr_iff
  OrderReplace_codec.decode_Inr_iff
  TradeNonCross_codec.decode_Inr_iff
  CrossTrade_codec.decode_Inr_iff
  BrokenTrade_codec.decode_Inr_iff
  Noii_codec.decode_Inr_iff
  RetailPriceImprovement_codec.decode_Inr_iff



lemma length_Message_wire [simp]:
  "Message_ok m \<Longrightarrow> length (Message_wire m) = Message_encoded_len m"
  by (cases m) (simp_all add: Message_wire_def Message_encoded_len_def codec_length_wire)

lemma Message_encode_body_Inr:
  "Message_ok m \<Longrightarrow> Message_body_len m \<le> length body
    \<Longrightarrow> Message_encode_body m body = Inr (Message_body_wire m @ drop (Message_body_len m) body)"
  by (cases m) (simp_all add: codec_encode_long)

lemma Message_encoded_len_bound: "Message_encoded_len m \<le> 50"
  by (cases m) (simp_all add: Message_encoded_len_def BODY_LEN_defs)

lemma Message_encoded_len_pos [simp]: "0 < Message_encoded_len m"
  by (simp add: Message_encoded_len_def)

lemma Message_encode_Inr:
  assumes "Message_ok m" "Message_encoded_len m \<le> length buf"
  shows "Message_encode m buf
    = Inr (Message_wire m @ drop (Message_encoded_len m) buf, Message_encoded_len m)"
proof -
  have "slice_n_mut buf 0 (Message_encoded_len m) = Inr (0, Message_encoded_len m)"
    using assms Message_encoded_len_bound [of m] by (simp add: slice_n_mut_Inr)
  moreover obtain b bs where buf: "buf = b # bs"
    using assms(2) by (cases buf) (simp_all add: Message_encoded_len_def)
  have n: "length (Message_body_wire m) = Message_body_len m"
    using length_Message_wire [OF assms(1)] by (simp add: Message_wire_def Message_encoded_len_def)
  ultimately show ?thesis
    using assms(2)
    by (simp add: Message_encode_def Let_def buf Message_encoded_len_def subslice_def
        Message_encode_body_Inr [OF assms(1)] copy_from_slice_def Message_wire_def n)
qed

lemma Message_encode_small:
  assumes "length buf < Message_encoded_len m"
  shows "Message_encode m buf = Inl (BufferTooSmall (Message_encoded_len m) (length buf))"
  using assms Message_encoded_len_bound [of m]
  by (simp add: Message_encode_def Let_def slice_n_mut_small)

lemma Message_decode_wire: "Message_ok m \<Longrightarrow> Message_decode (Message_wire m @ rest) = Inr m"
  by (cases m) (simp_all add: Message_decode_def Message_wire_def codec_decode_wire)

lemma map_sum_Inr_iff: "map_sum id f r = Inr y \<longleftrightarrow> (\<exists>x. r = Inr x \<and> y = f x)"
  by (cases r) auto


lemma Message_decode_sound:
  assumes "Message_decode buf = Inr m"
  shows "Message_ok m \<and> Message_encoded_len m \<le> length buf
    \<and> Message_wire m = take (Message_encoded_len m) buf"
proof (cases buf)
  case Nil
  with assms show ?thesis by (simp add: Message_decode_def)
next
  case (Cons tag body)
  with assms show ?thesis
    by (auto simp: Message_decode_def Let_def map_sum_Inr_iff codec_decode_Inr_iff
        Message_wire_def Message_encoded_len_def split: if_splits)
qed

lemma Message_wire_inj:
  "Message_ok m \<Longrightarrow> Message_ok m' \<Longrightarrow> Message_wire m @ r = Message_wire m' @ r'
    \<longleftrightarrow> m = m' \<and> r = r'"
  using Message_decode_wire [of m r] Message_decode_wire [of m' r'] by auto

section \<open>Rejections\<close>



lemma default_messages_ok: "\<forall>m \<in> set default_messages. Message_ok m"
  by (simp add: default_messages_def body_default_defs wire_ok_defs Timestamp_ok_iff
      Stock_default_def Mpid_default_def)




section \<open>Properties\<close>

definition sample_add :: Message where
  "sample_add = AddOrder \<lparr>AddOrder.header = \<lparr>Header.stock_locate = StockLocate 7,
       Header.tracking_number = TrackingNumber 0, Header.timestamp = Timestamp 34200000000000\<rparr>,
     AddOrder.order_ref = OrderReference 1001, AddOrder.side = Side.Sell,
     AddOrder.shares = Shares 300, AddOrder.stock = Stock_new [0x41, 0x42],
     AddOrder.price = Price4 1500000\<rparr>"

lemma sample_add_ok: "Message_ok sample_add" "Message_encoded_len sample_add = 36"
  by (simp_all add: sample_add_def wire_ok_defs Timestamp_ok_iff Message_encoded_len_def
      BODY_LEN_defs Stock_new_def)

text \<open>C1: Encoding a well-formed message into a buffer of at least \<open>encoded_len\<close> bytes
  succeeds, reports exactly \<open>encoded_len\<close> bytes written, leaves every byte behind them
  untouched, and decoding the buffer returns the message.\<close>

theorem message_round_trip:
  assumes "Message_ok m" "Message_encoded_len m \<le> length buf"
  shows "\<exists>out. Message_encode m buf = Inr (out, Message_encoded_len m)
    \<and> length out = length buf
    \<and> drop (Message_encoded_len m) out = drop (Message_encoded_len m) buf
    \<and> Message_decode out = Inr m"
  using assms by (simp add: Message_encode_Inr Message_decode_wire)

theorem message_round_trip_witness:
  "\<exists>out. Message_encode sample_add (replicate 40 0) = Inr (out, 36)
    \<and> length out = 40 \<and> drop 36 out = replicate 4 0 \<and> Message_decode out = Inr sample_add"
  using message_round_trip [of sample_add "replicate 40 0"] sample_add_ok by simp

text \<open>C2: Whatever \<open>Message::decode\<close> accepts is the canonical encoding of its result: the
  message is well formed, the buffer holds all its bytes, and encoding it into any large
  enough buffer reproduces the accepted bytes.  Trailing bytes do not matter.\<close>

theorem message_decode_canonical:
  assumes "Message_decode buf = Inr m" "Message_encoded_len m \<le> length out"
  shows "Message_ok m \<and> Message_encoded_len m \<le> length buf
    \<and> Message_encode m out = Inr (take (Message_encoded_len m) buf
          @ drop (Message_encoded_len m) out, Message_encoded_len m)"
  using Message_decode_sound [OF assms(1)] assms(2) by (simp add: Message_encode_Inr)

definition sample_delete_bytes :: bytes where
  "sample_delete_bytes =
    [0x44, 0, 7, 0, 1, 0, 0, 0, 0, 0, 9, 0, 0, 0, 0, 0, 0, 3, 233, 0xAA]"

definition sample_delete :: Message where
  "sample_delete = OrderDelete \<lparr>OrderDelete.header = \<lparr>Header.stock_locate = StockLocate 7,
       Header.tracking_number = TrackingNumber 1, Header.timestamp = Timestamp 9\<rparr>,
     OrderDelete.order_ref = OrderReference 1001\<rparr>"

lemma sample_delete_decode: "Message_decode sample_delete_bytes = Inr sample_delete"
  by (simp add: Message_decode_def sample_delete_bytes_def sample_delete_def
      OrderDelete_decode_body_def need_def BODY_LEN_defs Header_decode_at_def read_simps
      subslice_def)

theorem message_decode_canonical_witness:
  "Message_encode sample_delete (replicate 19 0) = Inr (take 19 sample_delete_bytes, 19)"
  using message_decode_canonical [OF sample_delete_decode, of "replicate 19 0"]
  by (simp add: sample_delete_def Message_encoded_len_def BODY_LEN_defs)



text \<open>The encoding is unambiguous as a stream: if two well-formed messages followed by
  arbitrary bytes give the same byte string, the messages and the rests are equal, so
  concatenated messages can be split in one way only.\<close>

lemma message_stream_unambiguous:
  assumes "Message_ok m" "Message_ok m'" "length buf = Message_encoded_len m"
    "length buf' = Message_encoded_len m'"
    "Message_encode m buf = Inr (out, n)" "Message_encode m' buf' = Inr (out', n')"
    "out @ rest = out' @ rest'"
  shows "m = m' \<and> rest = rest'"
  using assms Message_wire_inj [of m m' rest rest'] by (auto simp: Message_encode_Inr)

end
