(* ===== verification/Itch_Book_L2.thy ===== *)
theory Itch_Book_L2
  imports Itch_Message_Codec
begin

text \<open>
  The single-symbol price-level book (\<open>itch-book/src/book.rs\<close>) and the errors
  of the book crate (\<open>itch-book/src/error.rs\<close>).  A method that takes \<open>&mut self\<close>
  and returns a \<open>Result\<close> is a function to the result and the state after the
  call, since the state also survives an error.  The ladders are ordered maps,
  the order index is a finite map.

  The invariant \<open>l2_ok\<close> ties the two halves of the state together: on each side
  and at each price the ladder holds the number of shares of the orders of the
  index that rest there.
\<close>

section \<open>Definitions\<close>

datatype BookError =
    UnknownOrderRef OrderReference
  | OverExecution OrderReference u32 u32
  | MismatchedSide OrderReference Side Side
  | FifoViolation OrderReference OrderReference
  | Protocol ProtocolError

type_synonym book_result = "BookError + unit"
type_synonym ladder = "(Price4, u64) btree"

record OrderEntry =
  price :: Price4
  shares :: u32
  side :: Side
  stock_locate :: StockLocate

record L2Book =
  stock_locate :: StockLocate
  bids :: ladder
  asks :: ladder
  orders :: "OrderReference \<rightharpoonup> OrderEntry"

definition L2Book_new :: "StockLocate \<Rightarrow> L2Book" where
  "L2Book_new locate =
    \<lparr>L2Book.stock_locate = locate, L2Book.bids = [], L2Book.asks = [], L2Book.orders = Map.empty\<rparr>"

definition L2Book_best_bid :: "L2Book \<Rightarrow> (Price4 \<times> u64) option" where
  "L2Book_best_bid self = (if L2Book.bids self = [] then None else Some (last (L2Book.bids self)))"

definition L2Book_best_ask :: "L2Book \<Rightarrow> (Price4 \<times> u64) option" where
  "L2Book_best_ask self = (case L2Book.asks self of [] \<Rightarrow> None | l # _ \<Rightarrow> Some l)"

definition L2Book_levels :: "L2Book \<Rightarrow> Side \<Rightarrow> (Price4 \<times> u64) list" where
  "L2Book_levels self s = (case s of
      Side.Buy \<Rightarrow> rev (L2Book.bids self)
    | Side.Sell \<Rightarrow> L2Book.asks self)"

abbreviation L2Book_order_count :: "L2Book \<Rightarrow> nat" where
  "L2Book_order_count self \<equiv> card (dom (L2Book.orders self))"

definition L2Book_levels_count :: "L2Book \<Rightarrow> Side \<Rightarrow> nat" where
  "L2Book_levels_count self s = (case s of
      Side.Buy \<Rightarrow> length (L2Book.bids self)
    | Side.Sell \<Rightarrow> length (L2Book.asks self))"

definition L2Book_reduce_level :: "ladder \<Rightarrow> Price4 \<Rightarrow> u64 \<Rightarrow> ladder" where
  "L2Book_reduce_level levels p n =
    (case map_of levels p of
      None \<Rightarrow> levels
    | Some level \<Rightarrow>
        let level = saturating_sub level n in
        if level = 0 then btree_remove p levels else btree_insert p level levels)"

text \<open>\<open>*entry(price).or_insert(0)\<close> raised by the shares of the new order.\<close>

definition L2Book_raise_level :: "ladder \<Rightarrow> Price4 \<Rightarrow> u32 \<Rightarrow> ladder" where
  "L2Book_raise_level levels p n =
    (let level = (case map_of levels p of None \<Rightarrow> 0 | Some level \<Rightarrow> level)
     in btree_insert p (saturating_add level (ucast n)) levels)"

text \<open>\<open>match side { Buy => &mut self.bids, Sell => &mut self.asks }\<close>.\<close>

definition L2Book_on_side :: "(ladder \<Rightarrow> ladder) \<Rightarrow> Side \<Rightarrow> L2Book \<Rightarrow> L2Book" where
  "L2Book_on_side f s self = (case s of
      Side.Buy \<Rightarrow> self\<lparr>L2Book.bids := f (L2Book.bids self)\<rparr>
    | Side.Sell \<Rightarrow> self\<lparr>L2Book.asks := f (L2Book.asks self)\<rparr>)"

definition L2Book_add_order :: "OrderReference \<Rightarrow> Side \<Rightarrow> u32 \<Rightarrow> Price4 \<Rightarrow> L2Book \<Rightarrow> L2Book" where
  "L2Book_add_order oref s n p self =
    (let self = self\<lparr>L2Book.orders := (L2Book.orders self)(oref \<mapsto>
           \<lparr>OrderEntry.price = p, OrderEntry.shares = n, OrderEntry.side = s,
            OrderEntry.stock_locate = L2Book.stock_locate self\<rparr>)\<rparr>
     in L2Book_on_side (\<lambda>levels. L2Book_raise_level levels p n) s self)"

definition L2Book_execute :: "OrderReference \<Rightarrow> u32 \<Rightarrow> L2Book \<Rightarrow> book_result \<times> L2Book" where
  "L2Book_execute oref n self =
    (case L2Book.orders self oref of
      None \<Rightarrow> (Inr (), self)
    | Some entry \<Rightarrow>
        if n > OrderEntry.shares entry then
          (Inl (OverExecution oref n (OrderEntry.shares entry)), self)
        else
          let entry = entry\<lparr>OrderEntry.shares := OrderEntry.shares entry - n\<rparr>;
              self = self\<lparr>L2Book.orders := (L2Book.orders self)(oref \<mapsto> entry)\<rparr>;
              exhausted = (OrderEntry.shares entry = 0);
              self = L2Book_on_side
                (\<lambda>levels. L2Book_reduce_level levels (OrderEntry.price entry) (ucast n))
                (OrderEntry.side entry) self
          in (Inr (),
              if exhausted
              then self\<lparr>L2Book.orders := (L2Book.orders self)(oref := None)\<rparr>
              else self))"

definition L2Book_delete :: "OrderReference \<Rightarrow> L2Book \<Rightarrow> L2Book" where
  "L2Book_delete oref self =
    (case L2Book.orders self oref of
      None \<Rightarrow> self
    | Some entry \<Rightarrow>
        let self = self\<lparr>L2Book.orders := (L2Book.orders self)(oref := None)\<rparr>
        in L2Book_on_side
             (\<lambda>levels. L2Book_reduce_level levels (OrderEntry.price entry)
                (ucast (OrderEntry.shares entry)))
             (OrderEntry.side entry) self)"

definition L2Book_replace ::
  "OrderReference \<Rightarrow> OrderReference \<Rightarrow> u32 \<Rightarrow> Price4 \<Rightarrow> L2Book \<Rightarrow> book_result \<times> L2Book" where
  "L2Book_replace original_ref new_ref new_shares new_price self =
    (case L2Book.orders self original_ref of
      None \<Rightarrow> (Inr (), self)
    | Some original \<Rightarrow>
        let self = self\<lparr>L2Book.orders := (L2Book.orders self)(original_ref := None)\<rparr>;
            self = L2Book_on_side
              (\<lambda>levels. L2Book_reduce_level levels (OrderEntry.price original)
                 (ucast (OrderEntry.shares original)))
              (OrderEntry.side original) self
        in (Inr (), L2Book_add_order new_ref (OrderEntry.side original) new_shares new_price self))"

fun L2Book_apply :: "Message \<Rightarrow> L2Book \<Rightarrow> book_result \<times> L2Book" where
  "L2Book_apply (AddOrder m) self =
    (if Header.stock_locate (AddOrder.header m) \<noteq> L2Book.stock_locate self then (Inr (), self)
     else (Inr (), L2Book_add_order (AddOrder.order_ref m) (AddOrder.side m)
             (Shares.as_u32 (AddOrder.shares m)) (AddOrder.price m) self))"
| "L2Book_apply (AddOrderWithMpid m) self =
    (if Header.stock_locate (AddOrderWithMpid.header m) \<noteq> L2Book.stock_locate self
     then (Inr (), self)
     else (Inr (), L2Book_add_order (AddOrderWithMpid.order_ref m) (AddOrderWithMpid.side m)
             (Shares.as_u32 (AddOrderWithMpid.shares m)) (AddOrderWithMpid.price m) self))"
| "L2Book_apply (OrderExecuted m) self =
    L2Book_execute (OrderExecuted.order_ref m) (Shares.as_u32 (OrderExecuted.executed_shares m)) self"
| "L2Book_apply (OrderExecutedWithPrice m) self =
    L2Book_execute (OrderExecutedWithPrice.order_ref m)
      (Shares.as_u32 (OrderExecutedWithPrice.executed_shares m)) self"
| "L2Book_apply (OrderCancel m) self =
    L2Book_execute (OrderCancel.order_ref m) (Shares.as_u32 (OrderCancel.cancelled_shares m)) self"
| "L2Book_apply (OrderDelete m) self = (Inr (), L2Book_delete (OrderDelete.order_ref m) self)"
| "L2Book_apply (OrderReplace m) self =
    L2Book_replace (OrderReplace.original_order_ref m) (OrderReplace.new_order_ref m)
      (Shares.as_u32 (OrderReplace.shares m)) (OrderReplace.price m) self"
| "L2Book_apply (SystemEvent _) self = (Inr (), self)"
| "L2Book_apply (StockDirectory _) self = (Inr (), self)"
| "L2Book_apply (StockTradingAction _) self = (Inr (), self)"
| "L2Book_apply (RegShoRestriction _) self = (Inr (), self)"
| "L2Book_apply (MarketParticipantPosition _) self = (Inr (), self)"
| "L2Book_apply (MwcbDeclineLevel _) self = (Inr (), self)"
| "L2Book_apply (MwcbStatus _) self = (Inr (), self)"
| "L2Book_apply (IpoQuotingPeriodUpdate _) self = (Inr (), self)"
| "L2Book_apply (TradeNonCross _) self = (Inr (), self)"
| "L2Book_apply (CrossTrade _) self = (Inr (), self)"
| "L2Book_apply (BrokenTrade _) self = (Inr (), self)"
| "L2Book_apply (Noii _) self = (Inr (), self)"
| "L2Book_apply (RetailPriceImprovement _) self = (Inr (), self)"

section \<open>The invariant\<close>

definition L2Book_ladder :: "L2Book \<Rightarrow> Side \<Rightarrow> ladder" where
  "L2Book_ladder self s = (case s of Side.Buy \<Rightarrow> L2Book.bids self | Side.Sell \<Rightarrow> L2Book.asks self)"

definition level_at :: "ladder \<Rightarrow> Price4 \<Rightarrow> nat" where
  "level_at levels p = (case map_of levels p of None \<Rightarrow> 0 | Some n \<Rightarrow> unat n)"

definition rests_at :: "Side \<Rightarrow> Price4 \<Rightarrow> OrderEntry \<Rightarrow> nat" where
  "rests_at s p e =
    (if OrderEntry.side e = s \<and> OrderEntry.price e = p then unat (OrderEntry.shares e) else 0)"

definition l2_ok :: "L2Book \<Rightarrow> bool" where
  "l2_ok self \<longleftrightarrow> finite (dom (L2Book.orders self))
    \<and> (\<forall>s. btree_ok (L2Book_ladder self s))
    \<and> (\<forall>s p. level_at (L2Book_ladder self s) p = msum (rests_at s p) (L2Book.orders self))"

text \<open>With only positive quantities a level is present exactly when an order rests at it.\<close>

definition l2_tight :: "L2Book \<Rightarrow> bool" where
  "l2_tight self \<longleftrightarrow> (\<forall>s p. map_of (L2Book_ladder self s) p \<noteq> Some 0)
    \<and> (\<forall>r e. L2Book.orders self r = Some e \<longrightarrow> OrderEntry.shares e \<noteq> 0)"

text \<open>What the feed guarantees: a new order reference is unused (references are unique within
  a day), and fewer than \<open>2^32\<close> orders are open, which keeps every level below \<open>2^64\<close>.\<close>

fun fresh_ref :: "Message \<Rightarrow> (OrderReference \<rightharpoonup> 'e) \<Rightarrow> bool" where
  "fresh_ref (AddOrder m) os = (AddOrder.order_ref m \<notin> dom os)"
| "fresh_ref (AddOrderWithMpid m) os = (AddOrderWithMpid.order_ref m \<notin> dom os)"
| "fresh_ref (OrderReplace m) os =
    (OrderReplace.new_order_ref m \<notin> dom os - {OrderReplace.original_order_ref m})"
| "fresh_ref _ os = True"

definition room :: "('k \<rightharpoonup> 'e) \<Rightarrow> bool" where
  "room os = (card (dom os) < 2 ^ 32)"

fun positive_shares :: "Message \<Rightarrow> bool" where
  "positive_shares (AddOrder m) = (Shares.as_u32 (AddOrder.shares m) \<noteq> 0)"
| "positive_shares (AddOrderWithMpid m) = (Shares.as_u32 (AddOrderWithMpid.shares m) \<noteq> 0)"
| "positive_shares (OrderReplace m) = (Shares.as_u32 (OrderReplace.shares m) \<noteq> 0)"
| "positive_shares _ = True"

section \<open>Ladders\<close>

lemma unat_u32_le: "unat (n :: u32) \<le> 2 ^ 32 - 1"
proof -
  have "unat n < 2 ^ LENGTH(32)" by (rule unsigned_less)
  then show ?thesis by simp
qed

lemma unat_ucast_u32 [simp]: "unat (ucast (n :: u32) :: u64) = unat n"
  using unat_u32_le [of n] by (simp add: unsigned_ucast_eq take_bit_nat_eq_self)

lemma btree_ok_raise [simp, intro]: "btree_ok l \<Longrightarrow> btree_ok (L2Book_raise_level l p n)"
  by (simp add: L2Book_raise_level_def Let_def)

lemma btree_ok_reduce [simp, intro]: "btree_ok l \<Longrightarrow> btree_ok (L2Book_reduce_level l p n)"
  by (simp add: L2Book_reduce_level_def Let_def split: option.splits)

lemma level_at_raise:
  assumes "btree_ok l" "level_at l p + unat n < 2 ^ 64"
  shows "level_at (L2Book_raise_level l p n) q = level_at l q + (if q = p then unat n else 0)"
  using assms by (auto simp: L2Book_raise_level_def level_at_def omap_simps unat_saturating_add
      split: option.splits)

lemma level_at_reduce:
  assumes "btree_ok l"
  shows "level_at (L2Book_reduce_level l p n) q = level_at l q - (if q = p then unat n else 0)"
  using assms
  by (auto simp: L2Book_reduce_level_def level_at_def omap_simps unat_saturating_sub
      saturating_sub_eq_0 Let_def split: option.splits)

lemma no_zero_raise:
  assumes "btree_ok l" "level_at l p + unat n < 2 ^ 64" "n \<noteq> 0" "\<forall>q. map_of l q \<noteq> Some 0"
  shows "map_of (L2Book_raise_level l p n) q \<noteq> Some 0"
proof (cases "q = p")
  case True
  have "level_at (L2Book_raise_level l p n) p \<noteq> 0"
    using level_at_raise [OF assms(1,2), of p] assms(3) by (simp add: unat_eq_0)
  with True show ?thesis by (auto simp: level_at_def)
next
  case False
  with assms show ?thesis by (simp add: L2Book_raise_level_def Let_def omap_simps)
qed

lemma no_zero_reduce:
  "btree_ok l \<Longrightarrow> \<forall>q. map_of l q \<noteq> Some 0 \<Longrightarrow> map_of (L2Book_reduce_level l p n) q \<noteq> Some 0"
  by (auto simp: L2Book_reduce_level_def Let_def omap_simps split: option.splits)

lemma on_side_simps [simp]:
  "L2Book.orders (L2Book_on_side f s self) = L2Book.orders self"
  "L2Book.stock_locate (L2Book_on_side f s self) = L2Book.stock_locate self"
  "L2Book_ladder (L2Book_on_side f s self) s' =
    (if s' = s then f (L2Book_ladder self s) else L2Book_ladder self s')"
  "L2Book_ladder (self\<lparr>L2Book.orders := os\<rparr>) s = L2Book_ladder self s"
  by (simp_all add: L2Book_on_side_def L2Book_ladder_def split: Side.split)

section \<open>Every operation keeps the invariant\<close>

lemma msum_rests_bound:
  assumes "finite (dom os)" "room os"
  shows "msum (rests_at s p) os + unat (n :: u32) < 2 ^ 64"
proof -
  have "msum (rests_at s p) os \<le> card (dom os) * (2 ^ 32 - 1)"
    using unat_u32_le by (intro msum_bound [OF assms(1)]) (auto simp: rests_at_def)
  also have "\<dots> \<le> (2 ^ 32 - 1) * (2 ^ 32 - 1)"
    using assms(2) by (intro mult_right_mono) (auto simp: room_def)
  finally show ?thesis using unat_u32_le [of n] by simp
qed

lemma l2_ok_new: "l2_ok (L2Book_new locate)"
  by (auto simp: l2_ok_def L2Book_new_def L2Book_ladder_def level_at_def split: Side.split)

lemma l2_tight_new: "l2_tight (L2Book_new locate)"
  by (auto simp: l2_tight_def L2Book_new_def L2Book_ladder_def split: Side.split)

lemma level_bound:
  "l2_ok self \<Longrightarrow> room (L2Book.orders self)
    \<Longrightarrow> level_at (L2Book_ladder self s) p + unat (n :: u32) < 2 ^ 64"
  using msum_rests_bound [of "L2Book.orders self" s p n] by (simp add: l2_ok_def)

lemma add_order_orders:
  "L2Book.orders (L2Book_add_order oref s n p self) = (L2Book.orders self)(oref \<mapsto>
     \<lparr>OrderEntry.price = p, OrderEntry.shares = n, OrderEntry.side = s,
      OrderEntry.stock_locate = L2Book.stock_locate self\<rparr>)"
  by (simp add: L2Book_add_order_def Let_def)

lemma l2_ok_add_order:
  assumes "l2_ok self" "oref \<notin> dom (L2Book.orders self)" "room (L2Book.orders self)"
  shows "l2_ok (L2Book_add_order oref s n p self)"
  using assms level_bound [OF assms(1,3), of s p n]
  by (auto simp: l2_ok_def L2Book_add_order_def Let_def level_at_raise msum_insert domIff
      rests_at_def)

lemma l2_ok_take_out:
  assumes "l2_ok self" "L2Book.orders self oref = Some e"
  shows "l2_ok (L2Book_on_side
    (\<lambda>l. L2Book_reduce_level l (OrderEntry.price e) (ucast (OrderEntry.shares e)))
    (OrderEntry.side e) (self\<lparr>L2Book.orders := (L2Book.orders self)(oref := None)\<rparr>))"
  using assms msum_remove [of "L2Book.orders self" oref e]
  by (auto simp: l2_ok_def level_at_reduce rests_at_def)

lemma l2_ok_take_part:
  assumes "l2_ok self" "L2Book.orders self oref = Some e" "n \<le> OrderEntry.shares e"
  shows "l2_ok (L2Book_on_side
    (\<lambda>l. L2Book_reduce_level l (OrderEntry.price e) (ucast n)) (OrderEntry.side e)
    (self\<lparr>L2Book.orders := (L2Book.orders self)(oref \<mapsto>
       e\<lparr>OrderEntry.shares := OrderEntry.shares e - n\<rparr>)\<rparr>))"
proof -
  let ?e' = "e\<lparr>OrderEntry.shares := OrderEntry.shares e - n\<rparr>"
  let ?os = "L2Book.orders self" and ?os' = "(L2Book.orders self)(oref \<mapsto> ?e')"
  have n: "unat (OrderEntry.shares e - n) = unat (OrderEntry.shares e) - unat n"
    "unat n \<le> unat (OrderEntry.shares e)"
    using assms(3) by (simp_all add: unat_sub word_le_nat_alt)
  have "msum (rests_at s p) ?os' = msum (rests_at s p) ?os
      - (if OrderEntry.side e = s \<and> OrderEntry.price e = p then unat n else 0)" for s p
    using msum_update [of ?os oref e "rests_at s p" ?e'] assms n
    by (auto simp: l2_ok_def rests_at_def)
  with assms(1) show ?thesis by (auto simp: l2_ok_def level_at_reduce)
qed

lemma l2_ok_delete: "l2_ok self \<Longrightarrow> l2_ok (L2Book_delete oref self)"
  using l2_ok_take_out [of self oref] by (auto simp: L2Book_delete_def Let_def split: option.split)

lemma on_side_orders_commute:
  "L2Book_on_side f s self\<lparr>L2Book.orders := os\<rparr> = L2Book_on_side f s (self\<lparr>L2Book.orders := os\<rparr>)"
  by (simp add: L2Book_on_side_def split: Side.split)

lemma execute_exhausts:
  assumes "L2Book.orders self oref = Some e" "n = OrderEntry.shares e"
  shows "L2Book_execute oref n self = (Inr (), L2Book_delete oref self)"
  using assms by (simp add: L2Book_execute_def L2Book_delete_def Let_def on_side_orders_commute)

lemma l2_ok_execute: "l2_ok self \<Longrightarrow> l2_ok (snd (L2Book_execute oref n self))"
proof (cases "L2Book.orders self oref")
  case (Some e)
  assume ok: "l2_ok self"
  show ?thesis
  proof (cases "n = OrderEntry.shares e")
    case True
    with ok Some show ?thesis by (simp add: execute_exhausts l2_ok_delete)
  next
    case False
    with ok Some l2_ok_take_part [OF ok Some, of n] show ?thesis
      by (simp add: L2Book_execute_def Let_def)
  qed
qed (simp add: L2Book_execute_def)

lemma replace_eq:
  assumes "L2Book.orders self oref = Some e"
  shows "L2Book_replace oref new n p self
    = (Inr (), L2Book_add_order new (OrderEntry.side e) n p (L2Book_delete oref self))"
  using assms by (simp add: L2Book_replace_def L2Book_delete_def Let_def)

lemma delete_orders: "L2Book.orders (L2Book_delete oref self) = (L2Book.orders self)(oref := None)"
  by (auto simp: L2Book_delete_def Let_def split: option.split)

lemma room_remove: "finite (dom os) \<Longrightarrow> room os \<Longrightarrow> room (os(k := None))"
  using card_mono [of "dom os" "dom os - {k}"] by (auto simp: room_def)

lemma l2_ok_replace:
  assumes "l2_ok self" "room (L2Book.orders self)" "new \<notin> dom (L2Book.orders self) - {oref}"
  shows "l2_ok (snd (L2Book_replace oref new n p self))"
proof (cases "L2Book.orders self oref")
  case None
  with assms show ?thesis by (simp add: L2Book_replace_def)
next
  case (Some e)
  have "l2_ok (L2Book_delete oref self)" using assms(1) by (rule l2_ok_delete)
  moreover have "room (L2Book.orders (L2Book_delete oref self))"
    using assms(1,2) by (simp add: delete_orders room_remove l2_ok_def)
  ultimately show ?thesis
    using assms(3) by (simp add: replace_eq [OF Some] l2_ok_add_order delete_orders)
qed

definition l2_admissible :: "Message \<Rightarrow> L2Book \<Rightarrow> bool" where
  "l2_admissible m self = (fresh_ref m (L2Book.orders self) \<and> room (L2Book.orders self))"

lemma l2_ok_apply: "l2_ok self \<Longrightarrow> l2_admissible m self \<Longrightarrow> l2_ok (snd (L2Book_apply m self))"
  by (cases m) (simp_all add: l2_admissible_def l2_ok_add_order l2_ok_execute l2_ok_delete l2_ok_replace)

section \<open>Positive quantities keep the book tight\<close>

lemma l2_tight_add_order:
  assumes "l2_ok self" "l2_tight self" "room (L2Book.orders self)" "n \<noteq> 0"
  shows "l2_tight (L2Book_add_order oref s n p self)"
  using assms level_bound [OF assms(1,3), of s p n]
  by (auto simp: l2_tight_def L2Book_add_order_def Let_def l2_ok_def no_zero_raise)

lemma l2_tight_delete:
  assumes "l2_ok self" "l2_tight self"
  shows "l2_tight (L2Book_delete oref self)"
  using assms
  by (auto simp: l2_tight_def l2_ok_def L2Book_delete_def Let_def no_zero_reduce
      split: option.split if_splits)

lemma l2_tight_execute:
  assumes "l2_ok self" "l2_tight self"
  shows "l2_tight (snd (L2Book_execute oref n self))"
proof (cases "L2Book.orders self oref")
  case (Some e)
  show ?thesis
  proof (cases "n = OrderEntry.shares e")
    case True
    with assms Some show ?thesis by (simp add: execute_exhausts l2_tight_delete)
  next
    case False
    with assms Some show ?thesis
      by (auto simp: l2_tight_def l2_ok_def L2Book_execute_def Let_def no_zero_reduce split: if_splits)
  qed
qed (use assms in \<open>simp add: L2Book_execute_def\<close>)

lemma l2_tight_replace:
  assumes "l2_ok self" "l2_tight self" "room (L2Book.orders self)" "n \<noteq> 0"
  shows "l2_tight (snd (L2Book_replace oref new n p self))"
proof (cases "L2Book.orders self oref")
  case None
  with assms show ?thesis by (simp add: L2Book_replace_def)
next
  case (Some e)
  with assms show ?thesis
    by (simp add: replace_eq l2_tight_add_order l2_tight_delete l2_ok_delete delete_orders
        room_remove l2_ok_def [of self])
qed

lemma l2_tight_apply:
  assumes "l2_ok self" "l2_tight self" "l2_admissible m self" "positive_shares m"
  shows "l2_tight (snd (L2Book_apply m self))"
  using assms
  by (cases m) (auto simp: l2_admissible_def l2_tight_add_order l2_tight_execute l2_tight_delete
      l2_tight_replace)

section \<open>Messages that do not concern the book\<close>

text \<open>The order a message refers to, with the shares it takes away.\<close>

fun reduction :: "Message \<Rightarrow> (OrderReference \<times> u32) option" where
  "reduction (OrderExecuted m) =
    Some (OrderExecuted.order_ref m, Shares.as_u32 (OrderExecuted.executed_shares m))"
| "reduction (OrderExecutedWithPrice m) =
    Some (OrderExecutedWithPrice.order_ref m, Shares.as_u32 (OrderExecutedWithPrice.executed_shares m))"
| "reduction (OrderCancel m) =
    Some (OrderCancel.order_ref m, Shares.as_u32 (OrderCancel.cancelled_shares m))"
| "reduction _ = None"

fun concerns :: "Message \<Rightarrow> StockLocate \<Rightarrow> (OrderReference \<rightharpoonup> 'e) \<Rightarrow> bool" where
  "concerns (AddOrder m) locate os = (Header.stock_locate (AddOrder.header m) = locate)"
| "concerns (AddOrderWithMpid m) locate os =
    (Header.stock_locate (AddOrderWithMpid.header m) = locate)"
| "concerns (OrderExecuted m) locate os = (OrderExecuted.order_ref m \<in> dom os)"
| "concerns (OrderExecutedWithPrice m) locate os = (OrderExecutedWithPrice.order_ref m \<in> dom os)"
| "concerns (OrderCancel m) locate os = (OrderCancel.order_ref m \<in> dom os)"
| "concerns (OrderDelete m) locate os = (OrderDelete.order_ref m \<in> dom os)"
| "concerns (OrderReplace m) locate os = (OrderReplace.original_order_ref m \<in> dom os)"
| "concerns _ locate os = False"

lemma l2_apply_foreign:
  "\<not> concerns m (L2Book.stock_locate self) (L2Book.orders self) \<Longrightarrow> L2Book_apply m self = (Inr (), self)"
  by (cases m) (auto simp: L2Book_execute_def L2Book_delete_def L2Book_replace_def split: option.split)

lemma l2_apply_Inl:
  "fst (L2Book_apply m self) = Inl e \<longleftrightarrow>
    (\<exists>r n entry. reduction m = Some (r, n) \<and> L2Book.orders self r = Some entry
      \<and> OrderEntry.shares entry < n \<and> e = OverExecution r n (OrderEntry.shares entry))"
  by (cases m) (auto simp: L2Book_execute_def L2Book_delete_def L2Book_replace_def Let_def
      split: option.split)

lemma l2_apply_Inl_state: "fst (L2Book_apply m self) = Inl e \<Longrightarrow> snd (L2Book_apply m self) = self"
  by (cases m) (auto simp: L2Book_execute_def L2Book_delete_def L2Book_replace_def Let_def
      split: option.splits if_splits)

section \<open>Books as machines\<close>

text \<open>
  A book consumes messages until the first error.  The locale states the one
  contract that everything about whole sessions rests on: a step keeps the
  invariant whenever the message is admissible in the current state.
\<close>

fun drive :: "('m \<Rightarrow> 'b \<Rightarrow> ('e + unit) \<times> 'b) \<Rightarrow> 'm list \<Rightarrow> 'b \<Rightarrow> ('e + unit) \<times> 'b" where
  "drive f [] b = (Inr (), b)"
| "drive f (m # ms) b =
    (case f m b of (Inl e, b') \<Rightarrow> (Inl e, b') | (Inr _, b') \<Rightarrow> drive f ms b')"

fun admissible_run :: "('m \<Rightarrow> 'b \<Rightarrow> bool) \<Rightarrow> ('m \<Rightarrow> 'b \<Rightarrow> ('e + unit) \<times> 'b) \<Rightarrow> 'm list \<Rightarrow> 'b \<Rightarrow> bool" where
  "admissible_run adm f [] b = True"
| "admissible_run adm f (m # ms) b = (adm m b \<and> admissible_run adm f ms (snd (f m b)))"

locale book_machine =
  fixes step :: "'m \<Rightarrow> 'b \<Rightarrow> ('e + unit) \<times> 'b"
    and inv :: "'b \<Rightarrow> bool"
    and adm :: "'m \<Rightarrow> 'b \<Rightarrow> bool"
  assumes step_inv: "inv b \<Longrightarrow> adm m b \<Longrightarrow> inv (snd (step m b))"
begin

lemma drive_inv: "inv b \<Longrightarrow> admissible_run adm step ms b \<Longrightarrow> inv (snd (drive step ms b))"
  by (induction ms arbitrary: b) (auto simp: step_inv split: prod.split sum.split dest: step_inv)

end

interpretation l2_book: book_machine L2Book_apply l2_ok l2_admissible
  by unfold_locales (rule l2_ok_apply)

interpretation l2_tight_book: book_machine L2Book_apply "\<lambda>b. l2_ok b \<and> l2_tight b"
  "\<lambda>m b. l2_admissible m b \<and> positive_shares m"
  by unfold_locales (simp add: l2_ok_apply l2_tight_apply)

section \<open>Best prices\<close>

lemma btree_last_max:
  assumes "btree_ok m" "m \<noteq> []"
  shows "map_of m (fst (last m)) = Some (snd (last m))"
proof -
  have "distinct (map fst m)"
    using assms(1) by (simp add: btree_ok_def strict_sorted_iff)
  then show ?thesis using assms(2) by simp
qed

lemma rests_zero_iff:
  assumes "finite (dom os)" "\<And>r e. os r = Some e \<Longrightarrow> OrderEntry.shares e \<noteq> 0"
  shows "msum (rests_at s p) os = 0 \<longleftrightarrow>
    (\<forall>r e. os r = Some e \<longrightarrow> \<not> (OrderEntry.side e = s \<and> OrderEntry.price e = p))"
  using assms by (auto simp: msum_eq_0 rests_at_def unat_eq_0)

lemma level_present_iff:
  assumes "l2_ok self" "l2_tight self"
  shows "p \<in> fst ` set (L2Book_ladder self s) \<longleftrightarrow>
    (\<exists>r e. L2Book.orders self r = Some e \<and> OrderEntry.side e = s \<and> OrderEntry.price e = p)"
proof -
  have "p \<in> fst ` set (L2Book_ladder self s) \<longleftrightarrow> map_of (L2Book_ladder self s) p \<noteq> None"
    by (simp add: map_of_eq_None_iff)
  also have "\<dots> \<longleftrightarrow> level_at (L2Book_ladder self s) p \<noteq> 0"
    using assms(2) by (auto simp: level_at_def l2_tight_def unat_pos_iff split: option.split)
  also have "\<dots> \<longleftrightarrow> msum (rests_at s p) (L2Book.orders self) \<noteq> 0"
    using assms(1) by (simp add: l2_ok_def)
  also have "\<dots> \<longleftrightarrow> (\<exists>r e. L2Book.orders self r = Some e \<and> OrderEntry.side e = s \<and> OrderEntry.price e = p)"
    using assms by (subst rests_zero_iff) (auto simp: l2_ok_def l2_tight_def)
  finally show ?thesis .
qed

lemma best_bid_spec:
  assumes "l2_ok self" "l2_tight self"
  shows "case L2Book_best_bid self of
      None \<Rightarrow> \<nexists>r e. L2Book.orders self r = Some e \<and> OrderEntry.side e = Side.Buy
    | Some (p, n) \<Rightarrow> 0 < unat n \<and> unat n = msum (rests_at Side.Buy p) (L2Book.orders self)
        \<and> (\<forall>r e. L2Book.orders self r = Some e \<longrightarrow> OrderEntry.side e = Side.Buy \<longrightarrow> OrderEntry.price e \<le> p)"
proof (cases "L2Book.bids self = []")
  case True
  with level_present_iff [OF assms, of _ Side.Buy] show ?thesis
    by (auto simp: L2Book_best_bid_def L2Book_ladder_def)
next
  case False
  obtain p n where l: "last (L2Book.bids self) = (p, n)" by fastforce
  have ok: "btree_ok (L2Book.bids self)"
    using assms(1) by (auto simp: l2_ok_def L2Book_ladder_def dest: spec [of _ Side.Buy])
  have at: "map_of (L2Book.bids self) p = Some n" using btree_last_max [OF ok False] l by simp
  have "unat n = msum (rests_at Side.Buy p) (L2Book.orders self)"
    using assms(1) at by (auto simp: l2_ok_def L2Book_ladder_def level_at_def
        dest!: spec [of _ Side.Buy] spec [of _ p])
  moreover have "0 < unat n"
    using assms(2) at by (auto simp: l2_tight_def L2Book_ladder_def unat_pos_iff
        dest!: spec [of _ Side.Buy] spec [of _ p])
  moreover have "OrderEntry.price e \<le> p"
    if "L2Book.orders self r = Some e" "OrderEntry.side e = Side.Buy" for r e
  proof -
    have "OrderEntry.price e \<in> fst ` set (L2Book.bids self)"
      using level_present_iff [OF assms, of "OrderEntry.price e" Side.Buy] that
      by (auto simp: L2Book_ladder_def)
    then obtain v where "map_of (L2Book.bids self) (OrderEntry.price e) = Some v"
      by (metis map_of_eq_None_iff not_Some_eq)
    from map_of_btree_last [OF ok False this] l show ?thesis by simp
  qed
  ultimately show ?thesis using False l by (auto simp: L2Book_best_bid_def)
qed

lemma best_ask_spec:
  assumes "l2_ok self" "l2_tight self"
  shows "case L2Book_best_ask self of
      None \<Rightarrow> \<nexists>r e. L2Book.orders self r = Some e \<and> OrderEntry.side e = Side.Sell
    | Some (p, n) \<Rightarrow> 0 < unat n \<and> unat n = msum (rests_at Side.Sell p) (L2Book.orders self)
        \<and> (\<forall>r e. L2Book.orders self r = Some e \<longrightarrow> OrderEntry.side e = Side.Sell \<longrightarrow> p \<le> OrderEntry.price e)"
proof (cases "L2Book.asks self")
  case Nil
  with level_present_iff [OF assms, of _ Side.Sell] show ?thesis
    by (auto simp: L2Book_best_ask_def L2Book_ladder_def)
next
  case (Cons l ls)
  obtain p n where l: "l = (p, n)" by fastforce
  have ok: "btree_ok ((p, n) # ls)"
    using assms(1) Cons l by (auto simp: l2_ok_def L2Book_ladder_def dest: spec [of _ Side.Sell])
  have at: "map_of (L2Book.asks self) p = Some n" using Cons l by simp
  have "unat n = msum (rests_at Side.Sell p) (L2Book.orders self)"
    using assms(1) at by (auto simp: l2_ok_def L2Book_ladder_def level_at_def
        dest!: spec [of _ Side.Sell] spec [of _ p])
  moreover have "0 < unat n"
    using assms(2) at by (auto simp: l2_tight_def L2Book_ladder_def unat_pos_iff
        dest!: spec [of _ Side.Sell] spec [of _ p])
  moreover have "p \<le> OrderEntry.price e"
    if "L2Book.orders self r = Some e" "OrderEntry.side e = Side.Sell" for r e
  proof -
    have "OrderEntry.price e \<in> fst ` set ((p, n) # ls)"
      using level_present_iff [OF assms, of "OrderEntry.price e" Side.Sell] that Cons l
      by (auto simp: L2Book_ladder_def)
    then obtain v where "map_of ((p, n) # ls) (OrderEntry.price e) = Some v"
      by (metis map_of_eq_None_iff not_Some_eq)
    from map_of_btree_first [OF ok this] show ?thesis .
  qed
  ultimately show ?thesis using Cons l by (auto simp: L2Book_best_ask_def)
qed

section \<open>Properties\<close>

definition sample_exec :: "u32 \<Rightarrow> Message" where
  "sample_exec n = OrderExecuted \<lparr>OrderExecuted.header = \<lparr>Header.stock_locate = StockLocate 7,
       Header.tracking_number = TrackingNumber 0, Header.timestamp = Timestamp 34200000000001\<rparr>,
     OrderExecuted.order_ref = OrderReference 1001, OrderExecuted.executed_shares = Shares n,
     OrderExecuted.match_number = MatchNumber 1\<rparr>"

definition sample_book :: L2Book where
  "sample_book = snd (drive L2Book_apply [sample_add, sample_exec 100] (L2Book_new (StockLocate 7)))"

lemmas sample_defs = sample_add_def sample_exec_def L2Book_new_def L2Book_add_order_def
  L2Book_execute_def L2Book_on_side_def L2Book_raise_level_def L2Book_reduce_level_def
  saturating_add_def saturating_sub_def btree_remove_def Let_def

lemma sample_run_admissible:
  "admissible_run (\<lambda>m b. l2_admissible m b \<and> positive_shares m) L2Book_apply
     [sample_add, sample_exec 100] (L2Book_new (StockLocate 7))"
  by (simp add: sample_defs l2_admissible_def room_def)

lemma sample_book_eq: "sample_book = \<lparr>L2Book.stock_locate = StockLocate 7, L2Book.bids = [],
    L2Book.asks = [(Price4 1500000, 200)],
    L2Book.orders = [OrderReference 1001 \<mapsto> \<lparr>OrderEntry.price = Price4 1500000,
      OrderEntry.shares = 200, OrderEntry.side = Side.Sell,
      OrderEntry.stock_locate = StockLocate 7\<rparr>]\<rparr>"
  by (simp add: sample_book_def sample_defs)

text \<open>C4: After any session of admissible messages the price ladders agree with the order
  index: on each side and at each price, the level holds exactly the sum of the remaining
  shares of the open orders that rest there.\<close>

theorem l2_levels_match_orders:
  assumes "admissible_run l2_admissible L2Book_apply msgs (L2Book_new locate)"
    "self = snd (drive L2Book_apply msgs (L2Book_new locate))"
  shows "level_at (L2Book_ladder self s) p = msum (rests_at s p) (L2Book.orders self)"
  using l2_book.drive_inv [OF l2_ok_new assms(1)] assms(2) by (simp add: l2_ok_def)

theorem l2_levels_match_orders_witness:
  "level_at (L2Book_ladder sample_book Side.Sell) (Price4 1500000)
    = msum (rests_at Side.Sell (Price4 1500000)) (L2Book.orders sample_book)
   \<and> level_at (L2Book_ladder sample_book Side.Sell) (Price4 1500000) = 200"
proof -
  have "admissible_run l2_admissible L2Book_apply [sample_add, sample_exec 100]
      (L2Book_new (StockLocate 7))"
    using sample_run_admissible by simp
  from l2_levels_match_orders [OF this sample_book_def, of Side.Sell "Price4 1500000"] show ?thesis
    by (simp add: sample_book_eq L2Book_ladder_def level_at_def)
qed

text \<open>With positive quantities the reported best prices are the true ones: \<open>best_bid\<close> is
  \<open>None\<close> exactly when no buy order is open, and otherwise gives the highest price of an open
  buy order with the positive total of the shares resting there; \<open>best_ask\<close> is the dual.\<close>

lemma l2_best_prices:
  assumes "admissible_run (\<lambda>m b. l2_admissible m b \<and> positive_shares m) L2Book_apply msgs
      (L2Book_new locate)"
    "self = snd (drive L2Book_apply msgs (L2Book_new locate))"
  shows "(case L2Book_best_bid self of
      None \<Rightarrow> \<nexists>r e. L2Book.orders self r = Some e \<and> OrderEntry.side e = Side.Buy
    | Some (p, n) \<Rightarrow> 0 < unat n \<and> unat n = msum (rests_at Side.Buy p) (L2Book.orders self)
        \<and> (\<forall>r e. L2Book.orders self r = Some e \<longrightarrow> OrderEntry.side e = Side.Buy
             \<longrightarrow> OrderEntry.price e \<le> p))
    \<and> (case L2Book_best_ask self of
      None \<Rightarrow> \<nexists>r e. L2Book.orders self r = Some e \<and> OrderEntry.side e = Side.Sell
    | Some (p, n) \<Rightarrow> 0 < unat n \<and> unat n = msum (rests_at Side.Sell p) (L2Book.orders self)
        \<and> (\<forall>r e. L2Book.orders self r = Some e \<longrightarrow> OrderEntry.side e = Side.Sell
             \<longrightarrow> p \<le> OrderEntry.price e))"
  using l2_tight_book.drive_inv [OF _ assms(1)] assms(2) l2_ok_new l2_tight_new
    best_bid_spec best_ask_spec by blast

text \<open>\<open>L2Book::apply\<close> fails exactly when an execution or cancel takes more shares than the
  resting order has, the error reports the order, the shares asked for and the shares left,
  and the book is unchanged.\<close>

lemma l2_apply_errors:
  "(fst (L2Book_apply m self) = Inl e \<longleftrightarrow>
      (\<exists>r n entry. reduction m = Some (r, n) \<and> L2Book.orders self r = Some entry
        \<and> OrderEntry.shares entry < n \<and> e = OverExecution r n (OrderEntry.shares entry)))
   \<and> (fst (L2Book_apply m self) = Inl e \<longrightarrow> snd (L2Book_apply m self) = self)"
  using l2_apply_Inl l2_apply_Inl_state by blast

text \<open>A message that does not concern the book, an add for another symbol or a reference
  to an order that is not in its index, succeeds and changes nothing, so a book may be driven
  by the feed of all symbols.\<close>

lemma l2_foreign_noop:
  assumes "\<not> concerns m (L2Book.stock_locate self) (L2Book.orders self)"
  shows "L2Book_apply m self = (Inr (), self)"
  using assms by (rule l2_apply_foreign)

end
