(* ===== verification/Itch_Book_L3.thy ===== *)
theory Itch_Book_L3
  imports Itch_Book_L2
begin

text \<open>
  The per-order book with FIFO queues (\<open>itch-book/src/l3.rs\<close>).  A queue is the
  list of its references from front to back.  The invariant \<open>l3_ok\<close> says that
  the queues are exactly the open orders of the index, grouped by side and
  price and ordered by arrival; the abstraction \<open>l3_orders\<close> forgets attribution
  and arrival, and relates every successful step to the step of the price-level
  book on the same message.
\<close>

section \<open>Definitions\<close>

type_synonym queues = "(Price4, OrderReference list) btree"

record L3OrderEntry =
  price :: Price4
  shares :: u32
  side :: Side
  stock_locate :: StockLocate
  mpid :: "Mpid option"
  arrival_seq :: u64

record L3Book =
  stock_locate :: StockLocate
  bids :: queues
  asks :: queues
  orders :: "OrderReference \<rightharpoonup> L3OrderEntry"
  arrival_seq :: u64

definition L3Book_new :: "StockLocate \<Rightarrow> L3Book" where
  "L3Book_new locate =
    \<lparr>L3Book.stock_locate = locate, L3Book.bids = [], L3Book.asks = [],
     L3Book.orders = Map.empty, L3Book.arrival_seq = 0\<rparr>"

text \<open>\<open>match side { Buy => self.bids, Sell => self.asks }\<close>, shared and mutable.\<close>

definition L3Book_queues :: "L3Book \<Rightarrow> Side \<Rightarrow> queues" where
  "L3Book_queues self s = (case s of Side.Buy \<Rightarrow> L3Book.bids self | Side.Sell \<Rightarrow> L3Book.asks self)"

definition L3Book_on_side :: "(queues \<Rightarrow> queues) \<Rightarrow> Side \<Rightarrow> L3Book \<Rightarrow> L3Book" where
  "L3Book_on_side f s self = (case s of
      Side.Buy \<Rightarrow> self\<lparr>L3Book.bids := f (L3Book.bids self)\<rparr>
    | Side.Sell \<Rightarrow> self\<lparr>L3Book.asks := f (L3Book.asks self)\<rparr>)"

abbreviation L3Book_order_count :: "L3Book \<Rightarrow> nat" where
  "L3Book_order_count self \<equiv> card (dom (L3Book.orders self))"

definition L3Book_levels_count :: "L3Book \<Rightarrow> Side \<Rightarrow> nat" where
  "L3Book_levels_count self s = length (L3Book_queues self s)"

abbreviation L3Book_order :: "L3Book \<Rightarrow> OrderReference \<Rightarrow> L3OrderEntry option" where
  "L3Book_order self oref \<equiv> L3Book.orders self oref"

fun position :: "('a \<Rightarrow> bool) \<Rightarrow> 'a list \<Rightarrow> nat option" where
  "position f [] = None"
| "position f (x # xs) = (if f x then Some 0 else map_option Suc (position f xs))"

definition L3Book_queue_position :: "L3Book \<Rightarrow> OrderReference \<Rightarrow> nat option" where
  "L3Book_queue_position self oref =
    (case L3Book.orders self oref of
      None \<Rightarrow> None
    | Some entry \<Rightarrow>
        (case map_of (L3Book_queues self (L3OrderEntry.side entry)) (L3OrderEntry.price entry) of
          None \<Rightarrow> None
        | Some queue \<Rightarrow> position (\<lambda>r. r = oref) queue))"

definition L3Book_level_orders :: "L3Book \<Rightarrow> Side \<Rightarrow> Price4 \<Rightarrow> L3OrderEntry list" where
  "L3Book_level_orders self s p =
    (case map_of (L3Book_queues self s) p of
      Some q \<Rightarrow> List.map_filter (L3Book.orders self) q
    | None \<Rightarrow> [])"

definition L3Book_remove_from_queue :: "Side \<Rightarrow> Price4 \<Rightarrow> OrderReference \<Rightarrow> L3Book \<Rightarrow> L3Book" where
  "L3Book_remove_from_queue s p oref self =
    L3Book_on_side (\<lambda>levels.
      case map_of levels p of
        None \<Rightarrow> levels
      | Some queue \<Rightarrow>
          let queue = remove1 oref queue in
          if queue = [] then btree_remove p levels else btree_insert p queue levels) s self"

definition L3Book_insert_order ::
  "OrderReference \<Rightarrow> Side \<Rightarrow> u32 \<Rightarrow> Price4 \<Rightarrow> Mpid option \<Rightarrow> L3Book \<Rightarrow> L3Book" where
  "L3Book_insert_order oref s n p attribution' self =
    (let self = self\<lparr>L3Book.arrival_seq := L3Book.arrival_seq self + 1\<rparr>;
         self = self\<lparr>L3Book.orders := (L3Book.orders self)(oref \<mapsto>
           \<lparr>L3OrderEntry.price = p, L3OrderEntry.shares = n, L3OrderEntry.side = s,
            L3OrderEntry.stock_locate = L3Book.stock_locate self,
            L3OrderEntry.mpid = attribution',
            L3OrderEntry.arrival_seq = L3Book.arrival_seq self\<rparr>)\<rparr>
     in L3Book_on_side (\<lambda>levels.
          let queue = (case map_of levels p of None \<Rightarrow> [] | Some queue \<Rightarrow> queue)
          in btree_insert p (queue @ [oref]) levels) s self)"

definition L3Book_execute :: "OrderReference \<Rightarrow> u32 \<Rightarrow> L3Book \<Rightarrow> book_result \<times> L3Book" where
  "L3Book_execute oref n self =
    (case L3Book.orders self oref of
      None \<Rightarrow> (Inr (), self)
    | Some entry \<Rightarrow>
        if n > L3OrderEntry.shares entry then
          (Inl (OverExecution oref n (L3OrderEntry.shares entry)), self)
        else
          let entry = entry\<lparr>L3OrderEntry.shares := L3OrderEntry.shares entry - n\<rparr>;
              self = self\<lparr>L3Book.orders := (L3Book.orders self)(oref \<mapsto> entry)\<rparr>;
              exhausted = (L3OrderEntry.shares entry = 0);
              p = L3OrderEntry.price entry;
              s = L3OrderEntry.side entry
          in if exhausted then
            (case map_of (L3Book_queues self s) p of
              None \<Rightarrow> (Inr (), self\<lparr>L3Book.orders := (L3Book.orders self)(oref := None)\<rparr>)
            | Some [] \<Rightarrow> (Inr (), self\<lparr>L3Book.orders := (L3Book.orders self)(oref := None)\<rparr>)
            | Some (front # rest) \<Rightarrow>
                if front = oref then
                  let self = L3Book_on_side (\<lambda>levels.
                        if rest = [] then btree_remove p levels else btree_insert p rest levels) s self
                  in (Inr (), self\<lparr>L3Book.orders := (L3Book.orders self)(oref := None)\<rparr>)
                else (Inl (FifoViolation oref front), self))
          else (Inr (), self))"

definition L3Book_cancel :: "OrderReference \<Rightarrow> u32 \<Rightarrow> L3Book \<Rightarrow> book_result \<times> L3Book" where
  "L3Book_cancel oref n self =
    (case L3Book.orders self oref of
      None \<Rightarrow> (Inr (), self)
    | Some entry \<Rightarrow>
        if n > L3OrderEntry.shares entry then
          (Inl (OverExecution oref n (L3OrderEntry.shares entry)), self)
        else
          let entry = entry\<lparr>L3OrderEntry.shares := L3OrderEntry.shares entry - n\<rparr>;
              self = self\<lparr>L3Book.orders := (L3Book.orders self)(oref \<mapsto> entry)\<rparr>
          in if L3OrderEntry.shares entry = 0 then
            let self = L3Book_remove_from_queue (L3OrderEntry.side entry)
                  (L3OrderEntry.price entry) oref self
            in (Inr (), self\<lparr>L3Book.orders := (L3Book.orders self)(oref := None)\<rparr>)
          else (Inr (), self))"

definition L3Book_delete :: "OrderReference \<Rightarrow> L3Book \<Rightarrow> L3Book" where
  "L3Book_delete oref self =
    (case L3Book.orders self oref of
      None \<Rightarrow> self
    | Some entry \<Rightarrow>
        let self = self\<lparr>L3Book.orders := (L3Book.orders self)(oref := None)\<rparr>
        in L3Book_remove_from_queue (L3OrderEntry.side entry) (L3OrderEntry.price entry) oref self)"

definition L3Book_replace ::
  "OrderReference \<Rightarrow> OrderReference \<Rightarrow> u32 \<Rightarrow> Price4 \<Rightarrow> L3Book \<Rightarrow> book_result \<times> L3Book" where
  "L3Book_replace original_ref new_ref new_shares new_price self =
    (case L3Book.orders self original_ref of
      None \<Rightarrow> (Inr (), self)
    | Some original \<Rightarrow>
        let self = self\<lparr>L3Book.orders := (L3Book.orders self)(original_ref := None)\<rparr>;
            self = L3Book_remove_from_queue (L3OrderEntry.side original)
              (L3OrderEntry.price original) original_ref self
        in (Inr (), L3Book_insert_order new_ref (L3OrderEntry.side original) new_shares new_price
              (L3OrderEntry.mpid original) self))"

fun L3Book_apply :: "Message \<Rightarrow> L3Book \<Rightarrow> book_result \<times> L3Book" where
  "L3Book_apply (AddOrder m) self =
    (if Header.stock_locate (AddOrder.header m) \<noteq> L3Book.stock_locate self then (Inr (), self)
     else (Inr (), L3Book_insert_order (AddOrder.order_ref m) (AddOrder.side m)
             (Shares.as_u32 (AddOrder.shares m)) (AddOrder.price m) None self))"
| "L3Book_apply (AddOrderWithMpid m) self =
    (if Header.stock_locate (AddOrderWithMpid.header m) \<noteq> L3Book.stock_locate self
     then (Inr (), self)
     else (Inr (), L3Book_insert_order (AddOrderWithMpid.order_ref m) (AddOrderWithMpid.side m)
             (Shares.as_u32 (AddOrderWithMpid.shares m)) (AddOrderWithMpid.price m)
             (Some (AddOrderWithMpid.attribution m)) self))"
| "L3Book_apply (OrderExecuted m) self =
    L3Book_execute (OrderExecuted.order_ref m) (Shares.as_u32 (OrderExecuted.executed_shares m)) self"
| "L3Book_apply (OrderExecutedWithPrice m) self =
    L3Book_execute (OrderExecutedWithPrice.order_ref m)
      (Shares.as_u32 (OrderExecutedWithPrice.executed_shares m)) self"
| "L3Book_apply (OrderCancel m) self =
    L3Book_cancel (OrderCancel.order_ref m) (Shares.as_u32 (OrderCancel.cancelled_shares m)) self"
| "L3Book_apply (OrderDelete m) self = (Inr (), L3Book_delete (OrderDelete.order_ref m) self)"
| "L3Book_apply (OrderReplace m) self =
    L3Book_replace (OrderReplace.original_order_ref m) (OrderReplace.new_order_ref m)
      (Shares.as_u32 (OrderReplace.shares m)) (OrderReplace.price m) self"
| "L3Book_apply (SystemEvent _) self = (Inr (), self)"
| "L3Book_apply (StockDirectory _) self = (Inr (), self)"
| "L3Book_apply (StockTradingAction _) self = (Inr (), self)"
| "L3Book_apply (RegShoRestriction _) self = (Inr (), self)"
| "L3Book_apply (MarketParticipantPosition _) self = (Inr (), self)"
| "L3Book_apply (MwcbDeclineLevel _) self = (Inr (), self)"
| "L3Book_apply (MwcbStatus _) self = (Inr (), self)"
| "L3Book_apply (IpoQuotingPeriodUpdate _) self = (Inr (), self)"
| "L3Book_apply (TradeNonCross _) self = (Inr (), self)"
| "L3Book_apply (CrossTrade _) self = (Inr (), self)"
| "L3Book_apply (BrokenTrade _) self = (Inr (), self)"
| "L3Book_apply (Noii _) self = (Inr (), self)"
| "L3Book_apply (RetailPriceImprovement _) self = (Inr (), self)"




section \<open>The invariant\<close>

definition q_at :: "queues \<Rightarrow> Price4 \<Rightarrow> OrderReference list" where
  "q_at levels p = (case map_of levels p of None \<Rightarrow> [] | Some q \<Rightarrow> q)"

definition resting_refs ::
  "(OrderReference \<rightharpoonup> L3OrderEntry) \<Rightarrow> Side \<Rightarrow> Price4 \<Rightarrow> OrderReference set" where
  "resting_refs os s p =
    {r. \<exists>e. os r = Some e \<and> L3OrderEntry.side e = s \<and> L3OrderEntry.price e = p}"

definition arrival :: "(OrderReference \<rightharpoonup> L3OrderEntry) \<Rightarrow> OrderReference \<Rightarrow> nat" where
  "arrival os r = (case os r of None \<Rightarrow> 0 | Some e \<Rightarrow> unat (L3OrderEntry.arrival_seq e))"

definition fifo :: "(OrderReference \<rightharpoonup> L3OrderEntry) \<Rightarrow> OrderReference list \<Rightarrow> bool" where
  "fifo os q = sorted_wrt (\<lambda>a b. arrival os a < arrival os b) q"

definition l3_ok :: "L3Book \<Rightarrow> bool" where
  "l3_ok self \<longleftrightarrow> finite (dom (L3Book.orders self))
    \<and> (\<forall>s. btree_ok (L3Book_queues self s))
    \<and> (\<forall>s p. map_of (L3Book_queues self s) p \<noteq> Some [])
    \<and> (\<forall>s p. set (q_at (L3Book_queues self s) p) = resting_refs (L3Book.orders self) s p)
    \<and> (\<forall>s p. fifo (L3Book.orders self) (q_at (L3Book_queues self s) p))
    \<and> (\<forall>r. arrival (L3Book.orders self) r \<le> unat (L3Book.arrival_seq self))"

text \<open>A new reference is unused and the arrival counter is not exhausted.\<close>

definition l3_admissible :: "Message \<Rightarrow> L3Book \<Rightarrow> bool" where
  "l3_admissible m self =
    (fresh_ref m (L3Book.orders self) \<and> unat (L3Book.arrival_seq self) < 2 ^ 64 - 1)"

section \<open>Queues\<close>

definition set_queue :: "Price4 \<Rightarrow> OrderReference list \<Rightarrow> queues \<Rightarrow> queues" where
  "set_queue p q levels = (if q = [] then btree_remove p levels else btree_insert p q levels)"

lemma set_queue_simps [simp]:
  "btree_ok l \<Longrightarrow> btree_ok (set_queue p q l)"
  "btree_ok l \<Longrightarrow> q_at (set_queue p q l) p' = (if p' = p then q else q_at l p')"
  "btree_ok l \<Longrightarrow> \<forall>p. map_of l p \<noteq> Some [] \<Longrightarrow> map_of (set_queue p q l) p' \<noteq> Some []"
  by (auto simp: set_queue_def q_at_def omap_simps)

lemma on_side3_simps [simp]:
  "L3Book.orders (L3Book_on_side f s self) = L3Book.orders self"
  "L3Book.stock_locate (L3Book_on_side f s self) = L3Book.stock_locate self"
  "L3Book.arrival_seq (L3Book_on_side f s self) = L3Book.arrival_seq self"
  "L3Book_queues (L3Book_on_side f s self) s' =
    (if s' = s then f (L3Book_queues self s) else L3Book_queues self s')"
  "L3Book_queues (self\<lparr>L3Book.orders := os\<rparr>) s = L3Book_queues self s"
  "L3Book_queues (self\<lparr>L3Book.arrival_seq := n\<rparr>) s = L3Book_queues self s"
  by (simp_all add: L3Book_on_side_def L3Book_queues_def split: Side.split)

lemma on_side3_orders_commute:
  "L3Book_on_side f s self\<lparr>L3Book.orders := os\<rparr> = L3Book_on_side f s (self\<lparr>L3Book.orders := os\<rparr>)"
  by (simp add: L3Book_on_side_def split: Side.split)

lemma on_side3_cong:
  "f (L3Book_queues self s) = g (L3Book_queues self s) \<Longrightarrow> L3Book_on_side f s self = L3Book_on_side g s self"
  by (simp add: L3Book_on_side_def L3Book_queues_def split: Side.splits)

lemma sorted_wrt_irrefl_distinct: "(\<And>x. \<not> P x x) \<Longrightarrow> sorted_wrt P xs \<Longrightarrow> distinct xs"
  by (induction xs) auto

lemma fifo_distinct: "fifo os q \<Longrightarrow> distinct q"
  unfolding fifo_def by (rule sorted_wrt_irrefl_distinct) auto

lemma l3_ok_distinct: "l3_ok self \<Longrightarrow> distinct (q_at (L3Book_queues self s) p)"
  by (rule fifo_distinct [of "L3Book.orders self"]) (simp add: l3_ok_def)

lemma l3_queue_refs:
  "l3_ok self \<Longrightarrow> set (q_at (L3Book_queues self s) p) = resting_refs (L3Book.orders self) s p"
  by (simp add: l3_ok_def)

lemma l3_order_queued:
  assumes "l3_ok self" "L3Book.orders self r = Some e"
  shows "r \<in> set (q_at (L3Book_queues self (L3OrderEntry.side e)) (L3OrderEntry.price e))"
  using assms by (auto simp: l3_queue_refs resting_refs_def)

lemma fifo_cong: "(\<And>r. r \<in> set q \<Longrightarrow> arrival os r = arrival os' r) \<Longrightarrow> fifo os q = fifo os' q"
  by (induction q) (auto simp: fifo_def)

lemma fifo_upd: "r \<notin> set q \<Longrightarrow> fifo (os(r := x)) q = fifo os q"
  by (rule fifo_cong) (auto simp: arrival_def)

lemma fifo_remove1: "fifo os q \<Longrightarrow> fifo os (remove1 r q)"
proof (induction q)
  case (Cons a q)
  then show ?case using set_remove1_subset [of r q] by (auto simp: fifo_def)
qed simp

lemma fifo_snoc:
  "fifo os q \<Longrightarrow> (\<And>r'. r' \<in> set q \<Longrightarrow> arrival os r' < arrival os r) \<Longrightarrow> fifo os (q @ [r])"
  by (auto simp: fifo_def sorted_wrt_append)

lemma resting_refs_remove: "resting_refs (os(r := None)) s p = resting_refs os s p - {r}"
  by (auto simp: resting_refs_def)

lemma arrival_remove_le: "arrival (os(r := None)) r' \<le> arrival os r'"
  by (simp add: arrival_def)

section \<open>Every operation keeps the invariant\<close>

lemma l3_ok_new: "l3_ok (L3Book_new locate)"
  by (auto simp: l3_ok_def L3Book_new_def L3Book_queues_def q_at_def resting_refs_def arrival_def
      fifo_def split: Side.split)

text \<open>Changing only the number of shares of an order.\<close>

lemma l3_ok_set_shares:
  assumes "l3_ok self" "L3Book.orders self r = Some e"
  shows "l3_ok (self\<lparr>L3Book.orders := (L3Book.orders self)(r \<mapsto> e\<lparr>L3OrderEntry.shares := n\<rparr>)\<rparr>)"
proof -
  let ?os = "(L3Book.orders self)(r \<mapsto> e\<lparr>L3OrderEntry.shares := n\<rparr>)"
  have "arrival ?os = arrival (L3Book.orders self)"
    using assms(2) by (auto simp: fun_eq_iff arrival_def)
  moreover have "resting_refs ?os = resting_refs (L3Book.orders self)"
    using assms(2) by (auto simp: fun_eq_iff resting_refs_def)
  ultimately show ?thesis using assms(1) by (simp add: l3_ok_def fifo_def)
qed

lemma l3_delete_eq:
  assumes "l3_ok self" "L3Book.orders self r = Some e"
  shows "L3Book_delete r self = L3Book_on_side
    (\<lambda>l. set_queue (L3OrderEntry.price e) (remove1 r (q_at l (L3OrderEntry.price e))) l)
    (L3OrderEntry.side e) (self\<lparr>L3Book.orders := (L3Book.orders self)(r := None)\<rparr>)"
proof -
  obtain q where "map_of (L3Book_queues self (L3OrderEntry.side e)) (L3OrderEntry.price e) = Some q"
    using l3_order_queued [OF assms]
    by (cases "map_of (L3Book_queues self (L3OrderEntry.side e)) (L3OrderEntry.price e)")
      (auto simp: q_at_def)
  then show ?thesis
    using assms(2)
    by (auto simp: L3Book_delete_def L3Book_remove_from_queue_def set_queue_def q_at_def Let_def
        intro!: on_side3_cong)
qed

lemma l3_ok_delete:
  assumes "l3_ok self"
  shows "l3_ok (L3Book_delete r self)"
proof (cases "L3Book.orders self r")
  case None
  with assms show ?thesis by (simp add: L3Book_delete_def)
next
  case (Some e)
  let ?os = "L3Book.orders self" and ?os' = "(L3Book.orders self)(r := None)"
  let ?s = "L3OrderEntry.side e" and ?p = "L3OrderEntry.price e"
  let ?q = "\<lambda>s p. q_at (L3Book_queues self s) p"
  have refs: "set (?q s p) = resting_refs ?os s p" for s p
    using assms by (rule l3_queue_refs)
  have other: "r \<notin> resting_refs ?os s p" if "\<not> (s = ?s \<and> p = ?p)" for s p
    using that Some by (auto simp: resting_refs_def)
  have ff: "fifo ?os (?q s p)" for s p using assms by (simp add: l3_ok_def)
  have here: "set (remove1 r (?q ?s ?p)) = resting_refs ?os' ?s ?p" "fifo ?os' (remove1 r (?q ?s ?p))"
    using l3_ok_distinct [OF assms, of ?s ?p] fifo_remove1 [OF ff, of r ?s ?p]
    by (simp_all add: refs resting_refs_remove fifo_upd)
  have away: "set (?q s p) = resting_refs ?os' s p" "fifo ?os' (?q s p)"
    if "\<not> (s = ?s \<and> p = ?p)" for s p
    using other [OF that] ff by (simp_all add: refs resting_refs_remove fifo_upd)
  have le: "arrival ?os' r' \<le> unat (L3Book.arrival_seq self)" for r'
    using assms arrival_remove_le [of ?os r r'] order_trans unfolding l3_ok_def by blast
  show ?thesis
    using assms here away le unfolding l3_delete_eq [OF assms Some] by (simp add: l3_ok_def)
qed

lemma l3_ok_insert_order:
  assumes "l3_ok self" "r \<notin> dom (L3Book.orders self)"
    "unat (L3Book.arrival_seq self) < 2 ^ 64 - 1"
  shows "l3_ok (L3Book_insert_order r s n p a self)"
proof -
  let ?os = "L3Book.orders self" and ?n' = "L3Book.arrival_seq self + 1"
  let ?os' = "?os(r \<mapsto> \<lparr>L3OrderEntry.price = p, L3OrderEntry.shares = n, L3OrderEntry.side = s,
      L3OrderEntry.stock_locate = L3Book.stock_locate self, L3OrderEntry.mpid = a,
      L3OrderEntry.arrival_seq = ?n'\<rparr>)"
  let ?q = "\<lambda>s p. q_at (L3Book_queues self s) p"
  have n': "unat ?n' = unat (L3Book.arrival_seq self) + 1"
    using assms(3) by (simp add: unat_word_ariths)
  have refs: "set (?q s' p') = resting_refs ?os s' p'" for s' p'
    using assms(1) by (rule l3_queue_refs)
  have fresh: "r \<notin> set (?q s' p')" for s' p'
    using assms(2) unfolding refs by (auto simp: resting_refs_def)
  have refs': "resting_refs ?os' s' p' = resting_refs ?os s' p' \<union> (if s' = s \<and> p' = p then {r} else {})"
    for s' p'
    using assms(2) by (auto simp: resting_refs_def)
  have old: "arrival ?os r' \<le> unat (L3Book.arrival_seq self)" for r'
    using assms(1) by (simp add: l3_ok_def)
  have arr: "arrival ?os' r' = (if r' = r then unat ?n' else arrival ?os r')" for r'
    by (simp add: arrival_def)
  have ff: "fifo ?os' (?q s' p')" for s' p'
    using assms(1) fresh by (simp add: l3_ok_def fifo_upd)
  have "fifo ?os' (?q s p @ [r])"
    by (rule fifo_snoc [OF ff]) (use old fresh n' in \<open>auto simp: arr less_Suc_eq_le\<close>)
  moreover have "L3Book_insert_order r s n p a self = L3Book_on_side
      (\<lambda>l. set_queue p (q_at l p @ [r]) l) s (self\<lparr>L3Book.arrival_seq := ?n', L3Book.orders := ?os'\<rparr>)"
    by (simp add: L3Book_insert_order_def set_queue_def q_at_def Let_def)
  moreover have "arrival ?os' r' \<le> unat ?n'" for r'
    using old [of r'] n' by (auto simp: arr)
  ultimately show ?thesis
    using assms(1) ff refs by (simp add: l3_ok_def refs')
qed

lemma l3_execute_cases:
  assumes "l3_ok self" "L3Book.orders self r = Some e"
  shows "L3Book_execute r n self =
    (let q = q_at (L3Book_queues self (L3OrderEntry.side e)) (L3OrderEntry.price e);
         left = self\<lparr>L3Book.orders := (L3Book.orders self)
           (r \<mapsto> e\<lparr>L3OrderEntry.shares := L3OrderEntry.shares e - n\<rparr>)\<rparr> in
     if n > L3OrderEntry.shares e then (Inl (OverExecution r n (L3OrderEntry.shares e)), self)
     else if n \<noteq> L3OrderEntry.shares e then (Inr (), left)
     else if hd q = r then (Inr (), L3Book_delete r self)
     else (Inl (FifoViolation r (hd q)), left))"
proof -
  let ?l = "L3Book_queues self (L3OrderEntry.side e)" and ?p = "L3OrderEntry.price e"
  obtain f rest where q: "map_of ?l ?p = Some (f # rest)"
    using l3_order_queued [OF assms]
    by (cases "map_of ?l ?p"; cases "q_at ?l ?p") (auto simp: q_at_def)
  show ?thesis
    unfolding l3_delete_eq [OF assms]
    using assms(2) q
    by (auto simp: L3Book_execute_def Let_def q_at_def set_queue_def on_side3_orders_commute
        intro!: on_side3_cong)
qed

lemma l3_ok_execute: "l3_ok self \<Longrightarrow> l3_ok (snd (L3Book_execute r n self))"
proof (cases "L3Book.orders self r")
  case (Some e)
  assume ok: "l3_ok self"
  from l3_ok_set_shares [OF ok Some] l3_ok_delete [OF ok] ok show ?thesis
    by (auto simp: l3_execute_cases [OF ok Some] Let_def)
qed (simp add: L3Book_execute_def)

lemma l3_cancel_cases:
  assumes "L3Book.orders self r = Some e"
  shows "L3Book_cancel r n self =
    (if n > L3OrderEntry.shares e then (Inl (OverExecution r n (L3OrderEntry.shares e)), self)
     else if n = L3OrderEntry.shares e then (Inr (), L3Book_delete r self)
     else (Inr (), self\<lparr>L3Book.orders := (L3Book.orders self)
           (r \<mapsto> e\<lparr>L3OrderEntry.shares := L3OrderEntry.shares e - n\<rparr>)\<rparr>))"
  using assms by (auto simp: L3Book_cancel_def L3Book_delete_def L3Book_remove_from_queue_def Let_def
      on_side3_orders_commute)

lemma l3_ok_cancel: "l3_ok self \<Longrightarrow> l3_ok (snd (L3Book_cancel r n self))"
proof (cases "L3Book.orders self r")
  case (Some e)
  assume ok: "l3_ok self"
  from l3_ok_set_shares [OF ok Some] l3_ok_delete [OF ok] ok show ?thesis
    by (auto simp: l3_cancel_cases [OF Some])
qed (simp add: L3Book_cancel_def)

lemma l3_replace_eq:
  assumes "L3Book.orders self r = Some e"
  shows "L3Book_replace r new n p self = (Inr (), L3Book_insert_order new (L3OrderEntry.side e) n p
    (L3OrderEntry.mpid e) (L3Book_delete r self))"
  using assms by (simp add: L3Book_replace_def L3Book_delete_def Let_def)

lemma l3_delete_simps [simp]:
  "L3Book.orders (L3Book_delete r self) = (L3Book.orders self)(r := None)"
  "L3Book.arrival_seq (L3Book_delete r self) = L3Book.arrival_seq self"
  "L3Book.stock_locate (L3Book_delete r self) = L3Book.stock_locate self"
  by (auto simp: L3Book_delete_def L3Book_remove_from_queue_def Let_def split: option.split)

lemma l3_ok_replace:
  assumes "l3_ok self" "new \<notin> dom (L3Book.orders self) - {r}"
    "unat (L3Book.arrival_seq self) < 2 ^ 64 - 1"
  shows "l3_ok (snd (L3Book_replace r new n p self))"
proof (cases "L3Book.orders self r")
  case (Some e)
  with assms l3_ok_delete [OF assms(1), of r] show ?thesis
    by (auto simp: l3_replace_eq intro!: l3_ok_insert_order split: if_splits)
qed (use assms in \<open>simp add: L3Book_replace_def\<close>)

lemma l3_ok_apply: "l3_ok self \<Longrightarrow> l3_admissible m self \<Longrightarrow> l3_ok (snd (L3Book_apply m self))"
  by (cases m) (simp_all add: l3_admissible_def l3_ok_insert_order l3_ok_execute l3_ok_cancel
      l3_ok_delete l3_ok_replace)

interpretation l3_book: book_machine L3Book_apply l3_ok l3_admissible
  by unfold_locales (rule l3_ok_apply)

section \<open>The per-order book refines the price-level book\<close>

definition l3_entry :: "L3OrderEntry \<Rightarrow> OrderEntry" where
  "l3_entry e = \<lparr>OrderEntry.price = L3OrderEntry.price e, OrderEntry.shares = L3OrderEntry.shares e,
     OrderEntry.side = L3OrderEntry.side e, OrderEntry.stock_locate = L3OrderEntry.stock_locate e\<rparr>"

definition l3_orders :: "L3Book \<Rightarrow> OrderReference \<rightharpoonup> OrderEntry" where
  "l3_orders b3 = (\<lambda>r. map_option l3_entry (L3Book.orders b3 r))"

definition l23 :: "L2Book \<Rightarrow> L3Book \<Rightarrow> bool" where
  "l23 b2 b3 \<longleftrightarrow> L2Book.stock_locate b2 = L3Book.stock_locate b3 \<and> L2Book.orders b2 = l3_orders b3"

lemma l23_new: "l23 (L2Book_new locate) (L3Book_new locate)"
  by (simp add: l23_def L2Book_new_def L3Book_new_def l3_orders_def)

lemma l3_entry_sel [simp]:
  "OrderEntry.price (l3_entry e) = L3OrderEntry.price e"
  "OrderEntry.shares (l3_entry e) = L3OrderEntry.shares e"
  "OrderEntry.side (l3_entry e) = L3OrderEntry.side e"
  by (simp_all add: l3_entry_def)

lemma l3_orders_upd:
  "l3_orders (self\<lparr>L3Book.orders := (L3Book.orders self)(r := x)\<rparr>)
    = (l3_orders self)(r := map_option l3_entry x)"
  by (auto simp: l3_orders_def fun_eq_iff)

lemma l3_orders_delete: "l3_orders (L3Book_delete r self) = (l3_orders self)(r := None)"
  by (auto simp: l3_orders_def fun_eq_iff)

lemma l3_insert_simps:
  "L3Book.stock_locate (L3Book_insert_order r s n p a self) = L3Book.stock_locate self"
  "l3_orders (L3Book_insert_order r s n p a self) = (l3_orders self)(r \<mapsto>
     \<lparr>OrderEntry.price = p, OrderEntry.shares = n, OrderEntry.side = s,
      OrderEntry.stock_locate = L3Book.stock_locate self\<rparr>)"
  by (auto simp: L3Book_insert_order_def Let_def l3_orders_def l3_entry_def fun_eq_iff)

lemma l2_op_simps:
  "L2Book.stock_locate (L2Book_add_order r s n p b2) = L2Book.stock_locate b2"
  "L2Book.stock_locate (L2Book_delete r b2) = L2Book.stock_locate b2"
  by (auto simp: L2Book_add_order_def L2Book_delete_def Let_def split: option.split)

lemma l23_insert:
  "l23 b2 b3 \<Longrightarrow> l23 (L2Book_add_order r s n p b2) (L3Book_insert_order r s n p a b3)"
  by (simp add: l23_def add_order_orders l2_op_simps l3_insert_simps)

lemma l23_delete: "l23 b2 b3 \<Longrightarrow> l23 (L2Book_delete r b2) (L3Book_delete r b3)"
  by (simp add: l23_def delete_orders l2_op_simps l3_orders_delete)

lemma l23_Some: "l23 b2 b3 \<Longrightarrow> L2Book.orders b2 r = map_option l3_entry (L3Book.orders b3 r)"
  by (simp add: l23_def l3_orders_def)

text \<open>What one message does to the two books that agree before it.\<close>

definition l23_step :: "book_result \<times> L2Book \<Rightarrow> book_result \<times> L3Book \<Rightarrow> L2Book \<Rightarrow> L3Book \<Rightarrow> bool" where
  "l23_step o2 o3 b2 b3 =
    (case fst o3 of
      Inr _ \<Rightarrow> fst o2 = Inr () \<and> l23 (snd o2) (snd o3)
    | Inl (FifoViolation r f) \<Rightarrow> fst o2 = Inr () \<and> L2Book.orders (snd o2) r = None
        \<and> (\<exists>e. L3Book.orders (snd o3) r = Some e \<and> L3OrderEntry.shares e = 0)
    | Inl err \<Rightarrow> fst o2 = Inl err \<and> snd o2 = b2 \<and> snd o3 = b3)"

lemma l23_part:
  assumes "l23 b2 b3" "L3Book.orders b3 r = Some e" "\<not> n > L3OrderEntry.shares e"
    "n \<noteq> L3OrderEntry.shares e"
  shows "fst (L2Book_execute r n b2) = Inr () \<and> l23 (snd (L2Book_execute r n b2))
    (b3\<lparr>L3Book.orders := (L3Book.orders b3)
       (r \<mapsto> e\<lparr>L3OrderEntry.shares := L3OrderEntry.shares e - n\<rparr>)\<rparr>)"
  using assms l23_Some [OF assms(1), of r]
  by (auto simp: l23_def L2Book_execute_def Let_def l3_orders_upd l3_entry_def)

lemma l23_execute_step:
  assumes "l3_ok b3" "l23 b2 b3"
  shows "l23_step (L2Book_execute r n b2) (L3Book_execute r n b3) b2 b3"
proof (cases "L3Book.orders b3 r")
  case None
  with assms l23_Some [OF assms(2), of r] show ?thesis
    by (simp add: l23_step_def L2Book_execute_def L3Book_execute_def)
next
  case (Some e)
  have o2: "L2Book.orders b2 r = Some (l3_entry e)" using l23_Some [OF assms(2), of r] Some by simp
  consider "n > L3OrderEntry.shares e" | "n \<noteq> L3OrderEntry.shares e" "\<not> n > L3OrderEntry.shares e"
    | "n = L3OrderEntry.shares e" by blast
  then show ?thesis
  proof cases
    case 1
    with o2 Some show ?thesis
      by (simp add: l23_step_def l3_execute_cases [OF assms(1) Some] L2Book_execute_def)
  next
    case 2
    with l23_part [OF assms(2) Some] show ?thesis
      by (simp add: l23_step_def l3_execute_cases [OF assms(1) Some] Let_def)
  next
    case 3
    with execute_exhausts [OF o2, of n] l23_delete [OF assms(2), of r] show ?thesis
      by (simp add: l23_step_def l3_execute_cases [OF assms(1) Some] Let_def delete_orders)
  qed
qed

lemma l23_cancel_step:
  assumes "l23 b2 b3"
  shows "l23_step (L2Book_execute r n b2) (L3Book_cancel r n b3) b2 b3"
proof (cases "L3Book.orders b3 r")
  case None
  with assms l23_Some [OF assms, of r] show ?thesis
    by (simp add: l23_step_def L2Book_execute_def L3Book_cancel_def)
next
  case (Some e)
  have o2: "L2Book.orders b2 r = Some (l3_entry e)" using l23_Some [OF assms, of r] Some by simp
  consider "n > L3OrderEntry.shares e" | "n \<noteq> L3OrderEntry.shares e" "\<not> n > L3OrderEntry.shares e"
    | "n = L3OrderEntry.shares e" by blast
  then show ?thesis
    using o2 l23_part [OF assms Some] execute_exhausts [OF o2, of n] l23_delete [OF assms, of r]
    by cases (simp_all add: l23_step_def l3_cancel_cases [OF Some] L2Book_execute_def)
qed

lemma l23_replace_step:
  assumes "l23 b2 b3"
  shows "l23_step (L2Book_replace r new n p b2) (L3Book_replace r new n p b3) b2 b3"
proof (cases "L3Book.orders b3 r")
  case None
  with assms l23_Some [OF assms, of r] show ?thesis
    by (simp add: l23_step_def L2Book_replace_def L3Book_replace_def)
next
  case (Some e)
  have o2: "L2Book.orders b2 r = Some (l3_entry e)" using l23_Some [OF assms, of r] Some by simp
  show ?thesis
    using l23_insert [OF l23_delete [OF assms]]
    by (simp add: l23_step_def l3_replace_eq [OF Some] replace_eq [OF o2])
qed

lemma l23_apply_step:
  assumes "l3_ok b3" "l23 b2 b3"
  shows "l23_step (L2Book_apply m b2) (L3Book_apply m b3) b2 b3"
  using assms l23_execute_step [OF assms] l23_cancel_step [OF assms(2)] l23_replace_step [OF assms(2)]
    l23_insert [OF assms(2)] l23_delete [OF assms(2)]
  by (cases m) (simp_all add: l23_step_def l23_def [of b2 b3])

section \<open>Levels as sums over queues\<close>

lemma level_orders_eq:
  assumes "l3_ok self"
  shows "L3Book_level_orders self s p
    = map (\<lambda>r. the (L3Book.orders self r)) (q_at (L3Book_queues self s) p)"
proof -
  have "List.map_filter (L3Book.orders self) q = map (\<lambda>r. the (L3Book.orders self r)) q"
    if "\<forall>r \<in> set q. L3Book.orders self r \<noteq> None" for q
    using that by (induction q) (auto simp: List.map_filter_def)
  moreover have "\<forall>r \<in> set (q_at (L3Book_queues self s) p). L3Book.orders self r \<noteq> None"
    using l3_queue_refs [OF assms, of s p] by (auto simp: resting_refs_def)
  ultimately show ?thesis
    by (auto simp: L3Book_level_orders_def q_at_def split: option.splits)
qed

lemma rests_at_l3:
  "L3Book.orders self r = Some e \<Longrightarrow> rests_at s p (the (l3_orders self r))
    = (if r \<in> resting_refs (L3Book.orders self) s p then unat (L3OrderEntry.shares e) else 0)"
  by (simp add: l3_orders_def rests_at_def resting_refs_def)

lemma msum_l3_orders:
  assumes "l3_ok self"
  shows "msum (rests_at s p) (l3_orders self)
    = sum_list (map (\<lambda>e. unat (L3OrderEntry.shares e)) (L3Book_level_orders self s p))"
proof -
  let ?os = "L3Book.orders self" and ?q = "q_at (L3Book_queues self s) p"
  have dom: "dom (l3_orders self) = dom ?os" by (auto simp: l3_orders_def)
  let ?n = "\<lambda>r. unat (L3OrderEntry.shares (the (?os r)))"
  have at: "rests_at s p (the (l3_orders self r)) = (if r \<in> set ?q then ?n r else 0)"
    if "r \<in> dom ?os" for r
    using that rests_at_l3 [of self r _ s p] by (clarsimp simp: l3_queue_refs [OF assms])
  have "msum (rests_at s p) (l3_orders self) = (\<Sum>r \<in> dom ?os. if r \<in> set ?q then ?n r else 0)"
    unfolding msum_def dom by (rule sum.cong) (simp_all only: at)
  also have "\<dots> = (\<Sum>r \<in> dom ?os \<inter> set ?q. ?n r)"
    using assms by (intro sum.inter_restrict [symmetric]) (simp add: l3_ok_def)
  also have "dom ?os \<inter> set ?q = set ?q"
    unfolding l3_queue_refs [OF assms] by (auto simp: resting_refs_def)
  also have "(\<Sum>r \<in> set ?q. ?n r) = sum_list (map ?n ?q)"
    using l3_ok_distinct [OF assms] by (simp add: sum_list_distinct_conv_sum_set)
  finally show ?thesis by (simp add: level_orders_eq [OF assms] o_def)
qed

lemma fresh_ref_dom: "dom os = dom os' \<Longrightarrow> fresh_ref m os = fresh_ref m os'"
  by (cases m) simp_all

definition l23_admissible :: "Message \<Rightarrow> L3Book \<Rightarrow> bool" where
  "l23_admissible m b3 = (l3_admissible m b3 \<and> room (L3Book.orders b3))"

lemma l23_admissible_l2: "l23 b2 b3 \<Longrightarrow> l23_admissible m b3 \<Longrightarrow> l2_admissible m b2"
proof -
  assume r: "l23 b2 b3" and a: "l23_admissible m b3"
  have "dom (L2Book.orders b2) = dom (L3Book.orders b3)"
    using r by (auto simp: l23_def l3_orders_def)
  then show ?thesis
    using a fresh_ref_dom [of "L2Book.orders b2" "L3Book.orders b3" m] by (auto simp: l2_admissible_def l23_admissible_def l3_admissible_def room_def)
qed

lemma l23_drive:
  assumes "l3_ok b3" "l2_ok b2" "l23 b2 b3" "admissible_run l23_admissible L3Book_apply ms b3"
    "fst (drive L3Book_apply ms b3) = Inr ()"
  shows "fst (drive L2Book_apply ms b2) = Inr ()
    \<and> l23 (snd (drive L2Book_apply ms b2)) (snd (drive L3Book_apply ms b3))
    \<and> l2_ok (snd (drive L2Book_apply ms b2)) \<and> l3_ok (snd (drive L3Book_apply ms b3))"
  using assms
proof (induction ms arbitrary: b2 b3)
  case (Cons m ms)
  obtain o3 b3' where s3: "L3Book_apply m b3 = (o3, b3')" by fastforce
  obtain o2 b2' where s2: "L2Book_apply m b2 = (o2, b2')" by fastforce
  have o3: "o3 = Inr ()" using Cons.prems(5) s3 by (cases o3) auto
  have "l23_step (o2, b2') (o3, b3') b2 b3" using l23_apply_step [OF Cons.prems(1,3), of m] s2 s3 by simp
  then have o2: "o2 = Inr ()" and r: "l23 b2' b3'" by (simp_all add: l23_step_def o3)
  have "l3_ok b3'" using l3_ok_apply [OF Cons.prems(1), of m] Cons.prems(4) s3
    by (simp add: l23_admissible_def)
  moreover have "l2_ok b2'" using l2_ok_apply [OF Cons.prems(2), of m] s2
      l23_admissible_l2 [OF Cons.prems(3), of m] Cons.prems(4) by simp
  ultimately show ?case using Cons.IH [of b3' b2'] r Cons.prems(4,5) by (simp add: s2 s3 o2 o3)
qed simp

section \<open>Re-deriving the price-level book\<close>











section \<open>Queue priority\<close>

lemma l3_reduce_keeps_queues:
  assumes "l3_ok self" "L3Book.orders self r = Some e" "n < L3OrderEntry.shares e"
  shows "L3Book_queues (snd (L3Book_execute r n self)) = L3Book_queues self"
    "L3Book_queues (snd (L3Book_cancel r n self)) = L3Book_queues self"
  using assms(3)
  by (auto simp: l3_execute_cases [OF assms(1,2)] l3_cancel_cases [OF assms(2)] Let_def fun_eq_iff)

lemma position_append_fresh: "x \<notin> set xs \<Longrightarrow> position (\<lambda>y. y = x) (xs @ [x]) = Some (length xs)"
  by (induction xs) auto

lemma l3_insert_queue:
  "l3_ok self \<Longrightarrow> q_at (L3Book_queues (L3Book_insert_order r s n p a self) s') p'
    = q_at (L3Book_queues self s') p' @ (if s' = s \<and> p' = p then [r] else [])"
  by (auto simp: L3Book_insert_order_def Let_def q_at_def omap_simps l3_ok_def split: option.split)

lemma fifo_arrival_seq:
  "fifo os q \<Longrightarrow> \<forall>r \<in> set q. os r \<noteq> None \<Longrightarrow>
    sorted_wrt (\<lambda>e e'. L3OrderEntry.arrival_seq e < L3OrderEntry.arrival_seq e') (map (\<lambda>r. the (os r)) q)"
  by (induction q) (force simp: fifo_def arrival_def word_less_nat_alt)+

section \<open>Properties\<close>

text \<open>C6: After any session of admissible messages the queues of the per-order book are
  exactly its open orders: a queue holds every open order of its side and price once, from
  the oldest arrival to the newest, and no empty level is kept.\<close>

theorem l3_queues_fifo:
  assumes "admissible_run l3_admissible L3Book_apply msgs (L3Book_new locate)"
    "self = snd (drive L3Book_apply msgs (L3Book_new locate))"
  shows "set (q_at (L3Book_queues self s) p)
      = {r. \<exists>e. L3Book.orders self r = Some e \<and> L3OrderEntry.side e = s \<and> L3OrderEntry.price e = p}
    \<and> distinct (q_at (L3Book_queues self s) p)
    \<and> sorted_wrt (\<lambda>e e'. L3OrderEntry.arrival_seq e < L3OrderEntry.arrival_seq e')
        (L3Book_level_orders self s p)
    \<and> map_of (L3Book_queues self s) p \<noteq> Some []"
proof -
  have ok: "l3_ok self" using l3_book.drive_inv [OF l3_ok_new assms(1)] assms(2) by simp
  let ?q = "q_at (L3Book_queues self s) p"
  have "fifo (L3Book.orders self) ?q" using ok by (simp add: l3_ok_def)
  moreover have "\<forall>r \<in> set ?q. L3Book.orders self r \<noteq> None"
    using l3_queue_refs [OF ok, of s p] by (auto simp: resting_refs_def)
  ultimately have "sorted_wrt (\<lambda>e e'. L3OrderEntry.arrival_seq e < L3OrderEntry.arrival_seq e')
      (L3Book_level_orders self s p)"
    unfolding level_orders_eq [OF ok] by (rule fifo_arrival_seq)
  then show ?thesis
    using ok l3_ok_distinct [OF ok, of s p] l3_queue_refs [OF ok, of s p]
    by (simp add: resting_refs_def l3_ok_def)
qed

lemmas sample3_defs = sample_add_def sample_exec_def L3Book_new_def L3Book_insert_order_def
  L3Book_execute_def L3Book_on_side_def L3Book_queues_def btree_remove_def Let_def

definition sample_book3 :: L3Book where
  "sample_book3 = snd (drive L3Book_apply [sample_add, sample_exec 100] (L3Book_new (StockLocate 7)))"

lemma sample_run3_admissible:
  "admissible_run l23_admissible L3Book_apply [sample_add, sample_exec 100]
     (L3Book_new (StockLocate 7))"
  by (simp add: sample3_defs l23_admissible_def l3_admissible_def room_def)

lemma admissible_run_mono:
  "(\<And>m b. adm m b \<Longrightarrow> adm' m b) \<Longrightarrow> admissible_run adm f ms b \<Longrightarrow> admissible_run adm' f ms b"
  by (induction ms arbitrary: b) auto

lemma sample_book3_eq: "sample_book3 = \<lparr>L3Book.stock_locate = StockLocate 7, L3Book.bids = [],
    L3Book.asks = [(Price4 1500000, [OrderReference 1001])],
    L3Book.orders = [OrderReference 1001 \<mapsto> \<lparr>L3OrderEntry.price = Price4 1500000,
      L3OrderEntry.shares = 200, L3OrderEntry.side = Side.Sell,
      L3OrderEntry.stock_locate = StockLocate 7, L3OrderEntry.mpid = None,
      L3OrderEntry.arrival_seq = 1\<rparr>], L3Book.arrival_seq = 1\<rparr>"
  by (simp add: sample_book3_def sample3_defs)

theorem l3_queues_fifo_witness:
  "distinct (q_at (L3Book_queues sample_book3 Side.Sell) (Price4 1500000))
    \<and> q_at (L3Book_queues sample_book3 Side.Sell) (Price4 1500000) = [OrderReference 1001]"
proof -
  have "admissible_run l3_admissible L3Book_apply [sample_add, sample_exec 100]
      (L3Book_new (StockLocate 7))"
    by (rule admissible_run_mono [OF _ sample_run3_admissible]) (simp add: l23_admissible_def)
  from l3_queues_fifo [OF this sample_book3_def, of Side.Sell "Price4 1500000"] show ?thesis
    by (simp add: sample_book3_eq L3Book_queues_def q_at_def)
qed

text \<open>C5: The per-order book refines the price-level book.  If a session of admissible
  messages runs through the per-order book without error, the price-level book also runs
  through it without error, ends with the same open orders, and holds at every side and
  price the sum of the remaining shares of the orders queued there.\<close>

theorem l3_refines_l2:
  assumes "admissible_run l23_admissible L3Book_apply msgs (L3Book_new locate)"
    "drive L3Book_apply msgs (L3Book_new locate) = (Inr (), b3)"
  shows "\<exists>b2. drive L2Book_apply msgs (L2Book_new locate) = (Inr (), b2)
    \<and> L2Book.orders b2 = l3_orders b3
    \<and> (\<forall>s p. level_at (L2Book_ladder b2 s) p
          = sum_list (map (\<lambda>e. unat (L3OrderEntry.shares e)) (L3Book_level_orders b3 s p)))"
proof -
  let ?d2 = "drive L2Book_apply msgs (L2Book_new locate)"
  have "fst ?d2 = Inr ()" "l23 (snd ?d2) b3" "l2_ok (snd ?d2)" "l3_ok b3"
    using l23_drive [OF l3_ok_new l2_ok_new l23_new assms(1)] assms(2) by simp_all
  then have "?d2 = (Inr (), snd ?d2) \<and> L2Book.orders (snd ?d2) = l3_orders b3
    \<and> (\<forall>s p. level_at (L2Book_ladder (snd ?d2) s) p
          = sum_list (map (\<lambda>e. unat (L3OrderEntry.shares e)) (L3Book_level_orders b3 s p)))"
    by (simp add: prod_eq_iff l23_def l2_ok_def msum_l3_orders)
  then show ?thesis by blast
qed

lemma sample_drive3: "drive L3Book_apply [sample_add, sample_exec 100] (L3Book_new (StockLocate 7))
    = (Inr (), sample_book3)"
  by (simp add: sample_book3_eq) (simp add: sample3_defs)

theorem l3_refines_l2_witness:
  "\<exists>b2. drive L2Book_apply [sample_add, sample_exec 100] (L2Book_new (StockLocate 7)) = (Inr (), b2)
    \<and> level_at (L2Book_ladder b2 Side.Sell) (Price4 1500000) = 200"
proof -
  have "sum_list (map (\<lambda>e. unat (L3OrderEntry.shares e))
      (L3Book_level_orders sample_book3 Side.Sell (Price4 1500000))) = 200"
    by (simp add: sample_book3_eq L3Book_level_orders_def L3Book_queues_def List.map_filter_def)
  with l3_refines_l2 [OF sample_run3_admissible sample_drive3] show ?thesis by auto
qed














text \<open>Queue priority.  A partial execution or cancel leaves every queue as it is; a replaced
  order loses its place and its replacement stands at the back of the queue of its new price.\<close>

lemma l3_queue_priority:
  assumes "l3_ok self" "L3Book.orders self r = Some e"
    "new \<notin> dom (L3Book.orders self) - {r}" "n < L3OrderEntry.shares e"
  shows "L3Book_queues (snd (L3Book_execute r n self)) = L3Book_queues self
    \<and> L3Book_queues (snd (L3Book_cancel r n self)) = L3Book_queues self
    \<and> q_at (L3Book_queues (snd (L3Book_replace r new m p self)) (L3OrderEntry.side e)) p
        = q_at (L3Book_queues (L3Book_delete r self) (L3OrderEntry.side e)) p @ [new]
    \<and> L3Book_queue_position (snd (L3Book_replace r new m p self)) new
        = Some (length (q_at (L3Book_queues (L3Book_delete r self) (L3OrderEntry.side e)) p))"
proof -
  let ?d = "L3Book_delete r self"
  have ok: "l3_ok ?d" using assms(1) by (rule l3_ok_delete)
  have rep: "snd (L3Book_replace r new m p self)
      = L3Book_insert_order new (L3OrderEntry.side e) m p (L3OrderEntry.mpid e) ?d"
    by (simp add: l3_replace_eq [OF assms(2)])
  let ?b = "L3Book_insert_order new (L3OrderEntry.side e) m p (L3OrderEntry.mpid e) ?d"
  have q: "q_at (L3Book_queues ?b (L3OrderEntry.side e)) p
      = q_at (L3Book_queues ?d (L3OrderEntry.side e)) p @ [new]"
    using l3_insert_queue [OF ok] by simp
  have "new \<notin> set (q_at (L3Book_queues ?d (L3OrderEntry.side e)) p)"
    unfolding l3_queue_refs [OF ok] using assms(3) by (auto simp: resting_refs_def)
  moreover have "map_of (L3Book_queues ?b (L3OrderEntry.side e)) p
      = Some (q_at (L3Book_queues ?d (L3OrderEntry.side e)) p @ [new])"
    using q by (auto simp: q_at_def split: option.splits)
  ultimately have "L3Book_queue_position ?b new
      = Some (length (q_at (L3Book_queues ?d (L3OrderEntry.side e)) p))"
    by (simp add: L3Book_queue_position_def L3Book_insert_order_def [of new] Let_def
        position_append_fresh)
  with q l3_reduce_keeps_queues [OF assms(1,2,4)] show ?thesis by (simp add: rep)
qed

end
