(* ===== verification/Itch_Book_Manager.thy ===== *)
theory Itch_Book_Manager
  imports Itch_Book_L3
begin

text \<open>
  The multi-symbol router (\<open>itch-book/src/manager.rs\<close>, with the default feature
  \<open>l3\<close>).  The results say that the router is nothing but a family of
  independent books: a message touches only the books of its own symbol, the
  book of a symbol is the one obtained by feeding it the messages of that symbol
  alone, and after an error-free session every pair of books of a symbol agrees.
\<close>

section \<open>Definitions\<close>

record BookManager =
  directory :: "StockLocate \<rightharpoonup> Stock"
  l2 :: "StockLocate \<rightharpoonup> L2Book"
  l3 :: "StockLocate \<rightharpoonup> L3Book"
  last_seq :: u64

definition BookManager_new :: BookManager where
  "BookManager_new = \<lparr>directory = Map.empty, l2 = Map.empty, l3 = Map.empty, last_seq = 0\<rparr>"

abbreviation locate_of :: "Message \<Rightarrow> StockLocate" where
  "locate_of m \<equiv> Header.stock_locate (Message_header m)"

text \<open>\<open>entry(locate).or_insert_with(new)\<close>.\<close>

definition or_insert_with :: "'v \<Rightarrow> 'v option \<Rightarrow> 'v" where
  "or_insert_with v x = (case x of None \<Rightarrow> v | Some w \<Rightarrow> w)"

definition BookManager_note :: "Message \<Rightarrow> BookManager \<Rightarrow> BookManager" where
  "BookManager_note m self =
    (let self = self\<lparr>last_seq := last_seq self + 1\<rparr> in
     case m of
       StockDirectory r \<Rightarrow> self\<lparr>directory := (directory self)
         (Header.stock_locate (StockDirectory.header r) \<mapsto> StockDirectory.stock r)\<rparr>
     | _ \<Rightarrow> self)"

definition BookManager_apply :: "Message \<Rightarrow> BookManager \<Rightarrow> book_result \<times> BookManager" where
  "BookManager_apply m self =
    (let self = BookManager_note m self;
         locate = locate_of m;
         (r2, b2) = L2Book_apply m (or_insert_with (L2Book_new locate) (l2 self locate));
         self = self\<lparr>l2 := (l2 self)(locate \<mapsto> b2)\<rparr> in
     case r2 of
       Inl e \<Rightarrow> (Inl e, self)
     | Inr _ \<Rightarrow>
         let (r3, b3) = L3Book_apply m (or_insert_with (L3Book_new locate) (l3 self locate));
             self = self\<lparr>l3 := (l3 self)(locate \<mapsto> b3)\<rparr>
         in (r3, self))"

fun BookManager_run :: "(ProtocolError + Message) list \<Rightarrow> BookManager \<Rightarrow> book_result \<times> BookManager" where
  "BookManager_run [] self = (Inr (), self)"
| "BookManager_run (Inl e # _) self = (Inl (Protocol e), self)"
| "BookManager_run (Inr m # ms) self =
    (case BookManager_apply m self of
      (Inl e, self') \<Rightarrow> (Inl e, self')
    | (Inr _, self') \<Rightarrow> BookManager_run ms self')"

section \<open>One message\<close>

lemma note_simps [simp]:
  "l2 (BookManager_note m self) = l2 self" "l3 (BookManager_note m self) = l3 self"
  "last_seq (BookManager_note m self) = last_seq self + 1"
  "loc \<noteq> locate_of m \<Longrightarrow> directory (BookManager_note m self) loc = directory self loc"
  by (cases m; simp add: BookManager_note_def Let_def)+

lemma apply_manager_l2:
  "l2 (snd (BookManager_apply m self)) = (l2 self)(locate_of m \<mapsto>
     snd (L2Book_apply m (or_insert_with (L2Book_new (locate_of m)) (l2 self (locate_of m)))))"
  by (auto simp: BookManager_apply_def Let_def split: prod.split sum.split)

lemma apply_manager_l3:
  "fst (BookManager_apply m self) = Inr () \<Longrightarrow> l3 (snd (BookManager_apply m self)) = (l3 self)(locate_of m \<mapsto>
     snd (L3Book_apply m (or_insert_with (L3Book_new (locate_of m)) (l3 self (locate_of m)))))"
  by (auto simp: BookManager_apply_def Let_def split: prod.splits sum.splits)

lemma apply_manager_l3_other:
  "loc \<noteq> locate_of m \<Longrightarrow> l3 (snd (BookManager_apply m self)) loc = l3 self loc"
  by (auto simp: BookManager_apply_def Let_def split: prod.splits sum.splits)

lemma apply_manager_rest:
  "last_seq (snd (BookManager_apply m self)) = last_seq self + 1"
  "loc \<noteq> locate_of m \<Longrightarrow> directory (snd (BookManager_apply m self)) loc = directory self loc"
  by (auto simp: BookManager_apply_def Let_def split: prod.splits sum.splits)

lemma apply_manager_Inr:
  "fst (BookManager_apply m self) = Inr () \<longleftrightarrow>
    fst (L2Book_apply m (or_insert_with (L2Book_new (locate_of m)) (l2 self (locate_of m)))) = Inr ()
    \<and> fst (L3Book_apply m (or_insert_with (L3Book_new (locate_of m)) (l3 self (locate_of m)))) = Inr ()"
  by (auto simp: BookManager_apply_def Let_def split: prod.splits sum.splits)

section \<open>Projection to one symbol\<close>

definition messages_of :: "StockLocate \<Rightarrow> Message list \<Rightarrow> Message list" where
  "messages_of loc ms = filter (\<lambda>m. locate_of m = loc) ms"




text \<open>An error-free session drives both books of every symbol without error.\<close>

definition settled :: "StockLocate \<Rightarrow> Message list \<Rightarrow> BookManager \<Rightarrow> bool" where
  "settled loc ms s \<longleftrightarrow>
    drive L2Book_apply (messages_of loc ms) (L2Book_new loc)
      = (Inr (), or_insert_with (L2Book_new loc) (l2 s loc))
    \<and> drive L3Book_apply (messages_of loc ms) (L3Book_new loc)
      = (Inr (), or_insert_with (L3Book_new loc) (l3 s loc))"

lemma drive_snoc:
  "drive f ms b = (Inr (), b') \<Longrightarrow> drive f (ms @ [m]) b = f m b'"
  by (induction ms arbitrary: b) (auto split: prod.splits sum.splits)

lemma drive_manager_snoc:
  "drive f (ms @ [m]) b = (Inr (), b'') \<Longrightarrow>
    \<exists>b'. drive f ms b = (Inr (), b') \<and> f m b' = (Inr (), b'')"
  by (induction ms arbitrary: b) (auto split: prod.splits sum.splits)

lemma manager_settled:
  "drive BookManager_apply ms BookManager_new = (Inr (), s) \<Longrightarrow> settled loc ms s"
proof (induction ms arbitrary: s rule: rev_induct)
  case Nil
  then show ?case by (auto simp: settled_def messages_of_def BookManager_new_def or_insert_with_def)
next
  case (snoc m ms)
  from drive_manager_snoc [OF snoc.prems]
  obtain t where t: "drive BookManager_apply ms BookManager_new = (Inr (), t)"
    and m: "BookManager_apply m t = (Inr (), s)"
    by blast
  have IH: "settled loc ms t" using snoc.IH [OF t] .
  have ok: "fst (BookManager_apply m t) = Inr ()" and s: "s = snd (BookManager_apply m t)"
    using m by simp_all
  show ?case
  proof (cases "locate_of m = loc")
    case True
    with IH ok show ?thesis
      by (auto simp: settled_def s messages_of_def drive_snoc apply_manager_Inr apply_manager_l2
          apply_manager_l3 [OF ok] prod_eq_iff or_insert_with_def [of _ "Some _"])
  next
    case False
    with IH show ?thesis
      by (simp add: settled_def s messages_of_def apply_manager_l2 apply_manager_l3_other)
  qed
qed

lemma run_as_drive: "BookManager_run (map Inr ms) self = drive BookManager_apply ms self"
  by (induction ms arbitrary: self) (auto split: prod.split sum.split)


section \<open>Properties\<close>

text \<open>A message touches only the books and the directory entry of its own symbol, and is
  counted exactly once, whether or not its application fails.\<close>

lemma manager_isolation:
  assumes "loc \<noteq> Header.stock_locate (Message_header m)"
  shows "l2 (snd (BookManager_apply m self)) loc = l2 self loc
    \<and> l3 (snd (BookManager_apply m self)) loc = l3 self loc
    \<and> directory (snd (BookManager_apply m self)) loc = directory self loc
    \<and> last_seq (snd (BookManager_apply m self)) = last_seq self + 1"
  using assms by (simp add: apply_manager_l2 apply_manager_l3_other apply_manager_rest)


text \<open>After an error-free session of messages admissible for their symbol, the two books
  of every symbol agree: each level of the price-level book is the sum of the remaining shares
  of the orders queued at that side and price in the per-order book.\<close>

lemma manager_books_agree:
  assumes "BookManager_run (map Inr ms) BookManager_new = (Inr (), s)"
    "admissible_run l23_admissible L3Book_apply
       (filter (\<lambda>m. Header.stock_locate (Message_header m) = loc) ms) (L3Book_new loc)"
    "l2 s loc = Some b2" "l3 s loc = Some b3"
  shows "level_at (L2Book_ladder b2 sd) p
    = sum_list (map (\<lambda>e. unat (L3OrderEntry.shares e)) (L3Book_level_orders b3 sd p))"
proof -
  have "settled loc ms s" using assms(1) by (simp add: run_as_drive manager_settled)
  then have d2: "drive L2Book_apply (messages_of loc ms) (L2Book_new loc) = (Inr (), b2)"
    and d3: "drive L3Book_apply (messages_of loc ms) (L3Book_new loc) = (Inr (), b3)"
    using assms(3,4) by (simp_all add: settled_def or_insert_with_def)
  with l23_drive [OF l3_ok_new l2_ok_new l23_new assms(2) [folded messages_of_def]]
  have "l23 b2 b3" "l2_ok b2" "l3_ok b3" by simp_all
  then show ?thesis by (simp add: l2_ok_def l23_def msum_l3_orders)
qed

end
