(* ===== verification/Itch_Ohlcv.thy ===== *)
theory Itch_Ohlcv
  imports Itch_Message_Codec
begin

text \<open>
  The per-symbol open/high/low/close/volume accumulator
  (\<open>itch-book/src/ohlcv.rs\<close>).  The reference description of a bar is computed
  from the list of the printable trades of its symbol; the main result is that
  the incremental accumulator computes it.
\<close>

section \<open>Definitions\<close>

record OhlcvBar =
  stock_locate :: StockLocate
  open_px :: Price4
  high :: Price4
  low :: Price4
  close :: Price4
  volume :: u64
  trade_count :: u64

record OhlcvAccumulator =
  per_symbol :: "StockLocate \<rightharpoonup> OhlcvBar"

definition OhlcvAccumulator_new :: OhlcvAccumulator where
  "OhlcvAccumulator_new = \<lparr>per_symbol = Map.empty\<rparr>"

abbreviation OhlcvAccumulator_len :: "OhlcvAccumulator \<Rightarrow> nat" where
  "OhlcvAccumulator_len self \<equiv> card (dom (per_symbol self))"

abbreviation OhlcvAccumulator_is_empty :: "OhlcvAccumulator \<Rightarrow> bool" where
  "OhlcvAccumulator_is_empty self \<equiv> (OhlcvAccumulator_len self = 0)"

abbreviation OhlcvAccumulator_bar :: "OhlcvAccumulator \<Rightarrow> StockLocate \<Rightarrow> OhlcvBar option" where
  "OhlcvAccumulator_bar self locate \<equiv> per_symbol self locate"

definition OhlcvAccumulator_apply_trade ::
  "StockLocate \<Rightarrow> Price4 \<Rightarrow> u64 \<Rightarrow> OhlcvAccumulator \<Rightarrow> OhlcvAccumulator" where
  "OhlcvAccumulator_apply_trade locate p n self =
    (let bar' = (case per_symbol self locate of
        Some bar \<Rightarrow>
          let bar = (if p > OhlcvBar.high bar then bar\<lparr>OhlcvBar.high := p\<rparr> else bar);
              bar = (if p < OhlcvBar.low bar then bar\<lparr>OhlcvBar.low := p\<rparr> else bar);
              bar = bar\<lparr>OhlcvBar.close := p\<rparr>;
              bar = bar\<lparr>OhlcvBar.volume := saturating_add (OhlcvBar.volume bar) n\<rparr>
          in bar\<lparr>OhlcvBar.trade_count := saturating_add (OhlcvBar.trade_count bar) 1\<rparr>
      | None \<Rightarrow>
          \<lparr>OhlcvBar.stock_locate = locate, OhlcvBar.open_px = p, OhlcvBar.high = p,
           OhlcvBar.low = p, OhlcvBar.close = p, OhlcvBar.volume = n, OhlcvBar.trade_count = 1\<rparr>)
     in self\<lparr>per_symbol := (per_symbol self)(locate \<mapsto> bar')\<rparr>)"

fun OhlcvAccumulator_apply :: "Message \<Rightarrow> OhlcvAccumulator \<Rightarrow> OhlcvAccumulator" where
  "OhlcvAccumulator_apply (TradeNonCross p) self =
    OhlcvAccumulator_apply_trade (Header.stock_locate (TradeNonCross.header p))
      (TradeNonCross.price p) (ucast (Shares.as_u32 (TradeNonCross.shares p))) self"
| "OhlcvAccumulator_apply (CrossTrade q) self =
    OhlcvAccumulator_apply_trade (Header.stock_locate (CrossTrade.header q))
      (CrossTrade.cross_price q) (CrossTrade.shares q) self"
| "OhlcvAccumulator_apply (OrderExecutedWithPrice c) self =
    (if OrderExecutedWithPrice.printable c = Printable then
       OhlcvAccumulator_apply_trade (Header.stock_locate (OrderExecutedWithPrice.header c))
         (OrderExecutedWithPrice.execution_price c)
         (ucast (Shares.as_u32 (OrderExecutedWithPrice.executed_shares c))) self
     else self)"
| "OhlcvAccumulator_apply (OrderExecuted _) self = self"
| "OhlcvAccumulator_apply (SystemEvent _) self = self"
| "OhlcvAccumulator_apply (StockDirectory _) self = self"
| "OhlcvAccumulator_apply (StockTradingAction _) self = self"
| "OhlcvAccumulator_apply (RegShoRestriction _) self = self"
| "OhlcvAccumulator_apply (MarketParticipantPosition _) self = self"
| "OhlcvAccumulator_apply (MwcbDeclineLevel _) self = self"
| "OhlcvAccumulator_apply (MwcbStatus _) self = self"
| "OhlcvAccumulator_apply (IpoQuotingPeriodUpdate _) self = self"
| "OhlcvAccumulator_apply (AddOrder _) self = self"
| "OhlcvAccumulator_apply (AddOrderWithMpid _) self = self"
| "OhlcvAccumulator_apply (OrderCancel _) self = self"
| "OhlcvAccumulator_apply (OrderDelete _) self = self"
| "OhlcvAccumulator_apply (OrderReplace _) self = self"
| "OhlcvAccumulator_apply (BrokenTrade _) self = self"
| "OhlcvAccumulator_apply (Noii _) self = self"
| "OhlcvAccumulator_apply (RetailPriceImprovement _) self = self"

section \<open>The reference bar\<close>

text \<open>The printable trade carried by a message, if any: symbol, price and shares.\<close>

fun print_of :: "Message \<Rightarrow> (StockLocate \<times> Price4 \<times> nat) option" where
  "print_of (TradeNonCross p) = Some (Header.stock_locate (TradeNonCross.header p),
     TradeNonCross.price p, unat (Shares.as_u32 (TradeNonCross.shares p)))"
| "print_of (CrossTrade q) = Some (Header.stock_locate (CrossTrade.header q),
     CrossTrade.cross_price q, unat (CrossTrade.shares q))"
| "print_of (OrderExecutedWithPrice c) =
    (if OrderExecutedWithPrice.printable c = Printable
     then Some (Header.stock_locate (OrderExecutedWithPrice.header c),
       OrderExecutedWithPrice.execution_price c,
       unat (Shares.as_u32 (OrderExecutedWithPrice.executed_shares c)))
     else None)"
| "print_of _ = None"

definition prints_for :: "StockLocate \<Rightarrow> Message list \<Rightarrow> (Price4 \<times> nat) list" where
  "prints_for locate ms =
    map snd (filter (\<lambda>t. fst t = locate) (List.map_filter print_of ms))"

definition cap :: "nat \<Rightarrow> u64" where
  "cap n = of_nat (min n (2 ^ 64 - 1))"

definition bar_of :: "StockLocate \<Rightarrow> (Price4 \<times> nat) list \<Rightarrow> OhlcvBar option" where
  "bar_of locate ts = (if ts = [] then None else Some
    \<lparr>OhlcvBar.stock_locate = locate, OhlcvBar.open_px = fst (hd ts),
     OhlcvBar.high = Max (fst ` set ts), OhlcvBar.low = Min (fst ` set ts),
     OhlcvBar.close = fst (last ts), OhlcvBar.volume = cap (sum_list (map snd ts)),
     OhlcvBar.trade_count = cap (length ts)\<rparr>)"

lemma cap_add: "saturating_add (cap a) n = cap (a + unat n)"
proof -
  have "unat (cap a) = min a (2 ^ 64 - 1)" "unat (cap (a + unat n)) = min (a + unat n) (2 ^ 64 - 1)"
    by (simp_all add: cap_def unat_of_nat min_def)
  then have "unat (saturating_add (cap a) n) = unat (cap (a + unat n))"
    by (auto simp: unat_saturating_add min_def)
  then show ?thesis by (simp add: word_unat_eq_iff)
qed

lemma cap_unat: "cap (unat n) = n"
proof -
  have "unat n < 2 ^ LENGTH(64)" by (rule unsigned_less)
  then show ?thesis by (simp add: cap_def min_def)
qed

section \<open>The accumulator computes the reference bar\<close>

lemma bar_of_snoc:
  assumes "per_symbol self locate = bar_of locate ts"
  shows "per_symbol (OhlcvAccumulator_apply_trade locate p n self) locate
    = bar_of locate (ts @ [(p, unat n)])"
proof (cases "ts = []")
  case True
  with assms show ?thesis
    using cap_unat [of n] cap_unat [of 1]
    by (simp add: OhlcvAccumulator_apply_trade_def bar_of_def Let_def)
next
  case False
  define hi lo where "hi = Max (fst ` set ts)" and "lo = Min (fst ` set ts)"
  have "Max (insert p (fst ` set ts)) = (if p > hi then p else hi)"
    "Min (insert p (fst ` set ts)) = (if p < lo then p else lo)"
    using False Max_insert [of "fst ` set ts" p] Min_insert [of "fst ` set ts" p]
    unfolding hi_def [symmetric] lo_def [symmetric] by (auto simp: max_def min_def)
  then show ?thesis
    using assms False cap_add [of "sum_list (map snd ts)" n] cap_add [of "length ts" 1]
    by (simp add: OhlcvAccumulator_apply_trade_def bar_of_def Let_def hi_def [symmetric]
        lo_def [symmetric])
qed

lemma apply_trade_other:
  "locate' \<noteq> locate \<Longrightarrow>
    per_symbol (OhlcvAccumulator_apply_trade locate p n self) locate' = per_symbol self locate'"
  by (simp add: OhlcvAccumulator_apply_trade_def Let_def)

lemma unat_ucast_shares: "unat (ucast (n :: u32) :: u64) = unat n"
proof -
  have "unat n < 2 ^ LENGTH(32)" by (rule unsigned_less)
  then show ?thesis by (simp add: unsigned_ucast_eq take_bit_nat_eq_self)
qed

lemma apply_as_print:
  "OhlcvAccumulator_apply m self = (case print_of m of
      None \<Rightarrow> self
    | Some (locate, p, n) \<Rightarrow> OhlcvAccumulator_apply_trade locate p (of_nat n) self)"
  by (cases m) (simp_all add: unat_ucast_shares [symmetric] del: unat_ucast_shares)

lemma print_of_shares: "print_of m = Some (locate, p, n) \<Longrightarrow> unat (of_nat n :: u64) = n"
  by (cases m) (auto simp: unat_ucast_shares [symmetric] simp del: unat_ucast_shares split: if_splits)

lemma prints_for_snoc:
  "prints_for locate (ms @ [m]) = prints_for locate ms @ (case print_of m of
      None \<Rightarrow> [] | Some (locate', t) \<Rightarrow> if locate' = locate then [t] else [])"
  by (auto simp: prints_for_def List.map_filter_def split: option.split)

lemma apply_refines:
  assumes "\<And>locate. per_symbol self locate = bar_of locate (prints_for locate ms)"
  shows "per_symbol (OhlcvAccumulator_apply m self) locate = bar_of locate (prints_for locate (ms @ [m]))"
proof (cases "print_of m")
  case None
  with assms show ?thesis by (simp add: apply_as_print prints_for_snoc)
next
  case (Some t)
  obtain locate' p n where t: "t = (locate', p, n)" by (cases t)
  show ?thesis
  proof (cases "locate' = locate")
    case True
    then show ?thesis
      using bar_of_snoc [OF assms, of locate p "of_nat n"] print_of_shares [OF Some [unfolded t]] Some
      by (simp add: apply_as_print prints_for_snoc t)
  next
    case False
    with Some assms show ?thesis by (simp add: apply_as_print prints_for_snoc t apply_trade_other)
  qed
qed

lemma fold_refines:
  "per_symbol (fold OhlcvAccumulator_apply ms OhlcvAccumulator_new) locate
    = bar_of locate (prints_for locate ms)"
proof (induction ms arbitrary: locate rule: rev_induct)
  case Nil
  show ?case by (simp add: OhlcvAccumulator_new_def bar_of_def prints_for_def List.map_filter_def)
next
  case (snoc m ms)
  from apply_refines [OF snoc.IH] show ?case by simp
qed

section \<open>Properties\<close>

text \<open>C10: After any message stream the bar of a symbol is the one computed from the list of
  its printable trades: absent when there is none, otherwise opening with the first price,
  closing with the last, with the greatest and least price as high and low, and with the
  total volume and the number of trades, both capped at the largest 64-bit value.\<close>

theorem ohlcv_matches_prints:
  "OhlcvAccumulator_bar (fold OhlcvAccumulator_apply ms OhlcvAccumulator_new) locate
    = (let ts = prints_for locate ms in
       if ts = [] then None else Some
        \<lparr>OhlcvBar.stock_locate = locate, OhlcvBar.open_px = fst (hd ts),
         OhlcvBar.high = Max (fst ` set ts), OhlcvBar.low = Min (fst ` set ts),
         OhlcvBar.close = fst (last ts), OhlcvBar.volume = of_nat (min (sum_list (map snd ts)) (2 ^ 64 - 1)),
         OhlcvBar.trade_count = of_nat (min (length ts) (2 ^ 64 - 1))\<rparr>)"
  by (simp add: fold_refines bar_of_def cap_def Let_def)

end
