(* ===== verification/Itch_Mold_Codec.thy ===== *)
theory Itch_Mold_Codec
  imports Itch_Message_Codec
begin

text \<open>
  The MoldUDP64 packet codec (\<open>itch-mold/src/codec.rs\<close>) with the errors of the
  crate (\<open>itch-mold/src/error.rs\<close>).  A packet is a 20-byte header followed by
  length-prefixed message blocks.  The reference description is again the
  layout \<open>MoldPacket_wire\<close>; the encoder writes it, the decoder accepts exactly
  the layouts of well-formed packets.
\<close>

section \<open>Errors\<close>

text \<open>Socket addresses are kept as their printed form, durations in nanoseconds.\<close>

datatype MoldError =
    Io string
  | Protocol ProtocolError
  | Truncated nat nat
  | BufferTooSmall nat nat
  | BlockTooLarge nat nat
  | EmptyBlock
  | TrailingBytes nat
  | TooManyBlocks nat
  | SessionMismatch bytes bytes
  | SessionTooLong nat
  | PendingBufferFull nat
  | GapTooLarge u64 nat
  | RequestTimeout string u64
  | SourceExhausted
  | PeerSilent nat

section \<open>Definitions\<close>

definition HEADER_LEN :: nat where "HEADER_LEN = 20"
abbreviation BLOCK_LEN_PREFIX :: nat where "BLOCK_LEN_PREFIX \<equiv> 2"
abbreviation MSG_COUNT_HEARTBEAT :: u16 where "MSG_COUNT_HEARTBEAT \<equiv> 0"
abbreviation MSG_COUNT_END_OF_SESSION :: u16 where "MSG_COUNT_END_OF_SESSION \<equiv> 0xFFFF"
definition MAX_BLOCK_LEN :: nat where "MAX_BLOCK_LEN = 1024"
abbreviation DEFAULT_PACKING_MTU :: nat where "DEFAULT_PACKING_MTU \<equiv> 1400"

lemmas mold_consts = HEADER_LEN_def MAX_BLOCK_LEN_def

record MoldPacketHeader =
  session :: bytes
  sequence :: u64
  message_count :: u16

record MessageBlock =
  data :: bytes

record MoldPacket =
  header :: MoldPacketHeader
  blocks :: "MessageBlock list"

definition MoldPacketHeader_to_bytes :: "MoldPacketHeader \<Rightarrow> bytes" where
  "MoldPacketHeader_to_bytes self =
    (let out = replicate HEADER_LEN 0;
         out = copy_from_slice out 0 (session self);
         out = copy_from_slice out 10 (to_be 8 (unat (sequence self)));
         out = copy_from_slice out 18 (to_be 2 (unat (message_count self)))
     in out)"

definition MoldPacketHeader_from_bytes :: "bytes \<Rightarrow> MoldError + MoldPacketHeader" where
  "MoldPacketHeader_from_bytes buf =
    (if length buf < HEADER_LEN then Inl (MoldError.Truncated HEADER_LEN (length buf))
     else Inr \<lparr>session = subslice buf 0 10,
               sequence = of_nat (be_val (subslice buf 10 8)),
               message_count = of_nat (be_val [buf ! 18, buf ! 19])\<rparr>)"

definition is_heartbeat :: "MoldPacketHeader \<Rightarrow> bool" where
  "is_heartbeat h = (message_count h = MSG_COUNT_HEARTBEAT)"

definition is_end_of_session :: "MoldPacketHeader \<Rightarrow> bool" where
  "is_end_of_session h = (message_count h = MSG_COUNT_END_OF_SESSION)"

definition MessageBlock_new :: "bytes \<Rightarrow> MoldError + MessageBlock" where
  "MessageBlock_new d =
    (if d = [] then Inl EmptyBlock
     else if length d > MAX_BLOCK_LEN then Inl (BlockTooLarge (length d) MAX_BLOCK_LEN)
     else Inr \<lparr>data = d\<rparr>)"

definition MessageBlock_wire_len :: "MessageBlock \<Rightarrow> nat" where
  "MessageBlock_wire_len b = BLOCK_LEN_PREFIX + length (data b)"

definition MoldPacket_new_data :: "bytes \<Rightarrow> u64 \<Rightarrow> MessageBlock list \<Rightarrow> MoldError + MoldPacket" where
  "MoldPacket_new_data sess seq bs =
    (if length bs \<ge> 2 ^ 16 then Inl (TooManyBlocks (length bs))
     else let count = of_nat (length bs) :: u16 in
       if count = MSG_COUNT_END_OF_SESSION then Inl (TooManyBlocks (length bs))
       else Inr \<lparr>MoldPacket.header = \<lparr>session = sess, sequence = seq, message_count = count\<rparr>,
                 MoldPacket.blocks = bs\<rparr>)"

definition MoldPacket_heartbeat :: "bytes \<Rightarrow> u64 \<Rightarrow> MoldPacket" where
  "MoldPacket_heartbeat sess next_sequence =
    \<lparr>MoldPacket.header = \<lparr>session = sess, sequence = next_sequence,
       message_count = MSG_COUNT_HEARTBEAT\<rparr>, MoldPacket.blocks = []\<rparr>"

definition MoldPacket_end_of_session :: "bytes \<Rightarrow> u64 \<Rightarrow> MoldPacket" where
  "MoldPacket_end_of_session sess next_sequence =
    \<lparr>MoldPacket.header = \<lparr>session = sess, sequence = next_sequence,
       message_count = MSG_COUNT_END_OF_SESSION\<rparr>, MoldPacket.blocks = []\<rparr>"

definition MoldPacket_wire_len :: "MoldPacket \<Rightarrow> nat" where
  "MoldPacket_wire_len self = HEADER_LEN + sum_list (map MessageBlock_wire_len (blocks self))"

text \<open>The loop of \<open>encode\<close>: \<open>off\<close> is the write offset, \<open>dlen as u16\<close> keeps the low 16 bits.\<close>

fun encode_blocks :: "MessageBlock list \<Rightarrow> nat \<Rightarrow> bytes \<Rightarrow> bytes" where
  "encode_blocks [] off buf = buf"
| "encode_blocks (b # bs) off buf =
    (let dlen = length (data b);
         buf = copy_from_slice buf off (to_be 2 (unat (of_nat dlen :: u16)));
         off = off + 2;
         buf = copy_from_slice buf off (data b)
     in encode_blocks bs (off + dlen) buf)"

definition MoldPacket_encode :: "MoldPacket \<Rightarrow> bytes \<Rightarrow> MoldError + bytes \<times> nat" where
  "MoldPacket_encode self buf =
    (let total = MoldPacket_wire_len self in
     if length buf < total then Inl (MoldError.BufferTooSmall total (length buf))
     else
       let buf = copy_from_slice buf 0 (MoldPacketHeader_to_bytes (MoldPacket.header self))
       in Inr (encode_blocks (blocks self) HEADER_LEN buf, total))"

definition MoldPacket_encode_to :: "MoldPacket \<Rightarrow> bytes \<Rightarrow> MoldError + bytes" where
  "MoldPacket_encode_to self dst =
    (let total = MoldPacket_wire_len self in
     and_then (MoldPacket_encode self (replicate total 0)) (\<lambda>(out, _). Inr (dst @ out)))"

text \<open>The loop of \<open>decode\<close> over the announced number of blocks, with the rest of the buffer.\<close>

fun decode_blocks :: "nat \<Rightarrow> bytes \<Rightarrow> MoldError + MessageBlock list \<times> bytes" where
  "decode_blocks 0 cursor = Inr ([], cursor)"
| "decode_blocks (Suc n) cursor =
    (if length cursor < BLOCK_LEN_PREFIX
     then Inl (MoldError.Truncated BLOCK_LEN_PREFIX (length cursor))
     else
       let block_len = be_val [cursor ! 0, cursor ! 1];
           cursor = drop BLOCK_LEN_PREFIX cursor
       in if block_len = 0 then Inl EmptyBlock
          else if block_len > MAX_BLOCK_LEN then Inl (BlockTooLarge block_len MAX_BLOCK_LEN)
          else if length cursor < block_len
          then Inl (MoldError.Truncated block_len (length cursor))
          else and_then (decode_blocks n (drop block_len cursor)) (\<lambda>(bs, cursor').
            Inr (\<lparr>data = take block_len cursor\<rparr> # bs, cursor')))"

definition MoldPacket_decode :: "bytes \<Rightarrow> MoldError + MoldPacket" where
  "MoldPacket_decode buf =
    and_then (MoldPacketHeader_from_bytes buf) (\<lambda>h.
    let cursor = drop HEADER_LEN buf in
    if is_heartbeat h \<or> is_end_of_session h then
      (if cursor \<noteq> [] then Inl (TrailingBytes (length cursor))
       else Inr \<lparr>MoldPacket.header = h, MoldPacket.blocks = []\<rparr>)
    else and_then (decode_blocks (unat (message_count h)) cursor) (\<lambda>(bs, cursor).
      if cursor \<noteq> [] then Inl (TrailingBytes (length cursor))
      else Inr \<lparr>MoldPacket.header = h, MoldPacket.blocks = bs\<rparr>))"

definition session_from_str :: "bytes \<Rightarrow> MoldError + bytes" where
  "session_from_str s =
    (if length s > 10 then Inl (SessionTooLong (length s))
     else Inr (copy_from_slice (replicate 10 space) 0 s))"

definition decode_from_bytesmut :: "bytes \<Rightarrow> (MoldError + MoldPacket) \<times> bytes" where
  "decode_from_bytesmut buf =
    (case MoldPacket_decode buf of
       Inl e \<Rightarrow> (Inl e, buf)
     | Inr parsed \<Rightarrow> (Inr parsed, drop (MoldPacket_wire_len parsed) buf))"

section \<open>Layout and well-formedness\<close>

definition block_wire :: "MessageBlock \<Rightarrow> bytes" where
  "block_wire b = to_be 2 (length (data b)) @ data b"

definition header_wire :: "MoldPacketHeader \<Rightarrow> bytes" where
  "header_wire h = session h @ to_be 8 (unat (sequence h)) @ to_be 2 (unat (message_count h))"

definition MoldPacket_wire :: "MoldPacket \<Rightarrow> bytes" where
  "MoldPacket_wire p = header_wire (MoldPacket.header p) @ concat (map block_wire (blocks p))"

definition block_ok :: "MessageBlock \<Rightarrow> bool" where
  "block_ok b = (0 < length (data b) \<and> length (data b) \<le> 1024)"

text \<open>What the constructors produce: a data packet counts its blocks, a heartbeat or end of
  session carries none.\<close>

definition MoldPacket_ok :: "MoldPacket \<Rightarrow> bool" where
  "MoldPacket_ok p = (let h = MoldPacket.header p in
    length (session h) = 10 \<and> (\<forall>b \<in> set (blocks p). block_ok b)
    \<and> (if is_end_of_session h then blocks p = [] else unat (message_count h) = length (blocks p)))"

section \<open>The header\<close>

lemma length_header_wire: "length (session h) = 10 \<Longrightarrow> length (header_wire h) = 20"
  by (simp add: header_wire_def)

lemma MoldPacketHeader_to_bytes_wire:
  "length (session h) = 10 \<Longrightarrow> MoldPacketHeader_to_bytes h = header_wire h"
  by (simp add: MoldPacketHeader_to_bytes_def header_wire_def copy_from_slice_def Let_def
      mold_consts)

lemma count_bytes: "20 \<le> length buf \<Longrightarrow> [buf ! 18, buf ! 19] = subslice buf 18 2"
  by (simp add: subslice_def list_eq_iff_nth_eq nth_Cons split: nat.split)

lemma MoldPacketHeader_from_wire:
  assumes "length (session h) = 10"
  shows "MoldPacketHeader_from_bytes (header_wire h @ rest) = Inr h"
proof -
  have "20 \<le> length (header_wire h @ rest)" using assms by (simp add: length_header_wire)
  moreover have "subslice (header_wire h @ rest) 0 10 = session h"
    "subslice (header_wire h @ rest) 10 8 = to_be 8 (unat (sequence h))"
    "subslice (header_wire h @ rest) 18 2 = to_be 2 (unat (message_count h))"
    using assms by (simp_all add: subslice_def header_wire_def)
  moreover have "unat (sequence h) < 2 ^ LENGTH(64)" "unat (message_count h) < 2 ^ LENGTH(16)"
    by (rule unsigned_less)+
  ultimately show ?thesis
    by (simp add: MoldPacketHeader_from_bytes_def count_bytes mold_consts not_less be_val_to_be)
qed

lemma MoldPacketHeader_from_bytes_Inr:
  assumes "MoldPacketHeader_from_bytes buf = Inr h"
  shows "length (session h) = 10 \<and> buf = header_wire h @ drop 20 buf"
proof -
  have len: "20 \<le> length buf"
    using assms by (simp add: MoldPacketHeader_from_bytes_def mold_consts split: if_splits)
  then have h: "h = \<lparr>session = subslice buf 0 10, sequence = of_nat (be_val (subslice buf 10 8)),
       message_count = of_nat (be_val (subslice buf 18 2))\<rparr>"
    using assms by (simp add: MoldPacketHeader_from_bytes_def mold_consts count_bytes)
  have "be_val (subslice buf 10 8) < 256 ^ 8" "be_val (subslice buf 18 2) < 256 ^ 2"
    using be_val_less [of "subslice buf 10 8"] be_val_less [of "subslice buf 18 2"] len by simp_all
  then have "header_wire h = subslice buf 0 10 @ subslice buf 10 8 @ subslice buf 18 2"
    using to_be_be_val [of "subslice buf 10 8"] to_be_be_val [of "subslice buf 18 2"] len
    by (simp add: header_wire_def h unat_of_nat)
  also have "\<dots> = take 20 buf"
    using take_add [of 10 8 buf] take_add [of 18 2 buf] by (simp add: subslice_def)
  finally show ?thesis using len by (simp add: h)
qed

section \<open>Blocks\<close>

lemma length_block_wire [simp]: "length (block_wire b) = MessageBlock_wire_len b"
  by (simp add: block_wire_def MessageBlock_wire_len_def mold_consts)

lemma length_blocks_wire [simp]:
  "length (concat (map block_wire bs)) = sum_list (map MessageBlock_wire_len bs)"
  by (induction bs) simp_all

lemma copy_from_slice_twice:
  "off + length xs + length ys \<le> length buf
    \<Longrightarrow> copy_from_slice (copy_from_slice buf off xs) (off + length xs) ys
      = copy_from_slice buf off (xs @ ys)"
  by (simp add: copy_from_slice_def add.commute add.left_commute)

lemma take_copied:
  "off + length xs \<le> length buf
    \<Longrightarrow> take (off + length xs) (copy_from_slice buf off xs) = take off buf @ xs"
  by (simp add: copy_from_slice_def)

lemma encode_blocks_Cons:
  assumes "block_ok b" "off + MessageBlock_wire_len b \<le> length buf"
  shows "encode_blocks (b # bs) off buf
    = encode_blocks bs (off + MessageBlock_wire_len b) (copy_from_slice buf off (block_wire b))"
proof -
  have "unat (of_nat (length (data b)) :: u16) = length (data b)"
    using assms(1) by (simp add: block_ok_def unat_of_nat)
  moreover have "copy_from_slice (copy_from_slice buf off (to_be 2 (length (data b)))) (off + 2) (data b)
      = copy_from_slice buf off (block_wire b)"
    using copy_from_slice_twice [of off "to_be 2 (length (data b))" "data b" buf] assms(2)
    by (simp add: block_wire_def MessageBlock_wire_len_def mold_consts)
  ultimately show ?thesis
    by (simp add: MessageBlock_wire_len_def mold_consts Let_def)
qed

lemma encode_blocks_wire:
  "off + sum_list (map MessageBlock_wire_len bs) \<le> length buf
    \<Longrightarrow> \<forall>b \<in> set bs. block_ok b
    \<Longrightarrow> encode_blocks bs off buf = take off buf @ concat (map block_wire bs)
          @ drop (off + sum_list (map MessageBlock_wire_len bs)) buf"
proof (induction bs arbitrary: off buf)
  case (Cons b bs)
  define mid where "mid = copy_from_slice buf off (block_wire b)"
  have len: "off + MessageBlock_wire_len b + sum_list (map MessageBlock_wire_len bs) \<le> length buf"
    using Cons.prems(1) by simp
  have "encode_blocks (b # bs) off buf = encode_blocks bs (off + MessageBlock_wire_len b) mid"
    unfolding mid_def by (rule encode_blocks_Cons) (use Cons.prems len in simp_all)
  also have "\<dots> = take (off + MessageBlock_wire_len b) mid @ concat (map block_wire bs)
      @ drop (off + MessageBlock_wire_len b + sum_list (map MessageBlock_wire_len bs)) mid"
    by (rule Cons.IH) (use Cons.prems(2) len in \<open>simp_all add: mid_def\<close>)
  also have "take (off + MessageBlock_wire_len b) mid = take off buf @ block_wire b"
    using take_copied [of off "block_wire b" buf] len by (simp add: mid_def)
  also have "drop (off + MessageBlock_wire_len b + sum_list (map MessageBlock_wire_len bs)) mid
      = drop (off + sum_list (map MessageBlock_wire_len (b # bs))) buf"
    using len by (simp add: mid_def drop_copy_from_slice add.assoc)
  finally show ?case by simp
qed simp

lemma decode_blocks_Cons:
  assumes "block_ok b"
  shows "decode_blocks (Suc n) (block_wire b @ rest)
    = and_then (decode_blocks n rest) (\<lambda>(bs, c). Inr (b # bs, c))"
proof -
  have "be_val (to_be 2 (length (data b))) = length (data b)"
    using assms by (simp add: be_val_to_be block_ok_def)
  moreover obtain x y where "to_be 2 (length (data b)) = [x, y]"
    by (simp add: numeral_2_eq_2)
  ultimately show ?thesis using assms
    by (cases b) (simp add: block_wire_def block_ok_def mold_consts Let_def)
qed

lemma decode_blocks_wire:
  "\<forall>b \<in> set bs. block_ok b
    \<Longrightarrow> decode_blocks (length bs) (concat (map block_wire bs) @ rest) = Inr (bs, rest)"
  by (induction bs) (simp_all add: decode_blocks_Cons del: decode_blocks.simps(2))

lemma two_bytes: "2 \<le> length c \<Longrightarrow> [c ! 0, c ! Suc 0] = take 2 c"
  by (cases c; cases "tl c") simp_all

lemma decode_blocks_Suc_Inr:
  assumes "decode_blocks (Suc n) c = Inr (bs, rest)" and l: "l = be_val [c ! 0, c ! Suc 0]"
  obtains bs' where "2 \<le> length c" "0 < l" "l \<le> 1024" "l \<le> length (drop 2 c)"
    "bs = \<lparr>data = take l (drop 2 c)\<rparr> # bs'" "decode_blocks n (drop l (drop 2 c)) = Inr (bs', rest)"
  using assms(1)
  by (simp add: Let_def mold_consts l [symmetric] not_less and_then_eq_Inr_iff
      del: be_val.simps drop_drop length_drop split: if_splits prod.splits) blast

lemma decode_blocks_Inr:
  "decode_blocks n c = Inr (bs, rest)
    \<Longrightarrow> length bs = n \<and> (\<forall>b \<in> set bs. block_ok b) \<and> c = concat (map block_wire bs) @ rest"
proof (induction n arbitrary: c bs)
  case (Suc n)
  define l where "l = be_val [c ! 0, c ! Suc 0]"
  from Suc.prems obtain bs' where c: "2 \<le> length c" "0 < l" "l \<le> 1024" "l \<le> length (drop 2 c)"
    and bs: "bs = \<lparr>data = take l (drop 2 c)\<rparr> # bs'"
    and rec: "decode_blocks n (drop l (drop 2 c)) = Inr (bs', rest)"
    by (rule decode_blocks_Suc_Inr [OF _ l_def])
  note IH = Suc.IH [OF rec]
  have "to_be 2 l = take 2 c"
    using to_be_be_val [of "take 2 c"] c(1) unfolding l_def two_bytes [OF c(1)] by simp
  then have "block_wire \<lparr>data = take l (drop 2 c)\<rparr> = take 2 c @ take l (drop 2 c)"
    unfolding block_wire_def using c(4) by (simp del: drop_drop length_drop)
  then have "concat (map block_wire bs) @ rest
      = take 2 c @ take l (drop 2 c) @ concat (map block_wire bs') @ rest"
    unfolding bs by (simp del: drop_drop)
  also have "concat (map block_wire bs') @ rest = drop l (drop 2 c)"
    using IH by (elim conjE) (rule sym)
  finally have split: "c = concat (map block_wire bs) @ rest"
    unfolding append_take_drop_id by (rule sym)
  have "length bs = Suc n" unfolding bs using IH by (elim conjE) simp
  moreover have "\<forall>b \<in> set bs. block_ok b"
    unfolding bs using IH c(2-4) by (elim conjE) (simp add: block_ok_def)
  ultimately show ?case using split by (intro conjI)
qed simp

section \<open>Packets\<close>

lemma length_MoldPacket_wire:
  "MoldPacket_ok p \<Longrightarrow> length (MoldPacket_wire p) = MoldPacket_wire_len p"
  by (simp add: MoldPacket_ok_def Let_def MoldPacket_wire_def MoldPacket_wire_len_def
      length_header_wire mold_consts)

lemma MoldPacket_encode_wire:
  assumes "MoldPacket_ok p" "MoldPacket_wire_len p \<le> length buf"
  shows "MoldPacket_encode p buf
    = Inr (MoldPacket_wire p @ drop (MoldPacket_wire_len p) buf, MoldPacket_wire_len p)"
proof -
  have ok: "length (session (MoldPacket.header p)) = 10" "\<forall>b \<in> set (blocks p). block_ok b"
    using assms(1) by (simp_all add: MoldPacket_ok_def Let_def)
  have len: "20 + sum_list (map MessageBlock_wire_len (blocks p)) \<le> length buf"
    using assms(2) by (simp add: MoldPacket_wire_len_def mold_consts)
  define mid where "mid = copy_from_slice buf 0 (header_wire (MoldPacket.header p))"
  have mid: "length mid = length buf" "take 20 mid = header_wire (MoldPacket.header p)"
    "drop (20 + k) mid = drop (20 + k) buf" for k
    using len ok(1) by (simp_all add: mid_def copy_from_slice_def length_header_wire add.commute)
  have "encode_blocks (blocks p) 20 mid
      = MoldPacket_wire p @ drop (MoldPacket_wire_len p) buf"
    using encode_blocks_wire [of 20 "blocks p" mid] ok(2) len
    by (simp add: mid MoldPacket_wire_def MoldPacket_wire_len_def mold_consts)
  with assms(2) ok(1) show ?thesis
    by (simp add: MoldPacket_encode_def Let_def MoldPacketHeader_to_bytes_wire mid_def mold_consts)
qed

lemma MoldPacket_decode_wire:
  assumes "MoldPacket_ok p"
  shows "MoldPacket_decode (MoldPacket_wire p @ extra)
    = (if extra = [] then Inr p else Inl (TrailingBytes (length extra)))"
proof -
  let ?h = "MoldPacket.header p"
  have ok: "length (session ?h) = 10" "\<forall>b \<in> set (blocks p). block_ok b"
    using assms by (simp_all add: MoldPacket_ok_def Let_def)
  have hd: "MoldPacketHeader_from_bytes (MoldPacket_wire p @ extra) = Inr ?h"
    "drop HEADER_LEN (MoldPacket_wire p @ extra) = concat (map block_wire (blocks p)) @ extra"
    using ok(1) by (simp_all add: MoldPacket_wire_def MoldPacketHeader_from_wire
        length_header_wire mold_consts)
  show ?thesis
  proof (cases "is_heartbeat ?h \<or> is_end_of_session ?h")
    case True
    then have "blocks p = []"
      using assms by (auto simp: MoldPacket_ok_def Let_def is_heartbeat_def mold_consts split: if_splits)
    with hd True show ?thesis by (cases p) (simp add: MoldPacket_decode_def Let_def)
  next
    case False
    then have "unat (message_count ?h) = length (blocks p)"
      using assms by (simp add: MoldPacket_ok_def Let_def)
    with hd False decode_blocks_wire [OF ok(2), of extra] show ?thesis
      by (cases p) (simp add: MoldPacket_decode_def Let_def)
  qed
qed

lemma MoldPacket_decode_Inr:
  assumes "MoldPacket_decode buf = Inr p"
  shows "MoldPacket_ok p \<and> buf = MoldPacket_wire p"
proof -
  from assms obtain h where h: "MoldPacketHeader_from_bytes buf = Inr h"
    and rest: "(if is_heartbeat h \<or> is_end_of_session h then
      (if drop 20 buf \<noteq> [] then Inl (TrailingBytes (length (drop 20 buf)))
       else Inr \<lparr>MoldPacket.header = h, MoldPacket.blocks = []\<rparr>)
    else and_then (decode_blocks (unat (message_count h)) (drop 20 buf)) (\<lambda>(bs, cursor).
      if cursor \<noteq> [] then Inl (TrailingBytes (length cursor))
      else Inr \<lparr>MoldPacket.header = h, MoldPacket.blocks = bs\<rparr>)) = Inr p"
    unfolding MoldPacket_decode_def and_then_eq_Inr_iff Let_def HEADER_LEN_def by blast
  note hdr = MoldPacketHeader_from_bytes_Inr [OF h]
  show ?thesis
  proof (cases "is_heartbeat h \<or> is_end_of_session h")
    case True
    with rest have "drop 20 buf = []" "p = \<lparr>MoldPacket.header = h, MoldPacket.blocks = []\<rparr>"
      by (simp_all split: if_splits)
    with hdr True show ?thesis
      by (auto simp: MoldPacket_ok_def MoldPacket_wire_def is_heartbeat_def mold_consts)
  next
    case False
    with rest obtain bs where bs: "decode_blocks (unat (message_count h)) (drop 20 buf) = Inr (bs, [])"
      and p: "p = \<lparr>MoldPacket.header = h, MoldPacket.blocks = bs\<rparr>"
      by (auto simp: and_then_eq_Inr_iff split: if_splits)
    from decode_blocks_Inr [OF bs] hdr False p show ?thesis
      by (simp add: MoldPacket_ok_def MoldPacket_wire_def)
  qed
qed

text \<open>What the three constructors build is well-formed.\<close>

lemma MoldPacket_heartbeat_ok: "length sess = 10 \<Longrightarrow> MoldPacket_ok (MoldPacket_heartbeat sess n)"
  by (simp add: MoldPacket_ok_def MoldPacket_heartbeat_def is_end_of_session_def mold_consts)

lemma MoldPacket_end_of_session_ok:
  "length sess = 10 \<Longrightarrow> MoldPacket_ok (MoldPacket_end_of_session sess n)"
  by (simp add: MoldPacket_ok_def MoldPacket_end_of_session_def is_end_of_session_def mold_consts)

lemma MessageBlock_new_ok: "MessageBlock_new d = Inr b \<Longrightarrow> block_ok b \<and> data b = d"
  by (auto simp: MessageBlock_new_def block_ok_def mold_consts split: if_splits)

lemma MoldPacket_new_data_ok:
  assumes "length sess = 10" "\<forall>b \<in> set bs. block_ok b" "MoldPacket_new_data sess seq bs = Inr p"
  shows "MoldPacket_ok p \<and> blocks p = bs \<and> sequence (MoldPacket.header p) = seq"
  using assms
  by (auto simp: MoldPacket_new_data_def MoldPacket_ok_def is_end_of_session_def Let_def unat_of_nat
      split: if_splits)

text \<open>A datagram cut short inside its blocks is reported as truncated.\<close>

lemma decode_block_cut:
  assumes "block_ok b" "k < MessageBlock_wire_len b"
  shows "\<exists>need got. decode_blocks (Suc n) (take k (block_wire b)) = Inl (MoldError.Truncated need got)
    \<and> got < need"
proof (cases "k < 2")
  case True
  with assms(2) show ?thesis by (simp add: mold_consts)
next
  case False
  have "be_val (to_be 2 (length (data b))) = length (data b)"
    using assms by (simp add: be_val_to_be block_ok_def)
  moreover obtain x y where xy: "to_be 2 (length (data b)) = [x, y]"
    by (simp add: numeral_2_eq_2)
  ultimately have val: "be_val [x, y] = length (data b)" by simp
  have "take k (block_wire b) = x # y # take (k - 2) (data b)"
    using False xy by (simp add: block_wire_def take_Cons' numeral_2_eq_2)
  moreover have "k - 2 < length (data b)"
    using assms(2) False by (simp add: MessageBlock_wire_len_def mold_consts)
  ultimately show ?thesis
    using val assms(1) by (simp add: mold_consts Let_def block_ok_def del: be_val.simps)
qed

lemma decode_blocks_cut:
  "\<forall>b \<in> set bs. block_ok b \<Longrightarrow> k < sum_list (map MessageBlock_wire_len bs)
    \<Longrightarrow> \<exists>need got. decode_blocks (length bs) (take k (concat (map block_wire bs)))
          = Inl (MoldError.Truncated need got) \<and> got < need"
proof (induction bs arbitrary: k)
  case (Cons b bs)
  show ?case
  proof (cases "k < MessageBlock_wire_len b")
    case True
    with decode_block_cut [of b k "length bs"] Cons.prems(1) show ?thesis by simp
  next
    case False
    then obtain j where k: "k = MessageBlock_wire_len b + j"
      using le_Suc_ex [of "MessageBlock_wire_len b" k] by (auto simp: not_less)
    then obtain need got where
      "decode_blocks (length bs) (take j (concat (map block_wire bs)))
        = Inl (MoldError.Truncated need got)" "got < need"
      using Cons.IH [of j] Cons.prems by auto
    with Cons.prems(1) show ?thesis
      by (simp add: k decode_blocks_Cons del: decode_blocks.simps)
  qed
qed simp

lemma MoldPacket_decode_cut:
  assumes "MoldPacket_ok p" "k < MoldPacket_wire_len p"
  shows "\<exists>need got. MoldPacket_decode (take k (MoldPacket_wire p)) = Inl (MoldError.Truncated need got)
    \<and> got < need"
proof (cases "k < 20")
  case True
  with assms show ?thesis
    by (simp add: MoldPacket_decode_def MoldPacketHeader_from_bytes_def length_MoldPacket_wire mold_consts)
next
  case False
  then obtain j where k: "k = 20 + j" using le_Suc_ex [of 20 k] by (auto simp: not_less)
  let ?h = "MoldPacket.header p"
  have ok: "length (session ?h) = 10" "\<forall>b \<in> set (blocks p). block_ok b"
    using assms(1) by (simp_all add: MoldPacket_ok_def Let_def)
  have j: "j < sum_list (map MessageBlock_wire_len (blocks p))"
    using assms(2) by (simp add: k MoldPacket_wire_len_def mold_consts)
  then have "unat (message_count ?h) = length (blocks p) \<and> \<not> is_heartbeat ?h \<and> \<not> is_end_of_session ?h"
    using assms(1) by (auto simp: MoldPacket_ok_def Let_def is_heartbeat_def mold_consts split: if_splits)
  moreover have "take k (MoldPacket_wire p) = header_wire ?h @ take j (concat (map block_wire (blocks p)))"
    using ok(1) by (simp add: MoldPacket_wire_def k length_header_wire)
  moreover obtain need got where
    "decode_blocks (length (blocks p)) (take j (concat (map block_wire (blocks p))))
      = Inl (MoldError.Truncated need got)" "got < need"
    using decode_blocks_cut [OF ok(2) j] by blast
  ultimately show ?thesis
    using ok(1) by (simp add: MoldPacket_decode_def MoldPacketHeader_from_wire length_header_wire
        mold_consts Let_def)
qed

section \<open>Properties\<close>

definition sample_packet :: MoldPacket where
  "sample_packet = \<lparr>MoldPacket.header = \<lparr>session = replicate 10 65, sequence = 7, message_count = 2\<rparr>,
     MoldPacket.blocks = [\<lparr>data = [1, 2, 3]\<rparr>, \<lparr>data = [9]\<rparr>]\<rparr>"

lemma sample_packet_ok: "MoldPacket_ok sample_packet" "MoldPacket_wire_len sample_packet = 28"
  by (simp_all add: sample_packet_def MoldPacket_ok_def is_end_of_session_def block_ok_def
      MoldPacket_wire_len_def MessageBlock_wire_len_def mold_consts)

text \<open>C11: Encoding a well-formed MoldUDP64 packet into a buffer that is long enough succeeds,
  reports \<open>wire_len\<close> bytes, leaves the bytes behind the packet alone, and decoding the written
  bytes gives the packet back.\<close>

theorem mold_packet_round_trip:
  assumes "MoldPacket_ok p" "MoldPacket_wire_len p \<le> length buf"
  shows "\<exists>out. MoldPacket_encode p buf = Inr (out, MoldPacket_wire_len p)
    \<and> length out = length buf
    \<and> drop (MoldPacket_wire_len p) out = drop (MoldPacket_wire_len p) buf
    \<and> MoldPacket_decode (take (MoldPacket_wire_len p) out) = Inr p"
  using assms MoldPacket_decode_wire [OF assms(1), of "[]"]
  by (simp add: MoldPacket_encode_wire length_MoldPacket_wire)

theorem mold_packet_round_trip_witness:
  "\<exists>out. MoldPacket_encode sample_packet (replicate 30 0) = Inr (out, 28)
    \<and> length out = 30 \<and> drop 28 out = [0, 0] \<and> MoldPacket_decode (take 28 out) = Inr sample_packet"
  using mold_packet_round_trip [of sample_packet "replicate 30 0"]
  by (simp add: sample_packet_ok numeral_2_eq_2)

text \<open>The MoldUDP64 decoder accepts only canonical datagrams: whatever it accepts is a
  well-formed packet that fills the datagram exactly and encodes back to the same bytes.\<close>

lemma mold_decode_canonical:
  assumes "MoldPacket_decode buf = Inr p"
  shows "MoldPacket_ok p \<and> MoldPacket_wire_len p = length buf \<and> MoldPacket_encode_to p [] = Inr buf"
proof -
  have "MoldPacket_ok p" "buf = MoldPacket_wire p" using MoldPacket_decode_Inr [OF assms] by simp_all
  then show ?thesis
    by (simp add: MoldPacket_encode_to_def Let_def MoldPacket_encode_wire length_MoldPacket_wire)
qed

text \<open>A well-formed datagram that is cut anywhere is rejected as truncated, and one with bytes
  appended is rejected with exactly the number of extra bytes; neither is ever accepted as
  another packet.\<close>

lemma mold_decode_framing:
  assumes "MoldPacket_ok p" "MoldPacket_encode_to p [] = Inr wire"
  shows "(k < length wire \<longrightarrow> (\<exists>need got. MoldPacket_decode (take k wire) = Inl (MoldError.Truncated need got)
       \<and> got < need))
    \<and> (extra \<noteq> [] \<longrightarrow> MoldPacket_decode (wire @ extra) = Inl (TrailingBytes (length extra)))"
proof -
  have "wire = MoldPacket_wire p"
    using assms by (simp add: MoldPacket_encode_to_def Let_def MoldPacket_encode_wire)
  with assms(1) show ?thesis
    by (simp add: MoldPacket_decode_wire MoldPacket_decode_cut length_MoldPacket_wire)
qed

end
