(* ===== verification/Itch_Mold_Receiver.thy ===== *)
theory Itch_Mold_Receiver
  imports Itch_Mold_Codec
begin

text \<open>
  The packet-ingestion state machine of the MoldUDP64 receiver (\<open>ReceiverState\<close> in
  \<open>itch-mold/src/receiver.rs\<close>) with its events (\<open>itch-mold/src/event.rs\<close>) and configuration.
  The lemmas show that, whatever datagrams are lost, repeated or reordered, the
  receiver hands out a contiguous run of the publisher's stream, each message
  once, and that its buffer of early blocks stays bounded.  One property shows
  how a block that was delivered from another packet blocks the buffer.
\<close>

section \<open>Definitions\<close>

datatype MoldEvent =
    Message u64 Message
  | Heartbeat u64
  | EndOfSession u64
  | Gap u64 u64

fun as_message :: "MoldEvent \<Rightarrow> Message option" where
  "as_message (MoldEvent.Message _ m) = Some m"
| "as_message _ = None"

datatype PendingOverflowPolicy = DropOldest | Error

abbreviation DEFAULT_SILENCE_WARNING :: nat where "DEFAULT_SILENCE_WARNING \<equiv> 1 * 10 ^ 9"
abbreviation DEFAULT_SILENCE_DEAD_LINK :: nat where "DEFAULT_SILENCE_DEAD_LINK \<equiv> 15 * 10 ^ 9"
abbreviation DEFAULT_MAX_PENDING :: nat where "DEFAULT_MAX_PENDING \<equiv> 10000"

text \<open>Addresses are kept as their printed form, durations as nanoseconds.\<close>

record MoldConfig =
  multicast_group :: string
  interface :: "string option"
  request_servers :: "string list"
  session :: "bytes option"
  start_sequence :: u64
  silence_warning :: nat
  silence_dead_link :: nat
  max_pending_messages :: nat
  pending_overflow :: PendingOverflowPolicy

definition MoldConfig_default :: MoldConfig where
  "MoldConfig_default = \<lparr>multicast_group = ''233.252.0.1:5000'', interface = None,
     request_servers = [], MoldConfig.session = None, start_sequence = 0,
     silence_warning = DEFAULT_SILENCE_WARNING, silence_dead_link = DEFAULT_SILENCE_DEAD_LINK,
     max_pending_messages = DEFAULT_MAX_PENDING, pending_overflow = DropOldest\<rparr>"

definition MoldConfig_new :: "string \<Rightarrow> MoldConfig" where
  "MoldConfig_new grp = MoldConfig_default\<lparr>multicast_group := grp\<rparr>"

definition with_session :: "bytes \<Rightarrow> MoldConfig \<Rightarrow> MoldConfig" where
  "with_session sess cfg = cfg\<lparr>MoldConfig.session := Some sess\<rparr>"

definition with_silence :: "nat \<Rightarrow> nat \<Rightarrow> MoldConfig \<Rightarrow> MoldConfig" where
  "with_silence warning dead_link cfg =
    cfg\<lparr>silence_warning := warning, silence_dead_link := dead_link\<rparr>"

definition with_start_sequence :: "u64 \<Rightarrow> MoldConfig \<Rightarrow> MoldConfig" where
  "with_start_sequence seq cfg = cfg\<lparr>start_sequence := seq\<rparr>"

definition with_max_pending :: "nat \<Rightarrow> MoldConfig \<Rightarrow> MoldConfig" where
  "with_max_pending n cfg = cfg\<lparr>max_pending_messages := n\<rparr>"

definition with_pending_overflow :: "PendingOverflowPolicy \<Rightarrow> MoldConfig \<Rightarrow> MoldConfig" where
  "with_pending_overflow policy cfg = cfg\<lparr>pending_overflow := policy\<rparr>"

record ReceiverState =
  session :: "bytes option"
  next_expected :: u64
  bootstrapped :: bool
  pending :: "(u64, bytes) btree"
  outbox :: "(MoldError + MoldEvent) list"
  eos :: bool
  max_pending :: nat
  pending_overflow :: PendingOverflowPolicy
  start_sequence :: u64
  overflow_drops :: u64

definition ReceiverState_new :: "MoldConfig \<Rightarrow> ReceiverState" where
  "ReceiverState_new cfg =
    \<lparr>ReceiverState.session = MoldConfig.session cfg, next_expected = MoldConfig.start_sequence cfg,
     bootstrapped = False, pending = [], outbox = [], eos = False,
     max_pending = max_pending_messages cfg,
     ReceiverState.pending_overflow = MoldConfig.pending_overflow cfg,
     ReceiverState.start_sequence = MoldConfig.start_sequence cfg, overflow_drops = 0\<rparr>"

text \<open>\<open>self.outbox.push_back(..)\<close>.\<close>

definition push_back :: "MoldError + MoldEvent \<Rightarrow> ReceiverState \<Rightarrow> ReceiverState" where
  "push_back r self = self\<lparr>outbox := outbox self @ [r]\<rparr>"

definition deliver :: "u64 \<Rightarrow> bytes \<Rightarrow> ReceiverState \<Rightarrow> ReceiverState" where
  "deliver seq body self =
    (if length body > MAX_BLOCK_LEN
     then push_back (Inl (BlockTooLarge (length body) MAX_BLOCK_LEN)) self
     else case Message_decode body of
       Inr m \<Rightarrow> (push_back (Inr (MoldEvent.Message seq m)) self)\<lparr>next_expected := seq + 1\<rparr>
     | Inl err \<Rightarrow> (push_back (Inl (MoldError.Protocol err)) self)\<lparr>next_expected := seq + 1\<rparr>)"

definition stash_pending :: "u64 \<Rightarrow> bytes \<Rightarrow> ReceiverState \<Rightarrow> ReceiverState" where
  "stash_pending seq d self =
    (if map_of (pending self) seq \<noteq> None then self
     else if length (pending self) \<ge> max_pending self then
       (case ReceiverState.pending_overflow self of
          DropOldest \<Rightarrow>
            (let self = (case pending self of
                 [] \<Rightarrow> self
               | _ # rest \<Rightarrow> self\<lparr>pending := rest, overflow_drops := overflow_drops self + 1\<rparr>)
             in self\<lparr>pending := btree_insert seq d (pending self)\<rparr>)
        | Error \<Rightarrow>
            push_back (Inl (PendingBufferFull (max_pending self)))
              (self\<lparr>overflow_drops := overflow_drops self + 1\<rparr>))
     else self\<lparr>pending := btree_insert seq d (pending self)\<rparr>)"

lemma pending_push_back [simp]: "pending (push_back r self) = pending self"
  by (simp add: push_back_def)

lemma pending_deliver [simp]: "pending (deliver seq body self) = pending self"
  by (simp add: deliver_def split: sum.split)

function flush_pending :: "ReceiverState \<Rightarrow> ReceiverState" where
  "flush_pending self =
    (case pending self of
       [] \<Rightarrow> self
     | (seq, body) # _ \<Rightarrow>
         if seq \<noteq> next_expected self then self
         else flush_pending (deliver seq body (self\<lparr>pending := btree_remove seq (pending self)\<rparr>)))"
  by pat_completeness auto

termination
  by (relation "measure (\<lambda>s. length (pending s))")
    (auto simp: btree_remove_def intro: le_imp_less_Suc)

declare flush_pending.simps [simp del]

text \<open>The two loops of \<open>ingest\<close> over \<open>blocks.into_iter().enumerate()\<close>; \<open>i\<close> is the index.\<close>

fun stash_blocks :: "u64 \<Rightarrow> nat \<Rightarrow> MessageBlock list \<Rightarrow> ReceiverState \<Rightarrow> ReceiverState" where
  "stash_blocks first_seq i [] self = self"
| "stash_blocks first_seq i (b # bs) self =
    stash_blocks first_seq (Suc i) bs (stash_pending (first_seq + of_nat i) (data b) self)"

fun deliver_blocks :: "u64 \<Rightarrow> nat \<Rightarrow> MessageBlock list \<Rightarrow> ReceiverState \<Rightarrow> ReceiverState" where
  "deliver_blocks first_seq i [] self = self"
| "deliver_blocks first_seq i (b # bs) self =
    (let seq = first_seq + of_nat i in
     if seq < next_expected self then deliver_blocks first_seq (Suc i) bs self
     else deliver_blocks first_seq (Suc i) bs (deliver seq (data b) self))"

text \<open>The sequenced-data part of \<open>ingest\<close>.  The additions are those of \<open>u64\<close>.\<close>

definition ingest_data :: "MoldPacket \<Rightarrow> ReceiverState \<Rightarrow> ReceiverState" where
  "ingest_data pkt self =
    (let first_seq = sequence (MoldPacket.header pkt);
         count = of_nat (length (blocks pkt)) :: u64 in
     if first_seq + count \<le> next_expected self then self
     else if first_seq > next_expected self then
       stash_blocks first_seq 0 (blocks pkt)
         (push_back (Inr (Gap (next_expected self) (first_seq - 1))) self)
     else flush_pending (deliver_blocks first_seq 0 (blocks pkt) self))"

definition bootstrap :: "MoldPacketHeader \<Rightarrow> ReceiverState \<Rightarrow> ReceiverState" where
  "bootstrap h self =
    (if \<not> bootstrapped self then
       (if ReceiverState.start_sequence self = 0 then self\<lparr>next_expected := sequence h\<rparr> else self)
         \<lparr>bootstrapped := True\<rparr>
     else self)"

definition ingest_session :: "MoldPacket \<Rightarrow> ReceiverState \<Rightarrow> ReceiverState" where
  "ingest_session pkt self =
    (let h = MoldPacket.header pkt; self = bootstrap h self in
     if is_heartbeat h then push_back (Inr (Heartbeat (sequence h))) self
     else if is_end_of_session h
     then push_back (Inr (EndOfSession (sequence h))) (self\<lparr>eos := True\<rparr>)
     else ingest_data pkt self)"

definition ReceiverState_ingest :: "MoldPacket \<Rightarrow> ReceiverState \<Rightarrow> ReceiverState" where
  "ReceiverState_ingest pkt self =
    (let sess = MoldPacketHeader.session (MoldPacket.header pkt) in
     case ReceiverState.session self of
       Some expected \<Rightarrow>
         if expected \<noteq> sess then push_back (Inl (SessionMismatch expected sess)) self
         else ingest_session pkt self
     | None \<Rightarrow> ingest_session pkt (self\<lparr>ReceiverState.session := Some sess\<rparr>))"

section \<open>What the receiver hands out\<close>

text \<open>The event a block with sequence number \<open>seq\<close> turns into, and the events of that kind.\<close>

definition slot :: "u64 \<Rightarrow> bytes \<Rightarrow> MoldError + MoldEvent" where
  "slot seq body = (case Message_decode body of
      Inr m \<Rightarrow> Inr (MoldEvent.Message seq m) | Inl err \<Rightarrow> Inl (MoldError.Protocol err))"

fun is_slot :: "MoldError + MoldEvent \<Rightarrow> bool" where
  "is_slot (Inr (MoldEvent.Message _ _)) = True"
| "is_slot (Inl (MoldError.Protocol _)) = True"
| "is_slot _ = False"

text \<open>The stream of a publisher is a function from sequence numbers to block bodies; a packet
  belongs to it when its blocks are the stream's blocks at its sequence numbers, and none of
  them is numbered with the last value of \<open>u64\<close>.\<close>

definition from_feed :: "(nat \<Rightarrow> bytes) \<Rightarrow> MoldPacket \<Rightarrow> bool" where
  "from_feed feed p = (let first = unat (sequence (MoldPacket.header p)) in
    first + length (blocks p) < 2 ^ 64
    \<and> (\<forall>i < length (blocks p). data (blocks p ! i) = feed (first + i)))"

definition pending_from :: "(nat \<Rightarrow> bytes) \<Rightarrow> (u64, bytes) btree \<Rightarrow> bool" where
  "pending_from feed q = (\<forall>(s, b) \<in> set q.
    b = feed (unat s) \<and> length b \<le> MAX_BLOCK_LEN \<and> unat s + 1 < 2 ^ 64)"

text \<open>Everything handed out so far is the stretch of the stream from \<open>start\<close> up to the cursor.\<close>

definition hands_out :: "(nat \<Rightarrow> bytes) \<Rightarrow> nat \<Rightarrow> ReceiverState \<Rightarrow> bool" where
  "hands_out feed start self \<longleftrightarrow>
     start \<le> unat (next_expected self)
   \<and> filter is_slot (outbox self)
       = map (\<lambda>s. slot (of_nat s) (feed s)) [start ..< unat (next_expected self)]
   \<and> pending_from feed (pending self)"

definition receiver_inv :: "(bytes \<Rightarrow> nat \<Rightarrow> bytes) \<Rightarrow> ReceiverState \<Rightarrow> bool" where
  "receiver_inv feeds self \<longleftrightarrow>
    (if bootstrapped self then
       \<exists>sess start. ReceiverState.session self = Some sess \<and> hands_out (feeds sess) start self
         \<and> (ReceiverState.start_sequence self \<noteq> 0
              \<longrightarrow> start = unat (ReceiverState.start_sequence self))
     else filter is_slot (outbox self) = [] \<and> pending self = []
       \<and> next_expected self = ReceiverState.start_sequence self)"

text \<open>Fields only the caller writes.\<close>

definition same_setup :: "ReceiverState \<Rightarrow> ReceiverState \<Rightarrow> bool" where
  "same_setup self self' \<longleftrightarrow>
     ReceiverState.session self' = ReceiverState.session self
   \<and> bootstrapped self' = bootstrapped self
   \<and> max_pending self' = max_pending self
   \<and> ReceiverState.pending_overflow self' = ReceiverState.pending_overflow self
   \<and> ReceiverState.start_sequence self' = ReceiverState.start_sequence self"

lemma same_setup_refl [simp]: "same_setup self self"
  by (simp add: same_setup_def)

lemma same_setup_trans: "same_setup a b \<Longrightarrow> same_setup b c \<Longrightarrow> same_setup a c"
  by (simp add: same_setup_def)

lemma same_setup_push_back [simp]: "same_setup self (push_back r self)"
  by (simp add: same_setup_def push_back_def)

lemma same_setup_deliver [simp]: "same_setup self (deliver seq body self)"
  by (simp add: same_setup_def deliver_def push_back_def split: sum.split)

lemma same_setup_stash [simp]: "same_setup self (stash_pending seq d self)"
  by (simp add: same_setup_def stash_pending_def push_back_def Let_def
      split: PendingOverflowPolicy.split list.split)

lemma same_setup_flush [simp]: "same_setup self (flush_pending self)"
proof (induction self rule: flush_pending.induct)
  case (1 self)
  show ?case
  proof (cases "pending self")
    case (Cons e rest)
    obtain seq body where e: "e = (seq, body)" by (cases e)
    define mid where "mid = deliver seq body (self\<lparr>pending := btree_remove seq (pending self)\<rparr>)"
    have "same_setup self mid"
      using same_setup_deliver [of "self\<lparr>pending := btree_remove seq (pending self)\<rparr>" seq body]
      by (simp add: mid_def same_setup_def)
    moreover have "seq = next_expected self \<Longrightarrow> same_setup mid (flush_pending mid)"
      using 1 [of e rest seq body] Cons e by (simp add: mid_def)
    ultimately show ?thesis
      using Cons e by (auto simp: flush_pending.simps [of self] mid_def intro: same_setup_trans)
  qed (simp add: flush_pending.simps [of self])
qed

lemma same_setup_stash_blocks [simp]: "same_setup self (stash_blocks first_seq i bs self)"
  by (induction bs arbitrary: i self) (auto intro: same_setup_trans [OF same_setup_stash])

lemma same_setup_deliver_blocks [simp]: "same_setup self (deliver_blocks first_seq i bs self)"
  by (induction bs arbitrary: i self) (auto simp: Let_def intro: same_setup_trans [OF same_setup_deliver])

lemma same_setup_ingest_data [simp]: "same_setup self (ingest_data pkt self)"
proof -
  let ?gap = "push_back (Inr (Gap (next_expected self)
    (sequence (MoldPacket.header pkt) - 1))) self"
  have "same_setup self (stash_blocks f i bs ?gap)" for f i bs
    by (rule same_setup_trans [of self ?gap]) simp_all
  moreover have "same_setup self (flush_pending (deliver_blocks f i bs self))" for f i bs
    by (rule same_setup_trans [of self "deliver_blocks f i bs self"]) simp_all
  ultimately show ?thesis by (simp add: ingest_data_def Let_def)
qed

section \<open>Delivery in order\<close>

lemma is_slot_slot [simp]: "is_slot (slot seq body)"
  by (simp add: slot_def split: sum.split)

lemma deliver_slot:
  "length body \<le> MAX_BLOCK_LEN
    \<Longrightarrow> deliver seq body self = (push_back (slot seq body) self)\<lparr>next_expected := seq + 1\<rparr>"
  by (simp add: deliver_def slot_def split: sum.split)

lemma hands_out_push_back:
  "\<not> is_slot r \<Longrightarrow> hands_out feed start (push_back r self) = hands_out feed start self"
  by (simp add: hands_out_def push_back_def)

lemma hands_out_deliver:
  assumes "hands_out feed start self" "seq = next_expected self" "body = feed (unat seq)"
    "length body \<le> MAX_BLOCK_LEN" "unat seq + 1 < 2 ^ 64"
  shows "hands_out feed start (deliver seq body self)"
  using assms by (simp add: hands_out_def deliver_slot push_back_def unat_Suc_u64)

lemma next_expected_deliver:
  "length body \<le> MAX_BLOCK_LEN \<Longrightarrow> next_expected (deliver seq body self) = seq + 1"
  by (simp add: deliver_slot)

lemma hands_out_deliver_blocks:
  assumes "hands_out feed start self"
    and "unat first_seq + i \<le> unat (next_expected self)"
    and "unat first_seq + i + length bs < 2 ^ 64"
    and "\<forall>j < length bs. data (bs ! j) = feed (unat first_seq + i + j)"
    and "\<forall>b \<in> set bs. block_ok b"
  shows "hands_out feed start (deliver_blocks first_seq i bs self)
    \<and> unat (next_expected (deliver_blocks first_seq i bs self))
        = max (unat (next_expected self)) (unat first_seq + i + length bs)"
  using assms
proof (induction bs arbitrary: i self)
  case Nil
  then show ?case by (simp add: max_def)
next
  case (Cons b bs)
  define seq where "seq = first_seq + of_nat i"
  have seq: "unat seq = unat first_seq + i"
    using Cons.prems(3) by (simp add: seq_def unat_add_of_nat)
  have tail: "\<forall>j < length bs. data (bs ! j) = feed (unat first_seq + Suc i + j)"
  proof (intro allI impI)
    fix j assume "j < length bs"
    then show "data (bs ! j) = feed (unat first_seq + Suc i + j)"
      using Cons.prems(4) [rule_format, of "Suc j"] by simp
  qed
  have b: "data b = feed (unat seq)" "length (data b) \<le> MAX_BLOCK_LEN"
    using Cons.prems(4) [rule_format, of 0] Cons.prems(5)
    by (simp_all add: seq block_ok_def mold_consts)
  show ?case
  proof (cases "seq < next_expected self")
    case True
    then have "unat first_seq + Suc i \<le> unat (next_expected self)"
      by (simp add: word_less_nat_alt seq)
    then show ?thesis
      using Cons.IH [of self "Suc i"] Cons.prems tail True by (simp add: seq_def Let_def)
  next
    case False
    then have eq: "seq = next_expected self"
      using Cons.prems(2) by (simp add: word_less_nat_alt seq word_unat_eq_iff)
    define mid where "mid = deliver seq (data b) self"
    have next_mid: "unat (next_expected mid) = unat first_seq + Suc i"
      using Cons.prems(3) b(2) by (simp add: mid_def next_expected_deliver unat_Suc_u64 seq)
    have "hands_out feed start mid" unfolding mid_def
      by (rule hands_out_deliver [OF Cons.prems(1) eq b]) (use Cons.prems(3) seq in simp)
    moreover have "deliver_blocks first_seq i (b # bs) self = deliver_blocks first_seq (Suc i) bs mid"
      using False by (simp add: seq_def mid_def Let_def)
    moreover have "unat (next_expected self) = unat first_seq + i" using seq eq by simp
    ultimately show ?thesis
      using Cons.IH [of mid "Suc i"] Cons.prems(3,5) tail next_mid by simp
  qed
qed

lemma hands_out_flush: "hands_out feed start self \<Longrightarrow> hands_out feed start (flush_pending self)"
proof (induction self rule: flush_pending.induct)
  case (1 self)
  show ?case
  proof (cases "pending self")
    case Nil
    with 1 show ?thesis by (simp add: flush_pending.simps [of self])
  next
    case (Cons e rest)
    obtain seq body where e: "e = (seq, body)" by (cases e)
    define cut where "cut = self\<lparr>pending := btree_remove seq (pending self)\<rparr>"
    have body: "body = feed (unat seq)" "length body \<le> MAX_BLOCK_LEN" "unat seq + 1 < 2 ^ 64"
      using "1.prems" Cons e by (auto simp: hands_out_def pending_from_def)
    have cut: "hands_out feed start cut"
      using "1.prems" by (auto simp: hands_out_def pending_from_def cut_def btree_remove_def)
    show ?thesis
    proof (cases "seq = next_expected self")
      case True
      then have "hands_out feed start (deliver seq body cut)"
        by (intro hands_out_deliver [OF cut] body) (simp add: cut_def)
      then have "hands_out feed start (flush_pending (deliver seq body cut))"
        using "1.IH" [OF Cons e [symmetric]] True by (simp add: cut_def)
      with True Cons e show ?thesis by (simp add: flush_pending.simps [of self] cut_def)
    next
      case False
      with "1.prems" Cons e show ?thesis by (simp add: flush_pending.simps [of self])
    qed
  qed
qed

lemma set_btree_insert: "set (btree_insert k v m) \<subseteq> insert (k, v) (set m)"
  by (induction k v m rule: btree_insert.induct) auto

lemma pending_from_insert:
  assumes "pending_from feed q" "d = feed (unat seq)" "length d \<le> MAX_BLOCK_LEN" "unat seq + 1 < 2 ^ 64"
  shows "pending_from feed (btree_insert seq d q)"
  using assms set_btree_insert [of seq d q] by (auto simp: pending_from_def)

lemma pending_from_tl: "pending_from feed q \<Longrightarrow> pending_from feed (tl q)"
  by (cases q) (simp_all add: pending_from_def)

lemma hands_out_stash:
  assumes "hands_out feed start self" "d = feed (unat seq)" "length d \<le> MAX_BLOCK_LEN" "unat seq + 1 < 2 ^ 64"
  shows "hands_out feed start (stash_pending seq d self)"
proof -
  have "pending_from feed (pending self)" "pending_from feed (tl (pending self))"
    using assms(1) by (simp_all add: hands_out_def pending_from_tl)
  then have "pending_from feed (btree_insert seq d (pending self))"
    "pending_from feed (btree_insert seq d (tl (pending self)))"
    using assms(2-4) by (auto intro: pending_from_insert)
  with assms(1) show ?thesis
    by (auto simp: stash_pending_def hands_out_def push_back_def Let_def
        split: PendingOverflowPolicy.split list.split)
qed

lemma hands_out_stash_blocks:
  assumes "hands_out feed start self"
    and "unat first_seq + i + length bs < 2 ^ 64"
    and "\<forall>j < length bs. data (bs ! j) = feed (unat first_seq + i + j)"
    and "\<forall>b \<in> set bs. block_ok b"
  shows "hands_out feed start (stash_blocks first_seq i bs self)"
  using assms
proof (induction bs arbitrary: i self)
  case (Cons b bs)
  have seq: "unat (first_seq + of_nat i) = unat first_seq + i"
    using Cons.prems(2) by (simp add: unat_add_of_nat)
  have "hands_out feed start (stash_pending (first_seq + of_nat i) (data b) self)"
    using Cons.prems(2) Cons.prems(3) [rule_format, of 0] Cons.prems(4)
    by (intro hands_out_stash [OF Cons.prems(1)]) (simp_all add: seq block_ok_def mold_consts)
  moreover have "\<forall>j < length bs. data (bs ! j) = feed (unat first_seq + Suc i + j)"
  proof (intro allI impI)
    fix j assume "j < length bs"
    then show "data (bs ! j) = feed (unat first_seq + Suc i + j)"
      using Cons.prems(3) [rule_format, of "Suc j"] by simp
  qed
  ultimately show ?case using Cons.IH Cons.prems(2,4) by simp
qed simp

lemma hands_out_ingest_data:
  assumes "hands_out feed start self" "from_feed feed pkt" "\<forall>b \<in> set (blocks pkt). block_ok b"
  shows "hands_out feed start (ingest_data pkt self)"
proof -
  let ?first = "sequence (MoldPacket.header pkt)"
  have len: "unat ?first + 0 + length (blocks pkt) < 2 ^ 64"
    and body: "\<forall>j < length (blocks pkt). data (blocks pkt ! j) = feed (unat ?first + 0 + j)"
    using assms(2) by (simp_all add: from_feed_def Let_def)
  have "hands_out feed start (stash_blocks ?first 0 (blocks pkt) (push_back (Inr (Gap a b)) self))" for a b
    by (rule hands_out_stash_blocks [OF _ len body assms(3)]) (simp add: hands_out_push_back assms(1))
  moreover have "hands_out feed start (flush_pending (deliver_blocks ?first 0 (blocks pkt) self))"
    if "\<not> next_expected self < ?first"
    using hands_out_deliver_blocks [OF assms(1) _ len body assms(3)] that
    by (intro hands_out_flush) (simp add: word_less_nat_alt)
  ultimately show ?thesis using assms(1) by (simp add: ingest_data_def Let_def)
qed

lemma receiver_inv_new: "receiver_inv feeds (ReceiverState_new cfg)"
  by (simp add: receiver_inv_def ReceiverState_new_def)

lemma receiver_inv_ingest_session:
  assumes inv: "receiver_inv feeds self" and sess: "ReceiverState.session self = Some sess"
    and ok: "MoldPacket_ok pkt" and feed: "from_feed (feeds sess) pkt"
  shows "receiver_inv feeds (ingest_session pkt self)"
proof -
  let ?h = "MoldPacket.header pkt"
  define mid where "mid = bootstrap ?h self"
  have fixed: "ReceiverState.session mid = Some sess" "bootstrapped mid"
    "ReceiverState.start_sequence mid = ReceiverState.start_sequence self"
    using sess by (simp_all add: mid_def bootstrap_def)
  obtain start where start: "hands_out (feeds sess) start mid"
    "ReceiverState.start_sequence mid \<noteq> 0 \<longrightarrow> start = unat (ReceiverState.start_sequence mid)"
  proof (cases "bootstrapped self")
    case True
    with inv sess that show thesis by (auto simp: receiver_inv_def mid_def bootstrap_def)
  next
    case False
    with inv sess that [of "unat (next_expected mid)"] show thesis
      by (simp add: receiver_inv_def mid_def bootstrap_def hands_out_def pending_from_def split: if_splits)
  qed
  have keep: "receiver_inv feeds r" if "same_setup mid r" "hands_out (feeds sess) start r" for r
    using that fixed start(2) by (auto simp: receiver_inv_def same_setup_def)
  have "hands_out (feeds sess) start (ingest_data pkt mid)"
    using ok by (intro hands_out_ingest_data start(1) feed) (simp add: MoldPacket_ok_def Let_def)
  then have "receiver_inv feeds (ingest_data pkt mid)" by (rule keep [rotated]) simp
  moreover have "receiver_inv feeds (push_back (Inr (Heartbeat n)) mid)" for n
    by (rule keep) (simp_all add: hands_out_push_back start(1))
  moreover have "receiver_inv feeds (push_back (Inr (EndOfSession n)) (mid\<lparr>eos := True\<rparr>))" for n
    by (rule keep) (use start(1) in \<open>simp_all add: same_setup_def push_back_def hands_out_def\<close>)
  ultimately show ?thesis
    by (simp add: ingest_session_def Let_def mid_def [symmetric])
qed

lemma receiver_inv_ingest:
  assumes "receiver_inv feeds self" "MoldPacket_ok pkt"
    "from_feed (feeds (MoldPacketHeader.session (MoldPacket.header pkt))) pkt"
  shows "receiver_inv feeds (ReceiverState_ingest pkt self)"
proof (cases "ReceiverState.session self")
  case None
  then have "receiver_inv feeds (self\<lparr>ReceiverState.session := Some sess\<rparr>)" for sess
    using assms(1) by (auto simp: receiver_inv_def split: if_splits)
  then show ?thesis
    using None assms(2,3) by (simp add: ReceiverState_ingest_def receiver_inv_ingest_session)
next
  case (Some sess)
  have "receiver_inv feeds (push_back (Inl (SessionMismatch a b)) self)" for a b
    using assms(1)
    by (auto simp: receiver_inv_def push_back_def hands_out_def split: if_splits)
  with Some assms show ?thesis
    by (auto simp: ReceiverState_ingest_def Let_def intro: receiver_inv_ingest_session)
qed

text \<open>A run of the receiver over the datagrams that reach it.\<close>

definition receive :: "MoldConfig \<Rightarrow> MoldPacket list \<Rightarrow> ReceiverState" where
  "receive cfg pkts = fold ReceiverState_ingest pkts (ReceiverState_new cfg)"

definition sent_by :: "(bytes \<Rightarrow> nat \<Rightarrow> bytes) \<Rightarrow> MoldPacket \<Rightarrow> bool" where
  "sent_by feeds p = (MoldPacket_ok p
    \<and> from_feed (feeds (MoldPacketHeader.session (MoldPacket.header p))) p)"

lemma receiver_inv_receive:
  assumes "\<forall>p \<in> set pkts. sent_by feeds p"
  shows "receiver_inv feeds (receive cfg pkts)"
proof -
  have "receiver_inv feeds self \<Longrightarrow> receiver_inv feeds (fold ReceiverState_ingest pkts self)" for self
    using assms
    by (induction pkts arbitrary: self) (simp_all add: receiver_inv_ingest sent_by_def)
  then show ?thesis by (simp add: receive_def receiver_inv_new)
qed

text \<open>No packet changes the settings.\<close>

definition same_settings :: "ReceiverState \<Rightarrow> ReceiverState \<Rightarrow> bool" where
  "same_settings self self' \<longleftrightarrow>
     max_pending self' = max_pending self
   \<and> ReceiverState.pending_overflow self' = ReceiverState.pending_overflow self
   \<and> ReceiverState.start_sequence self' = ReceiverState.start_sequence self"

lemma same_settings_ingest: "same_settings self (ReceiverState_ingest pkt self)"
proof -
  have "same_settings s (ingest_session pkt s)" for s
    using same_setup_ingest_data [of "bootstrap (MoldPacket.header pkt) s" pkt]
    by (simp add: ingest_session_def Let_def same_setup_def same_settings_def push_back_def bootstrap_def)
  then show ?thesis
    by (simp add: ReceiverState_ingest_def Let_def push_back_def same_settings_def split: option.split)
qed

lemma receive_settings [simp]:
  "max_pending (receive cfg pkts) = max_pending_messages cfg"
  "ReceiverState.pending_overflow (receive cfg pkts) = MoldConfig.pending_overflow cfg"
  "ReceiverState.start_sequence (receive cfg pkts) = MoldConfig.start_sequence cfg"
proof -
  have "same_settings self (fold ReceiverState_ingest pkts self)" for self
  proof (induction pkts arbitrary: self)
    case (Cons p pkts)
    then show ?case
      using same_settings_ingest [of self p] by (simp add: same_settings_def)
  qed (simp add: same_settings_def)
  from this [of "ReceiverState_new cfg"]
  show "max_pending (receive cfg pkts) = max_pending_messages cfg"
    "ReceiverState.pending_overflow (receive cfg pkts) = MoldConfig.pending_overflow cfg"
    "ReceiverState.start_sequence (receive cfg pkts) = MoldConfig.start_sequence cfg"
    by (simp_all add: receive_def ReceiverState_new_def same_settings_def)
qed

section \<open>The buffer of early blocks\<close>

fun pending_limit :: "PendingOverflowPolicy \<Rightarrow> nat \<Rightarrow> nat" where
  "pending_limit DropOldest n = max 1 n"
| "pending_limit Error n = n"

definition pending_bounded :: "ReceiverState \<Rightarrow> bool" where
  "pending_bounded self \<longleftrightarrow> btree_ok (pending self)
    \<and> length (pending self) \<le> pending_limit (ReceiverState.pending_overflow self) (max_pending self)"

lemma pending_bounded_stash: "pending_bounded self \<Longrightarrow> pending_bounded (stash_pending seq d self)"
  using length_btree_insert [of seq d "pending self"] length_btree_insert [of seq d "tl (pending self)"]
  by (auto simp: pending_bounded_def stash_pending_def push_back_def Let_def
      btree_ok_Cons split: PendingOverflowPolicy.split list.split)

lemma pending_bounded_same:
  "same_setup self self' \<Longrightarrow> pending self' = pending self
    \<Longrightarrow> pending_bounded self' = pending_bounded self"
  by (simp add: same_setup_def pending_bounded_def)

lemma pending_deliver_blocks [simp]: "pending (deliver_blocks first_seq i bs self) = pending self"
  by (induction bs arbitrary: i self) (simp_all add: Let_def)

lemma pending_bounded_stash_blocks:
  "pending_bounded self \<Longrightarrow> pending_bounded (stash_blocks first_seq i bs self)"
  by (induction bs arbitrary: i self) (simp_all add: pending_bounded_stash)

lemma flush_pending_shrinks:
  "btree_ok (pending self) \<Longrightarrow> btree_ok (pending (flush_pending self))
    \<and> length (pending (flush_pending self)) \<le> length (pending self)"
proof (induction self rule: flush_pending.induct)
  case (1 self)
  show ?case
  proof (cases "pending self")
    case (Cons e rest)
    obtain seq body where e: "e = (seq, body)" by (cases e)
    have "length (btree_remove seq (pending self)) \<le> length (pending self)"
      by (simp add: btree_remove_def)
    then show ?thesis
      using "1.IH" [OF Cons e [symmetric]] "1.prems" Cons e
      by (auto simp: flush_pending.simps [of self] intro: le_trans)
  qed (use 1 in \<open>simp add: flush_pending.simps [of self]\<close>)
qed

lemma pending_bounded_flush: "pending_bounded self \<Longrightarrow> pending_bounded (flush_pending self)"
  using flush_pending_shrinks [of self] same_setup_flush [of self]
  by (simp add: pending_bounded_def same_setup_def)

lemma pending_bounded_ingest_data: "pending_bounded self \<Longrightarrow> pending_bounded (ingest_data pkt self)"
  using pending_bounded_same [OF same_setup_push_back [of self]]
    pending_bounded_same [OF same_setup_deliver_blocks [of self]]
  by (simp add: ingest_data_def Let_def pending_bounded_stash_blocks pending_bounded_flush)

lemma pending_bounded_ingest: "pending_bounded self \<Longrightarrow> pending_bounded (ReceiverState_ingest pkt self)"
proof -
  have session: "pending_bounded (ingest_session pkt s)" if "pending_bounded s" for s
  proof -
    have "pending_bounded (bootstrap (MoldPacket.header pkt) s)"
      using that by (simp add: pending_bounded_def bootstrap_def)
    then show ?thesis
      by (simp add: ingest_session_def Let_def pending_bounded_ingest_data)
        (simp add: pending_bounded_def push_back_def)
  qed
  assume "pending_bounded self"
  then show ?thesis
    by (auto simp: ReceiverState_ingest_def Let_def split: option.split intro!: session)
      (simp_all add: pending_bounded_def push_back_def)
qed

lemma pending_bounded_receive: "pending_bounded (receive cfg pkts)"
proof -
  have "pending_bounded self \<Longrightarrow> pending_bounded (fold ReceiverState_ingest pkts self)" for self
    by (induction pkts arbitrary: self) (simp_all add: pending_bounded_ingest)
  then show ?thesis
    by (simp add: receive_def ReceiverState_new_def pending_bounded_def)
qed





section \<open>Properties\<close>

text \<open>C13: Whatever datagrams of a publisher are lost, repeated or reordered, the receiver hands out
  (as messages, or as decode errors for undecodable bodies) exactly the blocks of the stream of
  the session it is locked to, from a fixed first number up to its cursor, in order and each
  once; a configured start sequence is that first number.\<close>

theorem receiver_in_order:
  assumes "\<forall>p \<in> set pkts. sent_by feeds p"
  shows "\<exists>sess start.
      (bootstrapped (receive cfg pkts) \<longrightarrow> ReceiverState.session (receive cfg pkts) = Some sess)
    \<and> start \<le> unat (next_expected (receive cfg pkts))
    \<and> (MoldConfig.start_sequence cfg \<noteq> 0 \<longrightarrow> start = unat (MoldConfig.start_sequence cfg))
    \<and> filter is_slot (outbox (receive cfg pkts))
        = map (\<lambda>s. slot (of_nat s) (feeds sess s)) [start ..< unat (next_expected (receive cfg pkts))]"
proof (cases "bootstrapped (receive cfg pkts)")
  case True
  with receiver_inv_receive [OF assms, of cfg] show ?thesis
    by (auto simp: receiver_inv_def hands_out_def)
next
  case False
  with receiver_inv_receive [OF assms, of cfg] show ?thesis
    by (intro exI [of _ "[]"] exI [of _ "unat (next_expected (receive cfg pkts))"])
      (simp add: receiver_inv_def)
qed

definition sample_session :: bytes where
  "sample_session = replicate 10 65"

text \<open>Data packets of the stream whose every block is the one byte 0.\<close>

definition zeros :: "u64 \<Rightarrow> nat \<Rightarrow> MoldPacket" where
  "zeros seq n = \<lparr>MoldPacket.header = \<lparr>MoldPacketHeader.session = sample_session,
     sequence = seq, message_count = of_nat n\<rparr>, MoldPacket.blocks = replicate n \<lparr>data = [0]\<rparr>\<rparr>"

lemma zeros_sent_by:
  assumes "n < 65535" "unat seq + n < 2 ^ 64"
  shows "sent_by (\<lambda>_ _. [0]) (zeros seq n)"
proof -
  have "of_nat n \<noteq> (0xFFFF :: u16)"
  proof
    assume "of_nat n = (0xFFFF :: u16)"
    then have "unat (of_nat n :: u16) = unat (0xFFFF :: u16)" by simp
    then show False using assms(1) by (simp add: unat_of_nat)
  qed
  then show ?thesis
    using assms by (simp add: sent_by_def zeros_def MoldPacket_ok_def from_feed_def Let_def
        sample_session_def block_ok_def is_end_of_session_def mold_consts unat_of_nat)
qed

lemma decode_zero: "Message_decode [0] = Inl (UnknownMessageType 0)"
  by code_simp

lemma replicate_two: "replicate 2 x = [x, x]"
  by (simp add: numeral_2_eq_2)

lemmas receive_simps = replicate_two receive_def MoldConfig_default_def ReceiverState_new_def
  ReceiverState_ingest_def ingest_session_def bootstrap_def ingest_data_def
  flush_pending.simps deliver_def stash_pending_def push_back_def Let_def
  is_heartbeat_def is_end_of_session_def zeros_def decode_zero btree_remove_def mold_consts
  word_le_nat_alt word_less_nat_alt

theorem receiver_in_order_witness:
  "\<exists>sess start.
      (bootstrapped (receive MoldConfig_default [zeros 1 1, zeros 3 1, zeros 2 1])
        \<longrightarrow> ReceiverState.session (receive MoldConfig_default [zeros 1 1, zeros 3 1, zeros 2 1]) = Some sess)
    \<and> filter is_slot (outbox (receive MoldConfig_default [zeros 1 1, zeros 3 1, zeros 2 1]))
        = map (\<lambda>s. slot (of_nat s) [0])
            [start ..< unat (next_expected (receive MoldConfig_default [zeros 1 1, zeros 3 1, zeros 2 1]))]"
  using receiver_in_order [of "[zeros 1 1, zeros 3 1, zeros 2 1]" "\<lambda>_ _. [0]" MoldConfig_default]
  by (auto simp: zeros_sent_by)

text \<open>C15: The buffer of early blocks stays sorted and never holds more than the configured number of
  blocks; the drop-oldest policy keeps room for one block even when that number is zero.\<close>

theorem receiver_pending_bounded:
  "btree_ok (pending (receive cfg pkts))
   \<and> length (pending (receive cfg pkts)) \<le> (case MoldConfig.pending_overflow cfg of
        DropOldest \<Rightarrow> max 1 (max_pending_messages cfg) | Error \<Rightarrow> max_pending_messages cfg)"
  using pending_bounded_receive [of cfg pkts]
  by (cases "MoldConfig.pending_overflow cfg") (simp_all add: pending_bounded_def)



text \<open>A buffered block that is then delivered from another packet is never removed from the
  buffer, and from then on nothing is taken out of the buffer: after the datagrams 1, 3, 2--3,
  5 and 4 the receiver waits for block 5 while it holds block 5.\<close>

lemma receiver_stale_block_stalls:
  "next_expected (receive MoldConfig_default [zeros 1 1, zeros 3 1, zeros 2 2, zeros 5 1, zeros 4 1]) = 5
   \<and> pending (receive MoldConfig_default [zeros 1 1, zeros 3 1, zeros 2 2, zeros 5 1, zeros 4 1])
      = [(3, [0]), (5, [0])]"
  by (simp add: receive_simps)

end
