(* ===== verification/Itch_Mold_Request.thy ===== *)
theory Itch_Mold_Request
  imports Itch_Mold_Codec
begin

text \<open>
  The MoldUDP64 re-request service (\<open>itch-mold/src/request_server.rs\<close>): the ring
  buffer of recent frames, the server side of a connection and the client side
  of one request.  A TCP connection is the list of bytes that arrive on it; the
  cache is shared with the publisher, so the server sees a fresh cache at every
  request.
\<close>

section \<open>Definitions\<close>

abbreviation STATUS_OK :: u32 where "STATUS_OK \<equiv> 0x00000000"
abbreviation STATUS_HOLE :: u32 where "STATUS_HOLE \<equiv> 0xFFFFFFFE"
abbreviation STATUS_END_OF_SESSION :: u32 where "STATUS_END_OF_SESSION \<equiv> 0xFFFFFFFF"
abbreviation DEFAULT_CACHE_CAPACITY :: nat where "DEFAULT_CACHE_CAPACITY \<equiv> 16384"
abbreviation REQUEST_FRAME_LEN :: nat where "REQUEST_FRAME_LEN \<equiv> 12"
abbreviation RESPONSE_HEADER_LEN :: nat where "RESPONSE_HEADER_LEN \<equiv> 8"
definition MAX_RESPONSE_FRAMES :: u32 where "MAX_RESPONSE_FRAMES = 65536"

record CachedFrame =
  sequence :: u64
  body :: bytes

record RingBufferSeqStore =
  inner :: "CachedFrame list"
  capacity :: nat
  eos :: bool

definition RingBufferSeqStore_with_capacity :: "nat \<Rightarrow> RingBufferSeqStore" where
  "RingBufferSeqStore_with_capacity n = \<lparr>inner = [], capacity = max n 1, eos = False\<rparr>"

definition RingBufferSeqStore_push :: "CachedFrame \<Rightarrow> RingBufferSeqStore \<Rightarrow> RingBufferSeqStore" where
  "RingBufferSeqStore_push frame self =
    (let self = (if length (inner self) = capacity self then self\<lparr>inner := tl (inner self)\<rparr> else self)
     in self\<lparr>inner := inner self @ [frame]\<rparr>)"

definition RingBufferSeqStore_mark_end_of_session :: "RingBufferSeqStore \<Rightarrow> RingBufferSeqStore" where
  "RingBufferSeqStore_mark_end_of_session self = self\<lparr>eos := True\<rparr>"

abbreviation RingBufferSeqStore_is_end_of_session :: "RingBufferSeqStore \<Rightarrow> bool" where
  "RingBufferSeqStore_is_end_of_session self \<equiv> eos self"

abbreviation RingBufferSeqStore_len :: "RingBufferSeqStore \<Rightarrow> nat" where
  "RingBufferSeqStore_len self \<equiv> length (inner self)"

abbreviation RingBufferSeqStore_is_empty :: "RingBufferSeqStore \<Rightarrow> bool" where
  "RingBufferSeqStore_is_empty self \<equiv> (inner self = [])"

definition RingBufferSeqStore_first_sequence :: "RingBufferSeqStore \<Rightarrow> u64 option" where
  "RingBufferSeqStore_first_sequence self =
    (case inner self of [] \<Rightarrow> None | f # _ \<Rightarrow> Some (CachedFrame.sequence f))"

definition RingBufferSeqStore_last_sequence :: "RingBufferSeqStore \<Rightarrow> u64 option" where
  "RingBufferSeqStore_last_sequence self =
    (if inner self = [] then None else Some (CachedFrame.sequence (last (inner self))))"

text \<open>\<open>binary_search_by_key\<close> on a deque sorted by strictly increasing keys: the index of the
  key, or nothing.\<close>

fun index_of_sequence :: "u64 \<Rightarrow> CachedFrame list \<Rightarrow> nat option" where
  "index_of_sequence s [] = None"
| "index_of_sequence s (f # fs) =
    (if CachedFrame.sequence f = s then Some 0 else map_option Suc (index_of_sequence s fs))"

text \<open>The loop of \<open>lookup\<close>; \<open>cap\<close> is the number of frames that still fit.\<close>

fun take_run :: "u64 \<Rightarrow> nat \<Rightarrow> CachedFrame list \<Rightarrow> CachedFrame list" where
  "take_run next_expected cap [] = []"
| "take_run next_expected cap (f # fs) =
    (if cap = 0 then []
     else if CachedFrame.sequence f \<noteq> next_expected then []
     else f # take_run (saturating_add next_expected 1) (cap - 1) fs)"

definition RingBufferSeqStore_lookup :: "RingBufferSeqStore \<Rightarrow> u64 \<Rightarrow> u32 \<Rightarrow> CachedFrame list" where
  "RingBufferSeqStore_lookup self start_seq count =
    (let cap = unat (min count MAX_RESPONSE_FRAMES) in
     case index_of_sequence start_seq (inner self) of
       None \<Rightarrow> []
     | Some idx \<Rightarrow> take_run start_seq cap (drop idx (inner self)))"

definition RingBufferSeqStore_status_for :: "RingBufferSeqStore \<Rightarrow> u64 \<Rightarrow> u32 \<Rightarrow> u32 \<Rightarrow> u32" where
  "RingBufferSeqStore_status_for self start_seq count frames_returned =
    (if frames_returned = min count MAX_RESPONSE_FRAMES then STATUS_OK
     else
       let asked_end = saturating_add start_seq (ucast (min count MAX_RESPONSE_FRAMES)) in
       case RingBufferSeqStore_last_sequence self of
         Some l \<Rightarrow>
           if start_seq > l \<and> eos self then STATUS_END_OF_SESSION
           else if asked_end > l + 1 \<and> eos self then STATUS_END_OF_SESSION
           else STATUS_HOLE
       | None \<Rightarrow> if eos self then STATUS_END_OF_SESSION else STATUS_HOLE)"

subsection \<open>The server side of a connection\<close>

fun write_frames :: "CachedFrame list \<Rightarrow> bytes \<Rightarrow> MoldError + bytes" where
  "write_frames [] out = Inr out"
| "write_frames (f # fs) out =
    (if length (body f) > MAX_BLOCK_LEN then Inl (BlockTooLarge (length (body f)) MAX_BLOCK_LEN)
     else write_frames fs (out @ to_be 2 (unat (of_nat (length (body f)) :: u16)) @ body f))"

definition write_response :: "u32 \<Rightarrow> CachedFrame list \<Rightarrow> MoldError + bytes" where
  "write_response status frames =
    write_frames frames (to_be 4 (unat status) @ to_be 4 (unat (of_nat (length frames) :: u32)))"

definition serve_request :: "RingBufferSeqStore \<Rightarrow> bytes \<Rightarrow> MoldError + bytes" where
  "serve_request cache buf =
    (let seq = of_nat (be_val (subslice buf 0 8)) :: u64;
         count = of_nat (be_val (subslice buf 8 4)) :: u32 in
     if count = 0 then write_response STATUS_OK []
     else
       let frames = RingBufferSeqStore_lookup cache seq count;
           status = RingBufferSeqStore_status_for cache seq count (of_nat (length frames))
       in write_response status frames)"

text \<open>\<open>caches k\<close> is the cache at the \<open>k\<close>-th request; the result is what was written, and how the
  connection ended.  An incomplete last frame ends it like the end of the stream.\<close>

function serve_conn ::
  "(nat \<Rightarrow> RingBufferSeqStore) \<Rightarrow> nat \<Rightarrow> bytes \<Rightarrow> bytes \<times> (MoldError + unit)" where
  "serve_conn caches k stream =
    (if length stream < REQUEST_FRAME_LEN then ([], Inr ())
     else case serve_request (caches k) (take REQUEST_FRAME_LEN stream) of
       Inl err \<Rightarrow> ([], Inl err)
     | Inr out \<Rightarrow>
         let (outs, r) = serve_conn caches (Suc k) (drop REQUEST_FRAME_LEN stream)
         in (out @ outs, r))"
  by pat_completeness auto

termination
  by (relation "measure (\<lambda>(_, _, stream). length stream)") auto

declare serve_conn.simps [simp del]

subsection \<open>The client side of one request\<close>

record RequestResponse =
  status :: u32
  frames :: "CachedFrame list"

definition request_frame :: "u64 \<Rightarrow> u32 \<Rightarrow> bytes" where
  "request_frame seq count =
    (let req = replicate REQUEST_FRAME_LEN 0;
         req = copy_from_slice req 0 (to_be 8 (unat seq));
         req = copy_from_slice req 8 (to_be 4 (unat count))
     in req)"

definition read_exact :: "nat \<Rightarrow> bytes \<Rightarrow> MoldError + bytes \<times> bytes" where
  "read_exact n stream =
    (if length stream < n then Inl (Io ''unexpected end of file'')
     else Inr (take n stream, drop n stream))"

fun read_frames :: "nat \<Rightarrow> u64 \<Rightarrow> bytes \<Rightarrow> MoldError + CachedFrame list \<times> bytes" where
  "read_frames 0 next_seq stream = Inr ([], stream)"
| "read_frames (Suc n) next_seq stream =
    and_then (read_exact 2 stream) (\<lambda>(len_buf, stream).
    let len = be_val len_buf in
    if len = 0 then Inl EmptyBlock
    else if len > MAX_BLOCK_LEN then Inl (BlockTooLarge len MAX_BLOCK_LEN)
    else and_then (read_exact len stream) (\<lambda>(b, stream).
      and_then (read_frames n (saturating_add next_seq 1) stream) (\<lambda>(fs, stream).
        Inr (\<lparr>CachedFrame.sequence = next_seq, body = b\<rparr> # fs, stream))))"

definition RequestClient_request :: "u64 \<Rightarrow> bytes \<Rightarrow> MoldError + RequestResponse \<times> bytes" where
  "RequestClient_request seq stream =
    and_then (read_exact RESPONSE_HEADER_LEN stream) (\<lambda>(hdr, stream).
    let st = of_nat (be_val (subslice hdr 0 4)) :: u32;
        frame_count = of_nat (be_val (subslice hdr 4 4)) :: u32 in
    if frame_count > MAX_RESPONSE_FRAMES
    then Inl (BlockTooLarge (unat frame_count) (unat MAX_RESPONSE_FRAMES))
    else and_then (read_frames (unat frame_count) seq stream) (\<lambda>(fs, stream).
      Inr (\<lparr>status = st, frames = fs\<rparr>, stream)))"

section \<open>Runs of consecutive frames\<close>

definition frame_ok :: "CachedFrame \<Rightarrow> bool" where
  "frame_ok f = (0 < length (body f) \<and> length (body f) \<le> 1024)"

definition frame_wire :: "CachedFrame \<Rightarrow> bytes" where
  "frame_wire f = to_be 2 (length (body f)) @ body f"

fun numbered :: "u64 \<Rightarrow> CachedFrame list \<Rightarrow> bool" where
  "numbered n [] = True"
| "numbered n (f # fs) = (CachedFrame.sequence f = n \<and> numbered (saturating_add n 1) fs)"

lemma numbered_take_run: "numbered n (take_run n cap fs)"
  by (induction fs arbitrary: n cap) simp_all

lemma length_take_run: "length (take_run n cap fs) \<le> cap"
proof (induction fs arbitrary: n cap)
  case (Cons f fs)
  show ?case using Cons [of "saturating_add n 1" "cap - 1"] by (cases cap) simp_all
qed simp

lemma set_take_run: "set (take_run n cap fs) \<subseteq> set fs"
proof (induction fs arbitrary: n cap)
  case (Cons f fs)
  show ?case using Cons [of "saturating_add n 1" "cap - 1"] by auto
qed simp

lemma take_run_numbered: "numbered n fs \<Longrightarrow> take_run n cap fs = take cap fs"
  by (induction fs arbitrary: n cap) (simp_all add: take_Cons')

text \<open>Below the last value of \<open>u64\<close> saturating addition is addition.\<close>

lemma saturating_add_one:
  "unat (n :: u64) + 1 < 2 ^ 64 \<Longrightarrow> saturating_add n 1 = n + 1"
  by (simp add: word_unat_eq_iff unat_saturating_add unat_word_ariths)

lemma numbered_drop:
  "numbered n fs \<Longrightarrow> unat n + length fs < 2 ^ 64 \<Longrightarrow> numbered (n + of_nat i) (drop i fs)"
proof (induction fs arbitrary: n i)
  case (Cons f fs)
  show ?case
  proof (cases i)
    case 0
    then show ?thesis using Cons.prems by simp
  next
    case (Suc j)
    have eq: "saturating_add n 1 = n + 1" "unat (n + 1) = unat n + 1"
      using Cons.prems(2) by (simp_all add: saturating_add_one unat_word_ariths)
    then show ?thesis
      using Cons.IH [of "n + 1" j] Cons.prems Suc by (simp add: add.assoc)
  qed
qed simp

lemma index_of_sequence_numbered:
  "numbered n fs \<Longrightarrow> unat n + length fs < 2 ^ 64
    \<Longrightarrow> index_of_sequence s fs
      = (if unat n \<le> unat s \<and> unat s < unat n + length fs then Some (unat s - unat n) else None)"
proof (induction fs arbitrary: n)
  case (Cons f fs)
  have eq: "saturating_add n 1 = n + 1" "unat (n + 1) = unat n + 1"
    using Cons.prems(2) by (simp_all add: saturating_add_one unat_word_ariths)
  have IH: "index_of_sequence s fs = (if unat n + 1 \<le> unat s \<and> unat s < unat n + 1 + length fs
      then Some (unat s - (unat n + 1)) else None)"
    using Cons.IH [of "n + 1"] Cons.prems by (simp add: eq)
  show ?case
  proof (cases "n = s")
    case True
    then show ?thesis using Cons.prems(1) by simp
  next
    case False
    then have "unat n \<noteq> unat s" by (simp add: word_unat_eq_iff)
    then show ?thesis using Cons.prems(1) False IH by auto
  qed
qed simp

section \<open>The ring buffer\<close>

definition ring_ok :: "RingBufferSeqStore \<Rightarrow> bool" where
  "ring_ok self = (0 < capacity self \<and> length (inner self) \<le> capacity self)"

lemma push_inner:
  "ring_ok self \<Longrightarrow> inner (RingBufferSeqStore_push f self)
    = drop (Suc (length (inner self)) - capacity self) (inner self @ [f])"
  by (cases "inner self") (auto simp: ring_ok_def RingBufferSeqStore_push_def Let_def)

lemma ring_ok_push: "ring_ok self \<Longrightarrow> ring_ok (RingBufferSeqStore_push f self)"
  by (cases "inner self") (auto simp: ring_ok_def RingBufferSeqStore_push_def Let_def)

lemma capacity_push [simp]: "capacity (RingBufferSeqStore_push f self) = capacity self"
  by (simp add: RingBufferSeqStore_push_def Let_def)

lemma pushes_inner:
  "ring_ok self \<Longrightarrow> inner (fold RingBufferSeqStore_push fs self)
    = drop (length (inner self) + length fs - capacity self) (inner self @ fs)"
proof (induction fs arbitrary: self)
  case Nil
  then show ?case by (simp add: ring_ok_def)
next
  case (Cons f fs)
  define d where "d = Suc (length (inner self)) - capacity self"
  have d: "d \<le> Suc (length (inner self))" by (simp add: d_def)
  have "drop d ((inner self @ [f]) @ fs) = drop d (inner self @ [f]) @ fs"
    using d by (subst drop_append) simp
  then have "inner (RingBufferSeqStore_push f self) @ fs = drop d (inner self @ f # fs)"
    by (simp add: push_inner [OF Cons.prems] d_def [symmetric] del: drop_append)
  moreover have "length (inner (RingBufferSeqStore_push f self)) = Suc (length (inner self)) - d"
    by (simp add: push_inner [OF Cons.prems] d_def)
  moreover have "Suc (length (inner self)) - d + length fs - capacity self + d
      = length (inner self) + length (f # fs) - capacity self"
    using Cons.prems by (auto simp: d_def ring_ok_def)
  ultimately show ?case
    using Cons.IH [OF ring_ok_push [OF Cons.prems, of f]]
    by (simp only: capacity_push drop_drop fold_simps(2) comp_apply)
qed

section \<open>The wire format\<close>

lemma write_frames_wire:
  "\<forall>f \<in> set fs. frame_ok f \<Longrightarrow> write_frames fs out = Inr (out @ concat (map frame_wire fs))"
  by (induction fs arbitrary: out)
    (simp_all add: frame_ok_def frame_wire_def mold_consts unat_of_nat)

lemma read_exact_append: "length xs = n \<Longrightarrow> read_exact n (xs @ ys) = Inr (xs, ys)"
  by (simp add: read_exact_def)

lemma read_frames_Suc_wire:
  assumes "frame_ok f" "CachedFrame.sequence f = n"
  shows "read_frames (Suc k) n (frame_wire f @ rest)
    = and_then (read_frames k (saturating_add n 1) rest) (\<lambda>(fs, stream). Inr (f # fs, stream))"
proof -
  have "be_val (to_be 2 (length (body f))) = length (body f)"
    using assms(1) by (simp add: be_val_to_be frame_ok_def)
  then show ?thesis using assms
    by (cases f) (simp add: frame_wire_def read_exact_append frame_ok_def mold_consts Let_def)
qed

lemma read_frames_wire:
  "\<forall>f \<in> set fs. frame_ok f \<Longrightarrow> numbered n fs
    \<Longrightarrow> read_frames (length fs) n (concat (map frame_wire fs) @ rest) = Inr (fs, rest)"
  by (induction fs arbitrary: n) (simp_all add: read_frames_Suc_wire del: read_frames.simps(2))

lemma request_wire:
  assumes "\<forall>f \<in> set fs. frame_ok f" "numbered n fs" "length fs \<le> 65536"
  shows "\<exists>out. write_response st fs = Inr out
    \<and> RequestClient_request n (out @ rest) = Inr (\<lparr>status = st, frames = fs\<rparr>, rest)"
proof -
  define hdr where "hdr = to_be 4 (unat st) @ to_be 4 (unat (of_nat (length fs) :: u32))"
  have count: "unat (of_nat (length fs) :: u32) = length fs"
    using assms(3) by (simp add: unat_of_nat)
  have st: "unat st < 2 ^ LENGTH(32)" by (rule unsigned_less)
  have hdr: "length hdr = 8" "subslice hdr 0 4 = to_be 4 (unat st)" "subslice hdr 4 4 = to_be 4 (length fs)"
    by (simp_all add: hdr_def subslice_def count)
  have "write_response st fs = Inr (hdr @ concat (map frame_wire fs))"
    by (simp add: write_response_def write_frames_wire assms(1) hdr_def)
  moreover have "RequestClient_request n ((hdr @ concat (map frame_wire fs)) @ rest)
      = Inr (\<lparr>status = st, frames = fs\<rparr>, rest)"
    using st count assms hdr
    by (simp add: RequestClient_request_def read_exact_append read_frames_wire Let_def be_val_to_be
        MAX_RESPONSE_FRAMES_def word_less_nat_alt)
  ultimately show ?thesis by blast
qed

lemma serve_request_frame:
  "serve_request cache (request_frame seq count)
    = (if count = 0 then write_response STATUS_OK []
       else write_response (RingBufferSeqStore_status_for cache seq count
              (of_nat (length (RingBufferSeqStore_lookup cache seq count))))
              (RingBufferSeqStore_lookup cache seq count))"
proof -
  have "unat seq < 2 ^ LENGTH(64)" "unat count < 2 ^ LENGTH(32)" by (rule unsigned_less)+
  moreover have "request_frame seq count = to_be 8 (unat seq) @ to_be 4 (unat count)"
    by (simp add: request_frame_def copy_from_slice_def MAX_RESPONSE_FRAMES_def Let_def)
  ultimately show ?thesis
    by (simp add: serve_request_def subslice_def be_val_to_be Let_def)
qed

lemma length_request_frame [simp]: "length (request_frame seq count) = 12"
  by (simp add: request_frame_def copy_from_slice_def MAX_RESPONSE_FRAMES_def Let_def)

lemma lookup_frames:
  "set (RingBufferSeqStore_lookup cache seq count) \<subseteq> set (inner cache)"
  "numbered seq (RingBufferSeqStore_lookup cache seq count)"
  "length (RingBufferSeqStore_lookup cache seq count) \<le> unat (min count MAX_RESPONSE_FRAMES)"
  using set_take_run set_drop_subset
  by (fastforce simp: RingBufferSeqStore_lookup_def Let_def numbered_take_run length_take_run
      split: option.split)+

lemma serve_request_answer:
  assumes "\<forall>f \<in> set (inner cache). frame_ok f"
  shows "\<exists>out. serve_request cache (request_frame seq count) = Inr out
    \<and> (\<forall>rest. RequestClient_request seq (out @ rest)
      = Inr (\<lparr>status = RingBufferSeqStore_status_for cache seq count
                (of_nat (length (RingBufferSeqStore_lookup cache seq count))),
              frames = RingBufferSeqStore_lookup cache seq count\<rparr>, rest))"
proof -
  define fs where "fs = RingBufferSeqStore_lookup cache seq count"
  define st where "st = RingBufferSeqStore_status_for cache seq count (of_nat (length fs))"
  have "\<forall>f \<in> set fs. frame_ok f"
    using assms lookup_frames(1) [of cache seq count] by (auto simp: fs_def)
  moreover have "numbered seq fs" by (simp add: fs_def lookup_frames(2))
  moreover have "length fs \<le> 65536"
    using lookup_frames(3) [of cache seq count]
    by (simp add: fs_def MAX_RESPONSE_FRAMES_def min_def word_le_nat_alt split: if_splits)
  ultimately have wire: "\<exists>out. write_response st fs = Inr out
      \<and> RequestClient_request seq (out @ rest) = Inr (\<lparr>status = st, frames = fs\<rparr>, rest)" for rest
    by (rule request_wire)
  then obtain out where out: "write_response st fs = Inr out" by blast
  with wire have "RequestClient_request seq (out @ rest) = Inr (\<lparr>status = st, frames = fs\<rparr>, rest)" for rest
    by fastforce
  moreover have "fs = [] \<and> st = STATUS_OK" if "count = 0"
    using lookup_frames(3) [of cache seq count] that
    by (simp add: fs_def st_def RingBufferSeqStore_status_for_def min_def)
  ultimately show ?thesis
    using out by (auto simp: serve_request_frame fs_def [symmetric] st_def [symmetric])
qed

lemma serve_conn_append:
  "length req = 12 \<Longrightarrow> serve_request (caches k) req = Inr out
    \<Longrightarrow> serve_conn caches k (req @ stream)
      = (out @ fst (serve_conn caches (Suc k) stream), snd (serve_conn caches (Suc k) stream))"
  by (simp add: serve_conn.simps [of caches k "req @ stream"] MAX_RESPONSE_FRAMES_def Let_def split_beta)

section \<open>The cache as a window on the stream\<close>

text \<open>A cache of \<open>n\<close> frames after the publisher has pushed \<open>fs\<close>, ended or not.\<close>

definition cache_of :: "nat \<Rightarrow> CachedFrame list \<Rightarrow> bool \<Rightarrow> RingBufferSeqStore" where
  "cache_of n fs e = (fold RingBufferSeqStore_push fs (RingBufferSeqStore_with_capacity n))\<lparr>eos := e\<rparr>"

lemma inner_cache_of: "inner (cache_of n fs e) = drop (length fs - max n 1) fs"
  using pushes_inner [of "RingBufferSeqStore_with_capacity n" fs]
  by (simp add: cache_of_def RingBufferSeqStore_with_capacity_def ring_ok_def)

lemma index_of_sequence_window:
  assumes "numbered a fs" "unat a + length fs < 2 ^ 64" "unat a + i < 2 ^ 64" "d \<le> length fs"
  shows "index_of_sequence (a + of_nat i) (drop d fs)
    = (if d \<le> i \<and> i < length fs then Some (i - d) else None)"
proof -
  have "unat (a + of_nat d) = unat a + d" "unat (a + of_nat i) = unat a + i"
    using assms(2-4) by (simp_all add: unat_word_ariths unat_of_nat)
  moreover have "numbered (a + of_nat d) (drop d fs)"
    using assms(1,2) by (rule numbered_drop)
  moreover have "unat a + d + length (drop d fs) < 2 ^ 64" using assms(2,4) by simp
  ultimately show ?thesis
    using index_of_sequence_numbered [of "a + of_nat d" "drop d fs" "a + of_nat i"] assms(4)
    by auto
qed

lemma lookup_cache_of:
  assumes "numbered a fs" "unat a + length fs < 2 ^ 64" "unat a + i < 2 ^ 64"
  shows "RingBufferSeqStore_lookup (cache_of n fs e) (a + of_nat i) count
    = (if length fs - max n 1 \<le> i \<and> i < length fs
       then take (min (unat count) 65536) (drop i fs) else [])"
proof -
  define d where "d = length fs - max n (Suc 0)"
  have "drop (i - d) (drop d fs) = drop i fs" if "d \<le> i" using that by simp
  moreover have "take_run (a + of_nat i) cap (drop i fs) = take cap (drop i fs)" for cap
    using assms(1,2) by (intro take_run_numbered numbered_drop)
  moreover have "unat (min count MAX_RESPONSE_FRAMES) = min (unat count) 65536"
    by (simp add: min_def MAX_RESPONSE_FRAMES_def word_le_nat_alt)
  moreover have "inner (cache_of n fs e) = drop d fs" by (simp add: inner_cache_of d_def)
  moreover have "index_of_sequence (a + of_nat i) (drop d fs)
      = (if d \<le> i \<and> i < length fs then Some (i - d) else None)"
    by (rule index_of_sequence_window [OF assms]) (simp add: d_def)
  ultimately show ?thesis
    by (simp add: RingBufferSeqStore_lookup_def Let_def d_def [symmetric] del: drop_drop)
qed

lemma last_sequence_cache_of:
  assumes "numbered a fs" "unat a + length fs < 2 ^ 64" "fs \<noteq> []"
  shows "RingBufferSeqStore_last_sequence (cache_of n fs e) = Some (a + of_nat (length fs - 1))"
proof -
  have "numbered (a + of_nat (length fs - 1)) (drop (length fs - 1) fs)"
    using assms(1,2) by (rule numbered_drop)
  moreover have "drop (length fs - 1) fs = [last fs]"
    using assms(3) by (cases fs rule: rev_cases) simp_all
  moreover have "length fs - max n 1 < length fs" using assms(3) by simp
  ultimately show ?thesis
    by (simp add: RingBufferSeqStore_last_sequence_def inner_cache_of)
qed

section \<open>Properties\<close>

text \<open>C16: Over one connection the re-request server answers every request, in order, from the
  cache as it is at that moment, and the client reads back exactly the frames of that lookup,
  under their own sequence numbers, with the status the server chose.\<close>

theorem request_conversation:
  assumes "\<forall>k. \<forall>f \<in> set (inner (caches k)). frame_ok f"
  shows "\<exists>outs. serve_conn caches k (concat (map (\<lambda>(seq, count). request_frame seq count) reqs))
        = (concat outs, Inr ())
    \<and> length outs = length reqs
    \<and> (\<forall>i < length reqs. \<forall>rest. RequestClient_request (fst (reqs ! i)) (outs ! i @ rest)
        = Inr (\<lparr>status = RingBufferSeqStore_status_for (caches (k + i)) (fst (reqs ! i)) (snd (reqs ! i))
              (of_nat (length (RingBufferSeqStore_lookup (caches (k + i)) (fst (reqs ! i)) (snd (reqs ! i))))),
            frames = RingBufferSeqStore_lookup (caches (k + i)) (fst (reqs ! i)) (snd (reqs ! i))\<rparr>, rest))"
proof (induction reqs arbitrary: k)
  case Nil
  show ?case by (simp add: serve_conn.simps MAX_RESPONSE_FRAMES_def)
next
  case (Cons req reqs)
  obtain seq count where req: "req = (seq, count)" by (cases req)
  obtain out where out: "serve_request (caches k) (request_frame seq count) = Inr out"
    and client: "\<forall>rest. RequestClient_request seq (out @ rest)
      = Inr (\<lparr>status = RingBufferSeqStore_status_for (caches k) seq count
                (of_nat (length (RingBufferSeqStore_lookup (caches k) seq count))),
              frames = RingBufferSeqStore_lookup (caches k) seq count\<rparr>, rest)"
    using serve_request_answer [of "caches k" seq count] assms by blast
  obtain outs where IH: "serve_conn caches (Suc k) (concat (map (\<lambda>(seq, count). request_frame seq count) reqs))
        = (concat outs, Inr ())" "length outs = length reqs"
    and clients: "\<forall>i < length reqs. \<forall>rest. RequestClient_request (fst (reqs ! i)) (outs ! i @ rest)
        = Inr (\<lparr>status = RingBufferSeqStore_status_for (caches (Suc k + i)) (fst (reqs ! i)) (snd (reqs ! i))
              (of_nat (length (RingBufferSeqStore_lookup (caches (Suc k + i)) (fst (reqs ! i)) (snd (reqs ! i))))),
            frames = RingBufferSeqStore_lookup (caches (Suc k + i)) (fst (reqs ! i)) (snd (reqs ! i))\<rparr>, rest)"
    using Cons.IH [of "Suc k"] by blast
  show ?case
  proof (intro exI [of _ "out # outs"] conjI allI impI)
    show "serve_conn caches k (concat (map (\<lambda>(seq, count). request_frame seq count) (req # reqs)))
        = (concat (out # outs), Inr ())"
      using out IH(1) by (simp add: req serve_conn_append)
    show "length (out # outs) = length (req # reqs)" using IH(2) by simp
    fix i rest
    assume "i < length (req # reqs)"
    then show "RequestClient_request (fst ((req # reqs) ! i)) ((out # outs) ! i @ rest)
      = Inr (\<lparr>status = RingBufferSeqStore_status_for (caches (k + i)) (fst ((req # reqs) ! i)) (snd ((req # reqs) ! i))
          (of_nat (length (RingBufferSeqStore_lookup (caches (k + i)) (fst ((req # reqs) ! i)) (snd ((req # reqs) ! i))))),
        frames = RingBufferSeqStore_lookup (caches (k + i)) (fst ((req # reqs) ! i)) (snd ((req # reqs) ! i))\<rparr>, rest)"
      using client clients by (cases i) (simp_all add: req)
  qed
qed

definition sample_frames :: "CachedFrame list" where
  "sample_frames = [\<lparr>CachedFrame.sequence = 5, body = [1]\<rparr>, \<lparr>CachedFrame.sequence = 6, body = [2, 2]\<rparr>,
     \<lparr>CachedFrame.sequence = 7, body = [3]\<rparr>]"

lemma sample_frames_facts:
  "numbered 5 sample_frames" "length sample_frames = 3" "\<forall>f \<in> set sample_frames. frame_ok f"
  by (simp_all add: sample_frames_def saturating_add_one frame_ok_def)

theorem request_conversation_witness:
  "\<exists>outs. serve_conn (\<lambda>k. cache_of 2 sample_frames (0 < k)) 0 (request_frame 6 4 @ request_frame 5 1)
        = (concat outs, Inr ()) \<and> length outs = 2"
proof -
  have "\<forall>k. \<forall>f \<in> set (inner (cache_of 2 sample_frames (0 < k))). frame_ok f"
    using sample_frames_facts(3) by (auto simp: inner_cache_of dest: in_set_dropD)
  from request_conversation [of "\<lambda>k. cache_of 2 sample_frames (0 < k)" 0 "[(6, 4), (5, 1)]", OF this]
  show ?thesis by auto
qed

text \<open>When the publisher has pushed consecutively numbered frames into a cache of \<open>n\<close> frames, a
  lookup returns exactly the asked stretch of the last \<open>n\<close> frames (cut at the end of the stream
  and at 65536 frames), and nothing for a number that has been evicted or not been pushed.\<close>

lemma request_cache_window:
  assumes "numbered a fs" "unat a + length fs < 2 ^ 64" "unat a + i < 2 ^ 64"
  shows "RingBufferSeqStore_lookup (cache_of n fs e) (a + of_nat i) count
    = (if length fs - max n 1 \<le> i \<and> i < length fs
       then take (min (unat count) 65536) (drop i fs) else [])"
  using assms by (rule lookup_cache_of)

text \<open>The status of an answer says what the frames mean: OK exactly when every asked frame is
  returned; otherwise end-of-session when the session has ended and the request reaches past its
  last frame, and a hole in every other case.\<close>

lemma request_status:
  assumes "numbered a fs" "fs \<noteq> []" "unat a + length fs < 2 ^ 64" "unat a + i + 65536 < 2 ^ 64"
  shows "RingBufferSeqStore_status_for (cache_of n fs e) (a + of_nat i) count
      (of_nat (length (RingBufferSeqStore_lookup (cache_of n fs e) (a + of_nat i) count)))
    = (let asked = min (unat count) 65536 in
       if asked = 0 \<or> length fs - max n 1 \<le> i \<and> i + asked \<le> length fs then STATUS_OK
       else if e \<and> length fs < i + asked then STATUS_END_OF_SESSION else STATUS_HOLE)"
proof -
  define asked where "asked = min (unat count) 65536"
  define r where "r = length (RingBufferSeqStore_lookup (cache_of n fs e) (a + of_nat i) count)"
  have m: "unat (min count MAX_RESPONSE_FRAMES) = asked"
    by (simp add: asked_def min_def MAX_RESPONSE_FRAMES_def word_le_nat_alt)
  have r: "r = (if length fs - max n 1 \<le> i \<and> i < length fs then min (length fs - i) asked else 0)"
    using lookup_cache_of [OF assms(1,3), of i n e count] assms(4)
    by (simp add: r_def asked_def min.commute)
  have "(of_nat r = min count MAX_RESPONSE_FRAMES) = (r = asked)"
    using m r by (auto simp: word_unat_eq_iff unat_of_nat asked_def)
  then have all: "(of_nat r = min count MAX_RESPONSE_FRAMES)
      = (asked = 0 \<or> length fs - max n 1 \<le> i \<and> i + asked \<le> length fs)"
    using r by auto
  define l where "l = a + of_nat (length fs - 1)"
  define asked_end where
    "asked_end = saturating_add (a + of_nat i) (ucast (min count MAX_RESPONSE_FRAMES))"
  have "unat asked_end = unat a + i + asked"
    using assms(4) m by (simp add: asked_end_def unat_saturating_add unat_word_ariths unat_of_nat
        unsigned_ucast_eq take_bit_nat_eq_self asked_def)
  moreover have "unat (l + 1) = unat a + length fs" "unat l = unat a + (length fs - 1)"
    "unat (a + of_nat i) = unat a + i"
    using assms(2-4) by (simp_all add: l_def unat_word_ariths unat_of_nat)
  ultimately have ends: "(l + 1 < asked_end) = (length fs < i + asked)"
    "(l < a + of_nat i) = (length fs \<le> i)"
    using length_greater_0_conv [of fs] assms(2) unfolding word_less_nat_alt by linarith+
  have cache: "RingBufferSeqStore_last_sequence (cache_of n fs b) = Some l" "eos (cache_of n fs b) = b" for b
    using last_sequence_cache_of [OF assms(1,3,2), of n b] by (simp_all add: l_def cache_of_def)
  have "RingBufferSeqStore_status_for (cache_of n fs e) (a + of_nat i) count (of_nat r)
    = (if asked = 0 \<or> length fs - max n 1 \<le> i \<and> i + asked \<le> length fs then STATUS_OK
       else if length fs \<le> i \<and> e then STATUS_END_OF_SESSION
       else if length fs < i + asked \<and> e then STATUS_END_OF_SESSION else STATUS_HOLE)"
    by (simp add: RingBufferSeqStore_status_for_def Let_def all ends cache asked_end_def [symmetric])
  then show ?thesis
    by (auto simp: r_def [symmetric] asked_def [symmetric] Let_def)
qed

end
