(* ===== verification/Itch_Source.thy ===== *)
theory Itch_Source
  imports Itch_Message_Codec
begin

text \<open>
  Message sources and sequence stores of \<open>itch-source\<close>: the \<open>SeqStore\<close> contract of \<open>seqstore.rs\<close> as
  a locale, its two implementations (\<open>impls/ring_buffer_seq_store.rs\<close>, \<open>impls/null_seq_store.rs\<close>), the
  warm-up policies (\<open>policy.rs\<close>, \<open>impls/warmup_from_seqstore.rs\<close>) and the sources over
  sources: paced (\<open>impls/paced.rs\<close>), broadcast (\<open>impls/tee.rs\<close>) and merged by time
  (\<open>impls/merge.rs\<close>).  The locks of the stores are held for a whole operation, so an operation is
  a function on the state behind the lock.  Overflow of the length in \<open>warmup\<close> wraps, as in a release build.
\<close>

section \<open>Definitions\<close>

datatype SourceError =
    Exhausted
  | Backend string
  | Invariant string

subsection \<open>The ring buffer store\<close>

abbreviation DEFAULT_RING_CAPACITY :: nat where "DEFAULT_RING_CAPACITY \<equiv> 65536"

datatype RingBufferSeqStoreError =
    SequenceConflict u64
  | BackingStore string

record RingSeqStore =
  ring_capacity :: nat
  ring_map :: "(u64, Message) btree"
  max_seen :: u64

definition RingSeqStore_with_capacity :: "nat \<Rightarrow> RingSeqStore" where
  "RingSeqStore_with_capacity cap = \<lparr>ring_capacity = max cap 1, ring_map = [], max_seen = 0\<rparr>"

abbreviation RingSeqStore_new :: RingSeqStore where
  "RingSeqStore_new \<equiv> RingSeqStore_with_capacity DEFAULT_RING_CAPACITY"

definition RingSeqStore_store ::
  "RingSeqStore \<Rightarrow> u64 \<Rightarrow> Message \<Rightarrow> (RingBufferSeqStoreError + unit) \<times> RingSeqStore" where
  "RingSeqStore_store self seq msg =
    (case map_of (ring_map self) seq of
       Some existing \<Rightarrow>
         if existing = msg
         then (Inr (), if seq > max_seen self then self\<lparr>max_seen := seq\<rparr> else self)
         else (Inl (SequenceConflict seq), self)
     | None \<Rightarrow>
         let self = (if length (ring_map self) = ring_capacity self
                     then (case ring_map self of
                         [] \<Rightarrow> self
                       | (first, _) # _ \<Rightarrow> self\<lparr>ring_map := btree_remove first (ring_map self)\<rparr>)
                     else self);
             self = self\<lparr>ring_map := btree_insert seq msg (ring_map self)\<rparr>;
             self = (if seq > max_seen self then self\<lparr>max_seen := seq\<rparr> else self)
         in (Inr (), self))"

text \<open>The loop of \<open>range\<close> over \<open>map.range(from..)\<close>; \<open>count\<close> is the number of entries still wanted.\<close>

fun range_run :: "u64 \<Rightarrow> nat \<Rightarrow> (u64 \<times> Message) list \<Rightarrow> (u64 \<times> Message) list" where
  "range_run expected count [] = []"
| "range_run expected count ((s, m) # rest) =
    (if s \<noteq> expected then []
     else (s, m) # (if count = 1 then [] else range_run (saturating_add expected 1) (count - 1) rest))"

definition RingSeqStore_range ::
  "RingSeqStore \<Rightarrow> u64 \<Rightarrow> nat \<Rightarrow> RingBufferSeqStoreError + (u64 \<times> Message) list" where
  "RingSeqStore_range self from_seq count =
    (if count = 0 then Inr []
     else if ring_map self = [] then Inr []
     else Inr (range_run from_seq count (filter (\<lambda>e. from_seq \<le> fst e) (ring_map self))))"

definition RingSeqStore_latest :: "RingSeqStore \<Rightarrow> RingBufferSeqStoreError + u64" where
  "RingSeqStore_latest self = Inr (max_seen self)"

definition RingSeqStore_earliest :: "RingSeqStore \<Rightarrow> RingBufferSeqStoreError + u64" where
  "RingSeqStore_earliest self = Inr (case ring_map self of [] \<Rightarrow> 0 | (first, _) # _ \<Rightarrow> first)"

subsection \<open>The null store\<close>

datatype NullSeqStore = NullSeqStore

definition NullSeqStore_store :: "NullSeqStore \<Rightarrow> u64 \<Rightarrow> Message \<Rightarrow> ('e + unit) \<times> NullSeqStore" where
  "NullSeqStore_store self seq msg = (Inr (), self)"

definition NullSeqStore_range :: "NullSeqStore \<Rightarrow> u64 \<Rightarrow> nat \<Rightarrow> 'e + (u64 \<times> Message) list" where
  "NullSeqStore_range self from_seq count = Inr []"

definition NullSeqStore_latest :: "NullSeqStore \<Rightarrow> 'e + u64" where
  "NullSeqStore_latest self = Inr 0"

definition NullSeqStore_earliest :: "NullSeqStore \<Rightarrow> 'e + u64" where
  "NullSeqStore_earliest self = Inr 0"

subsection \<open>Warm-up policies\<close>

text \<open>A policy is what its \<open>warmup\<close> returns.  The policy over a store takes the operations of the store;
  \<open>show\<close> is the text of a backend error.\<close>

definition StaticPolicy_warmup :: "Message list \<Rightarrow> SourceError + Message list" where
  "StaticPolicy_warmup messages = Inr messages"

definition WarmupFromSeqStore_warmup ::
  "('s \<Rightarrow> 'e + u64) \<Rightarrow> ('s \<Rightarrow> 'e + u64) \<Rightarrow> ('s \<Rightarrow> u64 \<Rightarrow> nat \<Rightarrow> 'e + (u64 \<times> Message) list)
    \<Rightarrow> ('e \<Rightarrow> string) \<Rightarrow> 's \<Rightarrow> SourceError + Message list" where
  "WarmupFromSeqStore_warmup latest earliest read_range show_error store =
    and_then (map_sum (Backend \<circ> show_error) id (latest store)) (\<lambda>l.
    if l = 0 then Inr []
    else
      and_then (map_sum (Backend \<circ> show_error) id (earliest store)) (\<lambda>e.
      let count = unat (l - e + 1) in
      and_then (map_sum (Backend \<circ> show_error) id (read_range store e count)) (\<lambda>entries.
      Inr (map snd entries))))"

subsection \<open>Sources over sources\<close>

text \<open>\<open>IteratorSource\<close>, \<open>ChannelSource\<close>, \<open>Tee\<close> and \<open>PacedSource\<close> are polled; \<open>inner\<close> is what the wrapped
  stream answers if it is polled.\<close>

definition IteratorSource_poll_next :: "Message list \<Rightarrow> (SourceError + Message) option Poll \<times> Message list" where
  "IteratorSource_poll_next iter = (case iter of [] \<Rightarrow> (Ready None, []) | m # ms \<Rightarrow> (Ready (Some (Inr m)), ms))"

fun ChannelSource_poll_next :: "Message option Poll \<Rightarrow> (SourceError + Message) option Poll" where
  "ChannelSource_poll_next (Ready (Some m)) = Ready (Some (Inr m))"
| "ChannelSource_poll_next (Ready None) = Ready None"
| "ChannelSource_poll_next Pending = Pending"

text \<open>What a tee has broadcast.\<close>

fun Tee_poll_next ::
  "(SourceError + Message) option Poll \<Rightarrow> Message list \<Rightarrow> (SourceError + Message) option Poll \<times> Message list" where
  "Tee_poll_next (Ready (Some (Inr m))) broadcast = (Ready (Some (Inr m)), broadcast @ [m])"
| "Tee_poll_next (Ready (Some (Inl e))) broadcast = (Ready (Some (Inl e)), broadcast)"
| "Tee_poll_next (Ready None) broadcast = (Ready None, broadcast)"
| "Tee_poll_next Pending broadcast = (Pending, broadcast)"

datatype Pacing = MaxSpeed | Fixed nat | Realtime

record PacedSource =
  pacing :: Pacing
  paced_pending :: "Message option"
  sleep :: "nat option"
  last_ts_ns :: "u64 option"
  last_tick :: "nat option"

definition paced :: "Pacing \<Rightarrow> PacedSource" where
  "paced p = \<lparr>pacing = p, paced_pending = None, sleep = None, last_ts_ns = None, last_tick = None\<rparr>"

abbreviation ts_of :: "Message \<Rightarrow> u64" where
  "ts_of m \<equiv> Timestamp.as_u64 (Header.timestamp (Message_header m))"

text \<open>Step 3 of \<open>poll_next\<close>: how the message just pulled is emitted at time \<open>now\<close>.\<close>

definition paced_emit :: "nat \<Rightarrow> Message \<Rightarrow> PacedSource \<Rightarrow> (SourceError + Message) option Poll \<times> PacedSource" where
  "paced_emit now item self =
    (case pacing self of
       MaxSpeed \<Rightarrow> (Ready (Some (Inr item)), self\<lparr>last_ts_ns := Some (ts_of item)\<rparr>)
     | Fixed period \<Rightarrow>
         (case last_tick self of
            None \<Rightarrow> (Ready (Some (Inr item)), self\<lparr>last_tick := Some now, last_ts_ns := Some (ts_of item)\<rparr>)
          | Some prev \<Rightarrow>
              let next_tick = prev + period in
              if now \<ge> next_tick
              then (Ready (Some (Inr item)), self\<lparr>last_tick := Some now, last_ts_ns := Some (ts_of item)\<rparr>)
              else (Pending, self\<lparr>paced_pending := Some item, last_tick := Some next_tick, sleep := Some next_tick\<rparr>))
     | Realtime \<Rightarrow>
         let cur_ts = ts_of item in
         (case last_ts_ns self of
            None \<Rightarrow> (Ready (Some (Inr item)), self\<lparr>last_ts_ns := Some cur_ts\<rparr>)
          | Some prev_ts \<Rightarrow>
              if cur_ts \<le> prev_ts then (Ready (Some (Inr item)), self\<lparr>last_ts_ns := Some cur_ts\<rparr>)
              else (Pending, self\<lparr>paced_pending := Some item, sleep := Some (now + unat (cur_ts - prev_ts))\<rparr>)))"

definition paced_pull ::
  "nat \<Rightarrow> (SourceError + Message) option Poll \<Rightarrow> PacedSource \<Rightarrow> (SourceError + Message) option Poll \<times> bool \<times> PacedSource" where
  "paced_pull now inner self =
    (case inner of
       Ready (Some (Inr item)) \<Rightarrow> (case paced_emit now item self of (r, self) \<Rightarrow> (r, True, self))
     | r \<Rightarrow> (r, True, self))"

text \<open>The result, whether the inner stream was polled, and the source afterwards.\<close>

definition PacedSource_poll_next ::
  "nat \<Rightarrow> (SourceError + Message) option Poll \<Rightarrow> PacedSource \<Rightarrow> (SourceError + Message) option Poll \<times> bool \<times> PacedSource" where
  "PacedSource_poll_next now inner self =
    (case sleep self of
       Some deadline \<Rightarrow>
         if now < deadline then (Pending, False, self)
         else
           let self = self\<lparr>sleep := None\<rparr> in
           (case paced_pending self of
              Some msg \<Rightarrow> (Ready (Some (Inr msg)), False, self\<lparr>paced_pending := None, last_ts_ns := Some (ts_of msg)\<rparr>)
            | None \<Rightarrow> paced_pull now inner self)
     | None \<Rightarrow> paced_pull now inner self)"

text \<open>The heap of \<open>MergeByTimestamp\<close> is the list of its messages in any order; \<open>pop\<close> gives one that no
  other precedes, and which one among equals is left open.\<close>

record PendingMessage =
  pending_timestamp :: u64
  source_idx :: nat
  pending_msg :: Message

definition precedes :: "PendingMessage \<Rightarrow> PendingMessage \<Rightarrow> bool" where
  "precedes a b \<longleftrightarrow> pending_timestamp a < pending_timestamp b
    \<or> pending_timestamp a = pending_timestamp b \<and> source_idx a \<le> source_idx b"

definition merge_push :: "PendingMessage \<Rightarrow> PendingMessage list \<Rightarrow> PendingMessage list" where
  "merge_push p heap = p # heap"

inductive merge_poll_next :: "PendingMessage list \<Rightarrow> PendingMessage option \<Rightarrow> PendingMessage list \<Rightarrow> bool" where
  popped: "x \<in> set heap \<Longrightarrow> \<forall>y \<in> set heap. precedes x y \<Longrightarrow> merge_poll_next heap (Some x) (remove1 x heap)"
| ended: "merge_poll_next [] None []"

inductive_cases merge_poll_SomeE: "merge_poll_next heap (Some x) heap'"
inductive_cases merge_poll_NoneE: "merge_poll_next heap None heap'"

text \<open>The messages of a merge polled until it ends.\<close>

inductive merge_run :: "PendingMessage list \<Rightarrow> PendingMessage list \<Rightarrow> bool" where
  ends: "merge_poll_next heap None heap' \<Longrightarrow> merge_run heap []"
| pops: "merge_poll_next heap (Some x) heap' \<Longrightarrow> merge_run heap' xs \<Longrightarrow> merge_run heap (x # xs)"

section \<open>The store contract\<close>

text \<open>The entries a store must return: consecutive numbers from \<open>q\<close>, up to the first gap and at
  most \<open>n\<close> of them.\<close>

fun run_of :: "(u64 \<rightharpoonup> Message) \<Rightarrow> u64 \<Rightarrow> nat \<Rightarrow> (u64 \<times> Message) list" where
  "run_of c q 0 = []"
| "run_of c q (Suc n) =
    (case c q of
       None \<Rightarrow> []
     | Some m \<Rightarrow> (q, m) # (if q = - 1 then [] else run_of c (q + 1) n))"

text \<open>What a reader of a store relies on; \<open>contents\<close> is what the store holds.\<close>

locale seq_store_reader =
  fixes read_range :: "'s \<Rightarrow> u64 \<Rightarrow> nat \<Rightarrow> 'e + (u64 \<times> Message) list"
    and latest earliest :: "'s \<Rightarrow> 'e + u64"
    and contents :: "'s \<Rightarrow> u64 \<rightharpoonup> Message"
    and ok :: "'s \<Rightarrow> bool"
  assumes range_run: "ok s \<Longrightarrow> read_range s q n = Inr (run_of (contents s) q n)"
    and latest_bound: "ok s \<Longrightarrow> \<exists>l. latest s = Inr l \<and> (\<forall>q \<in> dom (contents s). q \<le> l)"
    and earliest_least: "ok s \<Longrightarrow> \<exists>e. earliest s = Inr e
      \<and> (contents s = Map.empty \<and> e = 0 \<or> e \<in> dom (contents s) \<and> (\<forall>q \<in> dom (contents s). e \<le> q))"

text \<open>What a writer relies on too.\<close>

locale seq_store = seq_store_reader read_range latest earliest contents ok
  for read_range :: "'s \<Rightarrow> u64 \<Rightarrow> nat \<Rightarrow> 'e + (u64 \<times> Message) list"
    and latest earliest :: "'s \<Rightarrow> 'e + u64"
    and contents :: "'s \<Rightarrow> u64 \<rightharpoonup> Message"
    and ok :: "'s \<Rightarrow> bool" +
  fixes store :: "'s \<Rightarrow> u64 \<Rightarrow> Message \<Rightarrow> ('e + unit) \<times> 's"
  assumes store_ok: "ok s \<Longrightarrow> ok (snd (store s q m))"
    and store_holds: "ok s \<Longrightarrow> store s q m = (Inr (), s') \<Longrightarrow> contents s' q = Some m"
    and store_keeps: "ok s \<Longrightarrow> p \<noteq> q \<Longrightarrow> contents (snd (store s q m)) p = Some x \<Longrightarrow> contents s p = Some x"
    and store_conflict: "ok s \<Longrightarrow> contents s q \<in> {None, Some m} \<Longrightarrow> fst (store s q m) = Inr ()"
    and store_same: "ok s \<Longrightarrow> contents s q = Some m \<Longrightarrow> contents (snd (store s q m)) = contents s"
    and store_fails: "ok s \<Longrightarrow> store s q m = (Inl e, s') \<Longrightarrow> s' = s"
    and store_latest: "ok s \<Longrightarrow> store s q m = (Inr (), s') \<Longrightarrow> latest s = Inr l \<Longrightarrow> latest s' = Inr (max l q)"

section \<open>The ring buffer implements the contract\<close>

definition ring_ok :: "RingSeqStore \<Rightarrow> bool" where
  "ring_ok s \<longleftrightarrow> btree_ok (ring_map s) \<and> 0 < ring_capacity s \<and> length (ring_map s) \<le> ring_capacity s
    \<and> (\<forall>q \<in> dom (map_of (ring_map s)). q \<le> max_seen s)"

definition ring_contents :: "RingSeqStore \<Rightarrow> u64 \<rightharpoonup> Message" where
  "ring_contents s = map_of (ring_map s)"

lemma filter_from:
  assumes "btree_ok l"
  shows "btree_ok (filter (\<lambda>e. q \<le> fst e) l)"
    and "q \<le> p \<Longrightarrow> map_of (filter (\<lambda>e. q \<le> fst e) l) p = map_of l p"
  using assms by (induction l) (auto simp: btree_ok_Cons split: prod.splits)

lemma u64_Suc_le: "q \<noteq> - 1 \<Longrightarrow> (q + 1 \<le> p) = (q < p)" for q p :: u64
  using not_max_u64 [of q] by (simp add: word_le_nat_alt word_less_nat_alt unat_Suc_u64 Suc_le_eq)

lemma run_of_cong: "(\<And>p. q \<le> p \<Longrightarrow> c p = d p) \<Longrightarrow> run_of c q n = run_of d q n"
proof (induction n arbitrary: q)
  case (Suc n)
  have "run_of c (q + 1) n = run_of d (q + 1) n" if "q \<noteq> - 1"
    using Suc.prems that by (intro Suc.IH) (simp add: u64_Suc_le)
  then show ?case using Suc.prems [of q] by (auto split: option.split)
qed simp

lemma range_run_of:
  assumes "btree_ok l" "\<forall>e \<in> set l. q \<le> fst e" "n > 0"
  shows "range_run q n l = run_of (map_of l) q n"
  using assms
proof (induction q n l rule: range_run.induct)
  case (1 q n)
  then show ?case by (cases n) simp_all
next
  case (2 q n s m rest)
  obtain k where n: "n = Suc k" using 2 by (cases n) simp_all
  have above: "\<forall>e \<in> set rest. s < fst e" and rest: "btree_ok rest" using 2 by (auto simp: btree_ok_Cons)
  show ?case
  proof (cases "s = q")
    case False
    then have "q < s" using 2 by auto
    then have "map_of rest q = None" using above by (force simp: map_of_eq_None_iff)
    then show ?thesis using False n by simp
  next
    case True
    have "run_of (map_of ((q, m) # rest)) (q + 1) k = run_of (map_of rest) (q + 1) k" if "q \<noteq> - 1"
      using that by (intro run_of_cong) (auto simp: u64_Suc_le)
    moreover have "rest = []" if "q = - 1"
      using above True that word_order.extremum_strict [of "fst (hd rest)"] by (cases rest) auto
    moreover have "range_run (q + 1) k rest = run_of (map_of rest) (q + 1) k" if "q \<noteq> - 1" "k > 0"
      using 2 that True n rest above by (simp add: u64_Suc_le saturating_Suc_u64)
    ultimately show ?thesis using True n by (auto simp: saturating_Suc_u64 fun_upd_def)
  qed
qed

lemma ring_range: "ring_ok s \<Longrightarrow> RingSeqStore_range s q n = Inr (run_of (ring_contents s) q n)"
proof (cases "n = 0 \<or> ring_map s = []")
  case True
  then show ?thesis by (cases n) (auto simp: RingSeqStore_range_def ring_contents_def)
next
  case False
  assume ok: "ring_ok s"
  then have "range_run q n (filter (\<lambda>e. q \<le> fst e) (ring_map s))
      = run_of (map_of (filter (\<lambda>e. q \<le> fst e) (ring_map s))) q n"
    using False by (intro range_run_of) (auto simp: ring_ok_def filter_from)
  also have "\<dots> = run_of (ring_contents s) q n"
    using ok by (intro run_of_cong) (simp add: ring_ok_def ring_contents_def filter_from)
  finally show ?thesis using False by (simp add: RingSeqStore_range_def)
qed

lemma ring_earliest:
  assumes "ring_ok s"
  shows "\<exists>e. RingSeqStore_earliest s = Inr e
    \<and> (ring_contents s = Map.empty \<and> e = 0
      \<or> e \<in> dom (ring_contents s) \<and> (\<forall>q \<in> dom (ring_contents s). e \<le> q))"
proof (cases "ring_map s")
  case Nil
  then show ?thesis by (simp add: RingSeqStore_earliest_def ring_contents_def)
next
  case (Cons e l)
  obtain q m where e: "e = (q, m)" by force
  have "q \<le> p" if "p \<in> dom (map_of (ring_map s))" for p
    using that assms Cons e by (fastforce simp: ring_ok_def btree_ok_Cons dest!: map_of_SomeD)
  then show ?thesis using Cons e by (auto simp: RingSeqStore_earliest_def ring_contents_def)
qed

interpretation ring_reader: seq_store_reader RingSeqStore_range RingSeqStore_latest RingSeqStore_earliest
  ring_contents ring_ok
proof
  show "ring_ok s \<Longrightarrow> RingSeqStore_range s q n = Inr (run_of (ring_contents s) q n)" for s q n
    by (rule ring_range)
  show "ring_ok s \<Longrightarrow> \<exists>l. RingSeqStore_latest s = Inr l \<and> (\<forall>q \<in> dom (ring_contents s). q \<le> l)" for s
    by (simp add: RingSeqStore_latest_def ring_ok_def ring_contents_def)
qed (rule ring_earliest)

text \<open>Storing: the contents afterwards, and that at most the oldest entry is lost.\<close>

definition evicted :: "RingSeqStore \<Rightarrow> (u64, Message) btree" where
  "evicted s = (if length (ring_map s) = ring_capacity s then tl (ring_map s) else ring_map s)"

lemma btree_remove_first: "btree_ok ((k, v) # l) \<Longrightarrow> btree_remove k ((k, v) # l) = l"
  by (auto simp: btree_remove_def btree_ok_Cons intro!: filter_True)

lemma ring_store_new:
  assumes "ring_ok s" "ring_contents s q = None"
  shows "RingSeqStore_store s q m
    = (Inr (), s\<lparr>ring_map := btree_insert q m (evicted s), max_seen := max (max_seen s) q\<rparr>)"
proof -
  have "(case ring_map s of [] \<Rightarrow> s | (k, _) # _ \<Rightarrow> s\<lparr>ring_map := btree_remove k (ring_map s)\<rparr>)
      = s\<lparr>ring_map := tl (ring_map s)\<rparr>"
    using assms(1) by (cases "ring_map s") (auto simp: ring_ok_def btree_remove_first)
  then show ?thesis using assms(2)
    by (auto simp: RingSeqStore_store_def ring_contents_def evicted_def Let_def max_def)
qed

lemma ring_store_contents:
  assumes "ring_ok s" "ring_contents s q = None" "RingSeqStore_store s q m = (r, s')"
  shows "r = Inr ()" "ring_ok s'" "ring_contents s' = (map_of (evicted s))(q \<mapsto> m)"
    "max_seen s' = max (max_seen s) q" "ring_capacity s' = ring_capacity s"
proof -
  have s': "r = Inr ()" "s' = s\<lparr>ring_map := btree_insert q m (evicted s), max_seen := max (max_seen s) q\<rparr>"
    using assms ring_store_new [OF assms(1,2)] by simp_all
  have ok: "btree_ok (evicted s)" using assms(1)
    by (cases "ring_map s") (auto simp: evicted_def ring_ok_def btree_ok_Cons)
  have len: "length (evicted s) < ring_capacity s"
    using assms(1) by (auto simp: evicted_def ring_ok_def)
  have sub: "map_of (evicted s) p = Some x \<Longrightarrow> p \<le> max_seen s" for p x
    using assms(1) by (cases "ring_map s")
      (auto simp: evicted_def ring_ok_def dom_def btree_ok_Cons split: if_splits dest!: map_of_SomeD)
  show "ring_ok s'" using s' ok len sub assms(1) length_btree_insert [of q m "evicted s"]
    by (auto simp: ring_ok_def map_of_btree_insert dom_def le_max_iff_disj)
  show "ring_contents s' = (map_of (evicted s))(q \<mapsto> m)"
    using s' ok by (simp add: ring_contents_def map_of_btree_insert)
qed (use ring_store_new [OF assms(1,2)] assms(3) in auto)

lemma evicted_sub: "ring_ok s \<Longrightarrow> map_of (evicted s) p = Some x \<Longrightarrow> ring_contents s p = Some x"
proof (cases "ring_map s")
  case (Cons e l)
  assume ok: "ring_ok s" and p: "map_of (evicted s) p = Some x"
  have "p \<noteq> fst e" if "map_of l p = Some x"
    using ok Cons map_of_SomeD [OF that] by (cases e) (auto simp: ring_ok_def btree_ok_Cons)
  then show ?thesis using p Cons by (auto simp: evicted_def ring_contents_def split: if_splits)
qed (simp add: evicted_def ring_contents_def split: if_splits)

lemma ring_store_old:
  assumes "ring_ok s" "ring_contents s q = Some x"
  shows "RingSeqStore_store s q m = (if x = m then Inr () else Inl (SequenceConflict q), s)"
proof -
  have "q \<le> max_seen s" using assms by (auto simp: ring_ok_def ring_contents_def)
  then show ?thesis using assms by (auto simp: RingSeqStore_store_def ring_contents_def)
qed

lemma ring_store_cases:
  assumes "ring_ok s"
  obtains (fresh) s' where "ring_contents s q = None" "RingSeqStore_store s q m = (Inr (), s')" "ring_ok s'"
      "ring_contents s' = (map_of (evicted s))(q \<mapsto> m)" "max_seen s' = max (max_seen s) q"
    | (same) "ring_contents s q = Some m" "RingSeqStore_store s q m = (Inr (), s)" "q \<le> max_seen s"
    | (conflict) x where "ring_contents s q = Some x" "x \<noteq> m" "RingSeqStore_store s q m = (Inl (SequenceConflict q), s)"
proof (cases "ring_contents s q")
  case None
  obtain r s' where "RingSeqStore_store s q m = (r, s')" by force
  with fresh ring_store_contents [OF assms None this] None show ?thesis by simp
next
  case (Some x)
  moreover have "q \<le> max_seen s" using assms Some by (auto simp: ring_ok_def ring_contents_def)
  ultimately show ?thesis using same conflict [of x] ring_store_old [OF assms Some] by (cases "x = m") simp_all
qed

interpretation ring: seq_store RingSeqStore_range RingSeqStore_latest RingSeqStore_earliest
  ring_contents ring_ok RingSeqStore_store
proof (unfold_locales, goal_cases)
  case (1 s q m)
  then show ?case by (rule ring_store_cases [of s q m]) (use 1 in simp_all)
next
  case (2 s q m s')
  from 2(1) show ?case by (rule ring_store_cases [of s q m]) (use 2 in auto)
next
  case (3 s p q m x)
  from 3(1) show ?case by (rule ring_store_cases [of s q m]) (use 3 evicted_sub [of s p x] in auto)
next
  case (4 s q m)
  from 4(1) show ?case by (rule ring_store_cases [of s q m]) (use 4 in auto)
next
  case (5 s q m)
  from 5(1) show ?case by (rule ring_store_cases [of s q m]) (use 5 in auto)
next
  case (6 s q m e s')
  from 6(1) show ?case by (rule ring_store_cases [of s q m]) (use 6 in auto)
next
  case (7 s q m s' l)
  from 7(1) show ?case by (rule ring_store_cases [of s q m]) (use 7 in \<open>auto simp: RingSeqStore_latest_def max_def\<close>)
qed

interpretation null_reader: seq_store_reader NullSeqStore_range NullSeqStore_latest NullSeqStore_earliest
  "\<lambda>_. Map.empty" "\<lambda>_. True"
proof
  show "NullSeqStore_range s q n = Inr (run_of Map.empty q n)" for s q n
    by (cases n) (simp_all add: NullSeqStore_range_def)
qed (simp_all add: NullSeqStore_latest_def NullSeqStore_earliest_def)

section \<open>A feed in the ring\<close>

text \<open>Messages with consecutive numbers from \<open>n\<close>.\<close>

definition numbered_from :: "nat \<Rightarrow> Message list \<Rightarrow> (u64 \<times> Message) list" where
  "numbered_from n ms = zip (map of_nat [n ..< n + length ms]) ms"

lemma length_numbered_from [simp]: "length (numbered_from n ms) = length ms"
  by (simp add: numbered_from_def)

lemma numbered_from_Nil [simp]: "numbered_from n [] = []"
  by (simp add: numbered_from_def)

lemma nth_numbered_from: "i < length ms \<Longrightarrow> numbered_from n ms ! i = (of_nat (n + i), ms ! i)"
  by (simp add: numbered_from_def)

lemma numbered_from_snoc: "numbered_from n (ms @ [m]) = numbered_from n ms @ [(of_nat (n + length ms), m)]"
  by (simp add: numbered_from_def)

lemma numbered_from_Cons: "numbered_from n (m # ms) = (of_nat n, m) # numbered_from (Suc n) ms"
  by (simp add: numbered_from_def upt_conv_Cons del: upt_Suc)

lemma btree_insert_last: "\<forall>e \<in> set l. fst e < k \<Longrightarrow> btree_insert k v l = l @ [(k, v)]"
  by (induction k v l rule: btree_insert.induct) (auto simp: not_less_iff_gr_or_eq)

lemma of_nat_less_u64: "i < j \<Longrightarrow> j < 2 ^ 64 \<Longrightarrow> (of_nat i :: u64) < of_nat j"
  by (simp add: word_less_nat_alt unat_of_nat)

lemma numbered_below:
  assumes "(q, m) \<in> set (numbered_from n ms)" "n + length ms < 2 ^ 64"
  shows "q < of_nat (n + length ms)"
proof -
  obtain i where "i < length ms" "numbered_from n ms ! i = (q, m)"
    using assms(1) by (auto simp: in_set_conv_nth)
  then show ?thesis using of_nat_less_u64 [of "n + i" "n + length ms"] nth_numbered_from [of i ms n] assms(2) by simp
qed

definition store_all :: "(u64 \<times> Message) list \<Rightarrow> RingSeqStore \<Rightarrow> RingSeqStore" where
  "store_all es s = fold (\<lambda>(q, m) s. snd (RingSeqStore_store s q m)) es s"

lemma ring_after_feed:
  assumes "0 < n" "n + length ms \<le> 2 ^ 64"
  shows "let s = store_all (numbered_from n ms) (RingSeqStore_with_capacity cap) in
    ring_ok s \<and> ring_capacity s = max cap 1
    \<and> ring_map s = drop (length ms - max cap 1) (numbered_from n ms)
    \<and> max_seen s = (if ms = [] then 0 else of_nat (n + length ms - 1))"
  using assms(2)
proof (induction ms rule: rev_induct)
  case Nil
  show ?case
    by (simp add: store_all_def numbered_from_def RingSeqStore_with_capacity_def ring_ok_def)
next
  case (snoc m ms)
  define s where "s = store_all (numbered_from n ms) (RingSeqStore_with_capacity cap)"
  let ?q = "of_nat (n + length ms) :: u64"
  have room: "n + length ms < 2 ^ 64" using snoc.prems by simp
  have s: "ring_ok s" "ring_capacity s = max cap 1"
    "ring_map s = drop (length ms - max cap 1) (numbered_from n ms)"
    "max_seen s = (if ms = [] then 0 else of_nat (n + length ms - 1))"
    using snoc.IH room by (simp_all add: s_def Let_def)
  have below: "\<forall>e \<in> set (ring_map s). fst e < ?q"
    using s(3) numbered_below [OF _ room] by (auto dest: in_set_dropD)
  then have fresh: "ring_contents s ?q = None"
    by (force simp: ring_contents_def map_of_eq_None_iff)
  have ev: "evicted s = drop (Suc (length ms) - max cap 1) (numbered_from n ms)"
  proof -
    obtain c where c: "max cap 1 = c" by simp
    show ?thesis using s(2,3) unfolding c
      by (cases "c \<le> length ms") (simp_all add: evicted_def Suc_diff_le drop_Suc tl_drop)
  qed
  have "\<forall>e \<in> set (evicted s). fst e < ?q"
    using ev numbered_below [OF _ room] by (auto dest: in_set_dropD)
  then have "ring_map (snd (RingSeqStore_store s ?q m)) = drop (Suc (length ms) - max cap 1) (numbered_from n (ms @ [m]))"
    using ring_store_new [OF s(1) fresh] ev by (simp add: btree_insert_last numbered_from_snoc)
  moreover have "max_seen s \<le> ?q"
    using s(4) assms(1) room of_nat_less_u64 [of "n + length ms - 1" "n + length ms"] by auto
  moreover obtain r s' where "RingSeqStore_store s ?q m = (r, s')" by force
  ultimately show ?case
    using ring_store_contents [OF s(1) fresh] s(2)
    by (simp add: store_all_def numbered_from_snoc Let_def max_absorb2 flip: s_def [unfolded store_all_def])
qed

lemma numbered_from_drop: "drop k (numbered_from n ms) = numbered_from (n + k) (drop k ms)"
  by (cases "k \<le> length ms") (simp_all add: numbered_from_def drop_zip drop_map drop_upt)

lemma run_of_empty [simp]: "run_of Map.empty q n = []"
  by (cases n) simp_all

lemma run_of_numbered:
  "a + length ms \<le> 2 ^ 64 \<Longrightarrow> run_of (map_of (numbered_from a ms)) (of_nat a) n = take n (numbered_from a ms)"
proof (induction ms arbitrary: a n)
  case Nil
  show ?case by (simp add: numbered_from_def)
next
  case (Cons m ms)
  let ?a = "of_nat a :: u64"
  have a: "unat ?a = a" using Cons.prems by (simp add: unat_of_nat)
  have "ms = []" if "?a = - 1" using that a Cons.prems unat_max_u64 by simp
  moreover have "run_of (map_of (numbered_from a (m # ms))) (?a + 1) k = take k (numbered_from (Suc a) ms)"
    if "?a \<noteq> - 1" for k
  proof -
    have "run_of (map_of (numbered_from a (m # ms))) (?a + 1) k = run_of (map_of (numbered_from (Suc a) ms)) (?a + 1) k"
      using that by (intro run_of_cong) (auto simp: numbered_from_Cons u64_Suc_le)
    then show ?thesis using Cons.IH [of "Suc a" k] Cons.prems by (simp add: add.commute)
  qed
  ultimately show ?case
    by (cases n) (auto simp: numbered_from_Cons fun_upd_def)
qed

lemma run_of_window:
  assumes "a + length ms \<le> 2 ^ 64"
  shows "run_of (map_of (numbered_from a ms)) q n
    = (if a \<le> unat q \<and> unat q < a + length ms then take n (drop (unat q - a) (numbered_from a ms)) else [])"
proof (cases "a \<le> unat q \<and> unat q < a + length ms")
  case True
  define k where "k = unat q - a"
  have "a + k = unat q" using True by (simp add: k_def)
  then have "of_nat (a + k) = q" by (simp only: unsigned_of_nat word_of_nat_eq_iff) simp
  moreover have "k < length ms" using True by (auto simp: k_def)
  ultimately have q: "of_nat (a + k) = q" "k < length ms" by blast+
  have "map_of (numbered_from a ms) p = map_of (drop k (numbered_from a ms)) p" if "q \<le> p" for p
  proof -
    have "of_nat (a + i) \<noteq> p" if "i < k" for i
    proof -
      have "a + k < 2 ^ 64" using q(2) assms by simp
      then have "of_nat (a + i) < q" using of_nat_less_u64 [of "a + i" "a + k"] that unfolding q(1) by simp
      then show ?thesis using \<open>q \<le> p\<close> by auto
    qed
    then have "p \<notin> fst ` set (take k (numbered_from a ms))"
      using q(2) by (auto simp: in_set_conv_nth nth_numbered_from)
    then have "map_of (take k (numbered_from a ms)) p = None" by (simp add: map_of_eq_None_iff)
    then show ?thesis
      using map_of_append [of "take k (numbered_from a ms)" "drop k (numbered_from a ms)"]
      by (simp add: map_add_def)
  qed
  then have "run_of (map_of (numbered_from a ms)) q n = run_of (map_of (drop k (numbered_from a ms))) q n"
    by (rule run_of_cong)
  then show ?thesis using True run_of_numbered [of "a + k" "drop k ms" n] assms q
    by (simp add: numbered_from_drop k_def)
next
  case False
  have "map_of (numbered_from a ms) q = None"
  proof (rule ccontr)
    assume "map_of (numbered_from a ms) q \<noteq> None"
    then obtain i where i: "i < length ms" "q = of_nat (a + i)"
      by (force simp: in_set_conv_nth nth_numbered_from dest: map_of_SomeD)
    then have "unat q = a + i" using assms unat_of_nat [of "a + i", where 'a = 64] by simp
    then show False using False i(1) by simp
  qed
  then show ?thesis using False by (cases n) auto
qed

section \<open>Sources over sources\<close>

text \<open>What a poll was given of the inner stream, and what it passed on.\<close>

fun polled_message :: "bool \<Rightarrow> (SourceError + Message) option Poll \<Rightarrow> Message list" where
  "polled_message True (Ready (Some (Inr m))) = [m]"
| "polled_message _ _ = []"

definition paced_ok :: "PacedSource \<Rightarrow> bool" where
  "paced_ok self \<longleftrightarrow> (paced_pending self \<noteq> None \<longrightarrow> sleep self \<noteq> None)"

abbreviation held_list :: "PacedSource \<Rightarrow> Message list" where
  "held_list self \<equiv> (case paced_pending self of None \<Rightarrow> [] | Some m \<Rightarrow> [m])"

lemma paced_emit_keeps:
  assumes "paced_pending self = None" "paced_emit now item self = (r, self')"
  shows "paced_ok self' \<and> polled_message True r @ held_list self' = [item]"
proof (cases "pacing self")
  case MaxSpeed
  then show ?thesis using assms by (auto simp: paced_emit_def paced_ok_def)
next
  case (Fixed period)
  then show ?thesis using assms
    by (cases "last_tick self") (auto simp: paced_emit_def paced_ok_def Let_def split: if_splits)
next
  case Realtime
  then show ?thesis using assms
    by (cases "last_ts_ns self") (auto simp: paced_emit_def paced_ok_def Let_def split: if_splits)
qed

lemma paced_pull_keeps:
  assumes "paced_pending self = None" "paced_pull now inner self = (r, polled, self')"
  shows "paced_ok self' \<and> polled_message True r @ held_list self' = polled_message polled inner"
proof -
  consider item where "inner = Ready (Some (Inr item))" | e where "inner = Ready (Some (Inl e))"
    | "inner = Ready None" | "inner = Pending"
    by (metis Poll.exhaust option.exhaust sum.exhaust)
  then show ?thesis
  proof cases
    case (1 item)
    obtain r' self'' where e: "paced_emit now item self = (r', self'')" by force
    then show ?thesis using paced_emit_keeps [OF assms(1) e] assms(2) 1 by (simp add: paced_pull_def)
  qed (use assms in \<open>auto simp: paced_pull_def paced_ok_def\<close>)
qed

text \<open>A poll of a paced source neither loses, repeats nor reorders a message: what it passes on and
  what it holds afterwards is what it paced_pending before and what it took from the inner stream.\<close>

lemma paced_keeps_order:
  assumes "paced_ok self" "PacedSource_poll_next now inner self = (r, polled, self')"
  shows "paced_ok self' \<and> polled_message True r @ held_list self' = held_list self @ polled_message polled inner"
proof (cases "sleep self")
  case None
  then have "paced_pending self = None" using assms(1) by (auto simp: paced_ok_def)
  then show ?thesis using paced_pull_keeps [of self now inner r polled self'] None assms(2)
    by (simp add: PacedSource_poll_next_def)
next
  case (Some deadline)
  show ?thesis
  proof (cases "now < deadline")
    case True
    then show ?thesis using Some assms by (auto simp: PacedSource_poll_next_def)
  next
    case False
    then show ?thesis
      using Some assms(2) paced_pull_keeps [of "self\<lparr>sleep := None\<rparr>" now inner r polled self']
      by (cases "paced_pending self") (auto simp: PacedSource_poll_next_def Let_def paced_ok_def)
  qed
qed

lemma precedes_trans: "precedes a b \<Longrightarrow> precedes b c \<Longrightarrow> precedes a c"
  unfolding precedes_def by (elim disjE conjE) (rule disjI1, erule (1) less_trans, simp_all)

lemma precedes_least: "heap \<noteq> [] \<Longrightarrow> \<exists>x \<in> set heap. \<forall>y \<in> set heap. precedes x y"
proof (induction heap)
  case (Cons a heap)
  show ?case
  proof (cases "heap = []")
    case True
    then show ?thesis by (simp add: precedes_def)
  next
    case False
    then obtain x where x: "x \<in> set heap" "\<forall>y \<in> set heap. precedes x y" using Cons by auto
    have "precedes a x \<or> precedes x a" "precedes a a" by (auto simp: precedes_def)
    moreover have "\<forall>y \<in> set heap. precedes a y" if "precedes a x" using x(2) precedes_trans [OF that] by blast
    ultimately show ?thesis using x by (metis list.set_intros(1,2) set_ConsD)
  qed
qed simp

lemma merge_run_sorted:
  "merge_run heap xs \<Longrightarrow> sorted_wrt precedes xs \<and> (\<forall>x. count_list xs x = count_list heap x)"
proof (induction rule: merge_run.induct)
  case (ends heap heap')
  then show ?case by (auto elim: merge_poll_NoneE)
next
  case (pops heap x heap' xs)
  from pops(1) have x: "x \<in> set heap" "\<forall>y \<in> set heap. precedes x y" "heap' = remove1 x heap"
    by (auto elim: merge_poll_SomeE)
  have "set xs \<subseteq> set heap"
  proof
    fix y assume "y \<in> set xs"
    then have "count_list heap' y \<noteq> 0" using pops.IH by (metis count_list_0_iff)
    then show "y \<in> set heap" using x(3) by (metis count_list_0_iff notin_set_remove1)
  qed
  moreover have "count_list heap x \<noteq> 0" using x(1) by (simp add: count_list_0_iff)
  ultimately show ?case using pops.IH x by auto
qed

lemma merge_run_ends: "\<exists>xs. merge_run heap xs"
proof (induction "length heap" arbitrary: heap rule: less_induct)
  case less
  show ?case
  proof (cases "heap = []")
    case True
    then show ?thesis using merge_run.ends merge_poll_next.ended by blast
  next
    case False
    then obtain x where x: "x \<in> set heap" "\<forall>y \<in> set heap. precedes x y" using precedes_least by blast
    then have "length (remove1 x heap) < length heap" using length_pos_if_in_set [OF x(1)] by (simp add: length_remove1)
    then obtain xs where "merge_run (remove1 x heap) xs" using less by blast
    then show ?thesis using x merge_run.pops merge_poll_next.popped by blast
  qed
qed

lemma ring_window:
  fixes cap :: nat
  assumes "0 < n" "n + length ms \<le> 2 ^ 64"
  defines "s \<equiv> store_all (numbered_from n ms) (RingSeqStore_with_capacity cap)"
    and "oldest \<equiv> n + (length ms - max cap 1)"
  shows "RingSeqStore_range s q count
      = Inr (if oldest \<le> unat q \<and> unat q < n + length ms
             then take count (drop (unat q - n) (numbered_from n ms)) else [])
    \<and> RingSeqStore_latest s = Inr (if ms = [] then 0 else of_nat (n + length ms - 1))"
proof -
  obtain c where c: "max cap 1 = c" by simp
  have old: "oldest = n + (length ms - c)" unfolding oldest_def c ..
  have s: "ring_ok s" "ring_map s = numbered_from (n + (length ms - c)) (drop (length ms - c) ms)"
    "max_seen s = (if ms = [] then 0 else of_nat (n + length ms - 1))"
    using ring_after_feed [OF assms(1,2), of cap, unfolded c Let_def] by (simp_all add: s_def numbered_from_drop)
  have "n + (length ms - c) + length (drop (length ms - c) ms) \<le> 2 ^ 64" using assms(2) by simp
  from run_of_window [OF this, of q count]
  have "run_of (ring_contents s) q count
      = (if oldest \<le> unat q \<and> unat q < n + length ms
         then take count (drop (unat q - oldest) (ring_map s)) else [])"
    using s(2) by (simp add: ring_contents_def old)
  moreover have "drop (unat q - oldest) (ring_map s) = drop (unat q - n) (numbered_from n ms)" if "oldest \<le> unat q"
    using that s(2) by (simp add: old flip: numbered_from_drop)
  ultimately show ?thesis using ring_range [OF s(1)] s(3) by (auto simp: RingSeqStore_latest_def)
qed

section \<open>Properties\<close>

text \<open>C24: The ring buffer behind a feed: after messages with consecutive numbers were stored, the store
  answers a range query exactly from the window of the last \<open>capacity\<close> messages: the entries
  from the number asked for, in order, as many as asked for and paced_pending, and nothing for a
  number outside the window; \<open>latest\<close> is the last number stored.\<close>

theorem ring_store_window:
  fixes cap :: nat
  assumes "0 < n" "n + length ms \<le> 2 ^ 64"
  defines "s \<equiv> store_all (numbered_from n ms) (RingSeqStore_with_capacity cap)"
    and "oldest \<equiv> n + (length ms - max cap 1)"
  shows "RingSeqStore_range s q count
      = Inr (if oldest \<le> unat q \<and> unat q < n + length ms
             then take count (drop (unat q - n) (numbered_from n ms)) else [])
    \<and> RingSeqStore_latest s = Inr (if ms = [] then 0 else of_nat (n + length ms - 1))"
  unfolding s_def oldest_def using assms(1,2) by (rule ring_window)

theorem ring_store_window_witness:
  "RingSeqStore_range (store_all (numbered_from 1 [sample_add, sample_add, sample_add]) (RingSeqStore_with_capacity 2)) 2 9
    = Inr [(2, sample_add), (3, sample_add)]"
  using ring_store_window [of 1 "[sample_add, sample_add, sample_add]" 2 2 9]
  by (simp add: numbered_from_def upt_rec)

end
