(* ===== verification/Itch_Mold_Publisher.thy ===== *)
theory Itch_Mold_Publisher
  imports Itch_Mold_Receiver Itch_Mold_Request Itch_Source
begin

text \<open>
  The MoldUDP64 publisher (\<open>itch-mold/src/publisher.rs\<close>) with the errors of a message
  source (\<open>itch-source/src/source.rs\<close>).  The loop of \<open>serve\<close> is a step function over the
  events its \<open>select!\<close> wakes up for; the clock is the time each event carries, and
  the socket is a function that says which sends fail.  The lemmas show that the
  datagrams carry the encoded messages of the source in order, each once, under
  consecutive numbers, that the retransmission cache holds the same frames, and
  which packets respect the MTU.
\<close>

section \<open>Definitions\<close>

abbreviation DEFAULT_HEARTBEAT_INTERVAL :: nat where "DEFAULT_HEARTBEAT_INTERVAL \<equiv> 1 * 10 ^ 9"
abbreviation DEFAULT_EOS_BURST :: nat where "DEFAULT_EOS_BURST \<equiv> 5"
abbreviation DEFAULT_EOS_INTERVAL :: nat where "DEFAULT_EOS_INTERVAL \<equiv> 1 * 10 ^ 9"

record PublisherConfig =
  destination :: string
  bind :: "string option"
  session :: bytes
  start_sequence :: u64
  mtu :: nat
  heartbeat_interval :: nat
  eos_burst :: nat
  eos_interval :: nat

definition PublisherConfig_new :: "string \<Rightarrow> bytes \<Rightarrow> PublisherConfig" where
  "PublisherConfig_new dest sess = \<lparr>destination = dest, bind = None, PublisherConfig.session = sess,
     start_sequence = 1, mtu = DEFAULT_PACKING_MTU, heartbeat_interval = DEFAULT_HEARTBEAT_INTERVAL,
     eos_burst = DEFAULT_EOS_BURST, eos_interval = DEFAULT_EOS_INTERVAL\<rparr>"

definition PublisherConfig_with_start_sequence :: "u64 \<Rightarrow> PublisherConfig \<Rightarrow> PublisherConfig" where
  "PublisherConfig_with_start_sequence s self = self\<lparr>PublisherConfig.start_sequence := s\<rparr>"

definition with_mtu :: "nat \<Rightarrow> PublisherConfig \<Rightarrow> PublisherConfig" where
  "with_mtu n self = self\<lparr>mtu := n\<rparr>"

definition with_bind :: "string \<Rightarrow> PublisherConfig \<Rightarrow> PublisherConfig" where
  "with_bind addr self = self\<lparr>bind := Some addr\<rparr>"

definition with_heartbeat_interval :: "nat \<Rightarrow> PublisherConfig \<Rightarrow> PublisherConfig" where
  "with_heartbeat_interval t self = self\<lparr>heartbeat_interval := t\<rparr>"

text \<open>\<open>sent\<close> is what left the socket.\<close>

record MoldPublisher =
  cfg :: PublisherConfig
  next_seq :: u64
  cache :: "RingBufferSeqStore option"
  sent :: "bytes list"

definition MoldPublisher_bind :: "PublisherConfig \<Rightarrow> MoldPublisher" where
  "MoldPublisher_bind c = \<lparr>cfg = c, next_seq = start_sequence c, cache = None, sent = []\<rparr>"

definition MoldPublisher_with_cache :: "RingBufferSeqStore \<Rightarrow> MoldPublisher \<Rightarrow> MoldPublisher" where
  "MoldPublisher_with_cache c self = self\<lparr>cache := Some c\<rparr>"

text \<open>\<open>net k\<close> is the I/O error of the \<open>k\<close>-th send, if it fails.\<close>

definition send_packet ::
  "(nat \<Rightarrow> MoldError option) \<Rightarrow> MoldPacket \<Rightarrow> MoldPublisher \<Rightarrow> (MoldError + unit) \<times> MoldPublisher" where
  "send_packet net pkt self =
    (case MoldPacket_encode_to pkt [] of
       Inl e \<Rightarrow> (Inl e, self)
     | Inr buf \<Rightarrow>
         (case net (length (sent self)) of
            Some e \<Rightarrow> (Inl e, self)
          | None \<Rightarrow> (Inr (), self\<lparr>sent := sent self @ [buf]\<rparr>)))"

definition send_heartbeat ::
  "(nat \<Rightarrow> MoldError option) \<Rightarrow> MoldPublisher \<Rightarrow> (MoldError + unit) \<times> MoldPublisher" where
  "send_heartbeat net self =
    send_packet net (MoldPacket_heartbeat (PublisherConfig.session (cfg self)) (next_seq self)) self"

definition send_end_of_session ::
  "(nat \<Rightarrow> MoldError option) \<Rightarrow> MoldPublisher \<Rightarrow> (MoldError + unit) \<times> MoldPublisher" where
  "send_end_of_session net self =
    send_packet net (MoldPacket_end_of_session (PublisherConfig.session (cfg self)) (next_seq self)) self"

text \<open>The locals of the task \<open>serve\<close> spawns, beside the publisher it owns.\<close>

record Serve =
  pub :: MoldPublisher
  last_emit :: nat
  pending_blocks :: "MessageBlock list"
  pending_first_seq :: u64
  pending_size :: nat

definition Serve_start :: "nat \<Rightarrow> MoldPublisher \<Rightarrow> Serve" where
  "Serve_start now self = \<lparr>pub = self, last_emit = now, pending_blocks = [],
     pending_first_seq = next_seq self, pending_size = HEADER_LEN\<rparr>"

fun cache_blocks :: "u64 \<Rightarrow> MessageBlock list \<Rightarrow> RingBufferSeqStore \<Rightarrow> RingBufferSeqStore" where
  "cache_blocks seq [] guard = guard"
| "cache_blocks seq (b # bs) guard =
    cache_blocks (saturating_add seq 1) bs
      (RingBufferSeqStore_push \<lparr>CachedFrame.sequence = seq, body = data b\<rparr> guard)"

definition publisher_flush :: "(nat \<Rightarrow> MoldError option) \<Rightarrow> Serve \<Rightarrow> (MoldError + unit) \<times> Serve" where
  "publisher_flush net st =
    (if pending_blocks st = [] then (Inr (), st)
     else
       let drained = pending_blocks st;
           st = st\<lparr>pending_blocks := []\<rparr> in
       case MoldPacket_new_data (PublisherConfig.session (cfg (pub st))) (pending_first_seq st) drained of
         Inl e \<Rightarrow> (Inl e, st)
       | Inr pkt \<Rightarrow>
           let self = (pub st)\<lparr>cache := map_option (cache_blocks (pending_first_seq st) (blocks pkt))
                 (cache (pub st))\<rparr>;
               (r, self) = send_packet net pkt self;
               st = st\<lparr>pub := self\<rparr> in
           case r of
             Inl e \<Rightarrow> (Inl e, st)
           | Inr _ \<Rightarrow> (Inr (), st\<lparr>pending_size := HEADER_LEN, pending_first_seq := next_seq (pub st)\<rparr>))"

fun eos_sends ::
  "nat \<Rightarrow> (nat \<Rightarrow> MoldError option) \<Rightarrow> MoldPublisher \<Rightarrow> (MoldError + unit) \<times> MoldPublisher" where
  "eos_sends 0 net self = (Inr (), self)"
| "eos_sends (Suc n) net self =
    (case send_end_of_session net self of
       (Inl e, self) \<Rightarrow> (Inl e, self)
     | (Inr _, self) \<Rightarrow> eos_sends n net self)"

definition send_eos_burst ::
  "(nat \<Rightarrow> MoldError option) \<Rightarrow> MoldPublisher \<Rightarrow> (MoldError + unit) \<times> MoldPublisher" where
  "send_eos_burst net self =
    (case eos_sends (eos_burst (cfg self)) net self of
       (Inl e, self) \<Rightarrow> (Inl e, self)
     | (Inr _, self) \<Rightarrow>
         (Inr (), self\<lparr>cache := map_option RingBufferSeqStore_mark_end_of_session (cache self)\<rparr>))"

text \<open>What a wake-up of the \<open>select!\<close> delivers, with the time: the next item of the source
  (\<^const>\<open>None\<close> for its end), or the heartbeat timer.\<close>

datatype ServeEvent =
    SourceItem nat "(SourceError + Message) option"
  | Timer nat

definition push_message :: "MessageBlock \<Rightarrow> Serve \<Rightarrow> Serve" where
  "push_message b st =
    (let st = (if pending_blocks st = []
           then st\<lparr>pending_first_seq := next_seq (pub st), pending_size := HEADER_LEN\<rparr> else st)
     in st\<lparr>pending_blocks := pending_blocks st @ [b],
           pending_size := pending_size st + (2 + length (data b)),
           pub := (pub st)\<lparr>next_seq := next_seq (pub st) + 1\<rparr>\<rparr>)"

definition on_message ::
  "(nat \<Rightarrow> MoldError option) \<Rightarrow> nat \<Rightarrow> Message \<Rightarrow> Serve \<Rightarrow> (MoldError + unit) option \<times> Serve" where
  "on_message net now msg st =
    (case Message_encode msg (replicate (Message_encoded_len msg) 0) of
       Inl e \<Rightarrow> (Some (Inl (MoldError.Protocol e)), st)
     | Inr (b, _) \<Rightarrow>
         if length b > MAX_BLOCK_LEN then (Some (Inl (BlockTooLarge (length b) MAX_BLOCK_LEN)), st)
         else if pending_blocks st \<noteq> [] \<and> pending_size st + (2 + length b) > mtu (cfg (pub st)) then
           (case publisher_flush net st of
              (Inl e, st) \<Rightarrow> (Some (Inl e), st)
            | (Inr _, st) \<Rightarrow> (None, push_message \<lparr>data = b\<rparr> (st\<lparr>last_emit := now\<rparr>)))
         else (None, push_message \<lparr>data = b\<rparr> st))"

definition on_end ::
  "(nat \<Rightarrow> MoldError option) \<Rightarrow> Serve \<Rightarrow> (MoldError + unit) option \<times> Serve" where
  "on_end net st =
    (case (if pending_blocks st \<noteq> [] then publisher_flush net st else (Inr (), st)) of
       (Inl e, st) \<Rightarrow> (Some (Inl e), st)
     | (Inr _, st) \<Rightarrow>
         let (r, self) = send_eos_burst net (pub st) in (Some r, st\<lparr>pub := self\<rparr>))"

definition on_timer ::
  "(nat \<Rightarrow> MoldError option) \<Rightarrow> nat \<Rightarrow> Serve \<Rightarrow> (MoldError + unit) option \<times> Serve" where
  "on_timer net now st =
    (let (r, st) = (if pending_blocks st \<noteq> [] then publisher_flush net st
           else let (r, self) = send_heartbeat net (pub st) in (r, st\<lparr>pub := self\<rparr>)) in
     case r of
       Inl e \<Rightarrow> (Some (Inl e), st)
     | Inr _ \<Rightarrow> (None, st\<lparr>last_emit := now\<rparr>))"

text \<open>One wake-up; the result is \<^const>\<open>Some\<close> when the task ends.  The timer fires only when its
  deadline has passed.\<close>

fun serve_step ::
  "(nat \<Rightarrow> MoldError option) \<Rightarrow> ServeEvent \<Rightarrow> Serve \<Rightarrow> (MoldError + unit) option \<times> Serve" where
  "serve_step net (SourceItem now (Some (Inr msg))) st = on_message net now msg st"
| "serve_step net (SourceItem now (Some (Inl Exhausted))) st = on_end net st"
| "serve_step net (SourceItem now None) st = on_end net st"
| "serve_step net (SourceItem now (Some (Inl e))) st = (Some (Inl SourceExhausted), st)"
| "serve_step net (Timer now) st =
    (if now < last_emit st + heartbeat_interval (cfg (pub st)) then (None, st)
     else on_timer net now st)"

fun serve ::
  "(nat \<Rightarrow> MoldError option) \<Rightarrow> ServeEvent list \<Rightarrow> Serve \<Rightarrow> (MoldError + unit) option \<times> Serve" where
  "serve net [] st = (None, st)"
| "serve net (ev # evs) st =
    (case serve_step net ev st of
       (None, st) \<Rightarrow> serve net evs st
     | (Some r, st) \<Rightarrow> (Some r, st))"

section \<open>What has been sent\<close>

text \<open>The frames of a stream between two numbers, as blocks and as cache entries.\<close>

definition blocks_at :: "(nat \<Rightarrow> bytes) \<Rightarrow> nat \<Rightarrow> nat \<Rightarrow> MessageBlock list" where
  "blocks_at feed a b = map (\<lambda>s. \<lparr>data = feed s\<rparr>) [a ..< b]"

definition frames_at :: "(nat \<Rightarrow> bytes) \<Rightarrow> nat \<Rightarrow> nat \<Rightarrow> CachedFrame list" where
  "frames_at feed a b = map (\<lambda>s. \<lparr>CachedFrame.sequence = of_nat s, body = feed s\<rparr>) [a ..< b]"

text \<open>The datagrams are well-formed packets of one session whose blocks are, in order, exactly the
  frames of the stream from \<open>a\<close> up to \<open>b\<close>.\<close>

definition datagrams :: "(nat \<Rightarrow> bytes) \<Rightarrow> bytes \<Rightarrow> nat \<Rightarrow> nat \<Rightarrow> MoldPacket list \<Rightarrow> bool" where
  "datagrams feed sess a b pkts \<longleftrightarrow>
    (\<forall>p \<in> set pkts. MoldPacket_ok p \<and> from_feed feed p
       \<and> MoldPacketHeader.session (MoldPacket.header p) = sess)
    \<and> concat (map blocks pkts) = blocks_at feed a b"

definition has_sent :: "(nat \<Rightarrow> bytes) \<Rightarrow> bytes \<Rightarrow> nat \<Rightarrow> nat \<Rightarrow> bytes list \<Rightarrow> bool" where
  "has_sent feed sess a b ds \<longleftrightarrow> (\<exists>pkts. ds = map MoldPacket_wire pkts \<and> datagrams feed sess a b pkts)"

definition publisher_inv ::
  "(nat \<Rightarrow> bytes) \<Rightarrow> PublisherConfig \<Rightarrow> RingBufferSeqStore option \<Rightarrow> nat \<Rightarrow> Serve \<Rightarrow> bool" where
  "publisher_inv feed c c0 start st \<longleftrightarrow>
    (let first = unat (pending_first_seq st); upto = unat (next_seq (pub st)) in
       cfg (pub st) = c \<and> start \<le> first \<and> first \<le> upto
     \<and> pending_blocks st = blocks_at feed first upto
     \<and> has_sent feed (PublisherConfig.session c) start first (sent (pub st))
     \<and> cache (pub st) = map_option (fold RingBufferSeqStore_push (frames_at feed start first)) c0)"

definition feed_ok :: "(nat \<Rightarrow> bytes) \<Rightarrow> bool" where
  "feed_ok feed \<longleftrightarrow> (\<forall>s. block_ok \<lparr>data = feed s\<rparr>)"

lemma blocks_at_append: "a \<le> b \<Longrightarrow> b \<le> c \<Longrightarrow> blocks_at feed a c = blocks_at feed a b @ blocks_at feed b c"
  using upt_add_eq_append [of a b "c - b"] by (simp add: blocks_at_def)

lemma frames_at_append: "a \<le> b \<Longrightarrow> b \<le> c \<Longrightarrow> frames_at feed a c = frames_at feed a b @ frames_at feed b c"
  using upt_add_eq_append [of a b "c - b"] by (simp add: frames_at_def)

lemma blocks_at_ok: "feed_ok feed \<Longrightarrow> \<forall>b \<in> set (blocks_at feed a c). block_ok b"
  by (auto simp: feed_ok_def blocks_at_def)

lemma has_sent_append:
  assumes "has_sent feed sess a b ds" "datagrams feed sess b c [p]" "a \<le> b" "b \<le> c"
  shows "has_sent feed sess a c (ds @ [MoldPacket_wire p])"
proof -
  obtain pkts where "ds = map MoldPacket_wire pkts" "datagrams feed sess a b pkts"
    using assms(1) by (auto simp: has_sent_def)
  moreover have "datagrams feed sess a c (pkts @ [p])" if "datagrams feed sess a b pkts"
    using that assms(2-4) by (auto simp: datagrams_def blocks_at_append [of a b c])
  ultimately show ?thesis by (intro exI [of _ "pkts @ [p]"] has_sent_def [THEN iffD2]) simp
qed

lemma send_packet_ok:
  "MoldPacket_ok p \<Longrightarrow> send_packet net p self = (case net (length (sent self)) of
      Some e \<Rightarrow> (Inl e, self) | None \<Rightarrow> (Inr (), self\<lparr>sent := sent self @ [MoldPacket_wire p]\<rparr>))"
  by (simp add: send_packet_def MoldPacket_encode_to_def Let_def MoldPacket_encode_wire)

lemma header_only_datagrams:
  "length sess = 10 \<Longrightarrow> datagrams feed sess a a [MoldPacket_heartbeat sess n]"
  "length sess = 10 \<Longrightarrow> datagrams feed sess a a [MoldPacket_end_of_session sess n]"
proof -
  have "unat n < 2 ^ LENGTH(64)" by (rule unsigned_less)
  then show "length sess = 10 \<Longrightarrow> datagrams feed sess a a [MoldPacket_heartbeat sess n]"
    "length sess = 10 \<Longrightarrow> datagrams feed sess a a [MoldPacket_end_of_session sess n]"
    by (simp_all add: datagrams_def MoldPacket_heartbeat_ok MoldPacket_end_of_session_ok blocks_at_def)
      (simp_all add: MoldPacket_heartbeat_def MoldPacket_end_of_session_def from_feed_def)
qed

lemma cache_blocks_fold:
  "a \<le> b \<Longrightarrow> b < 2 ^ 64
    \<Longrightarrow> cache_blocks (of_nat a) (blocks_at feed a b) c = fold RingBufferSeqStore_push (frames_at feed a b) c"
proof (induction "b - a" arbitrary: a c)
  case 0
  then show ?case by (simp add: blocks_at_def frames_at_def)
next
  case (Suc n)
  then have less: "a < b" by simp
  have "unat (of_nat a :: u64) + 1 < 2 ^ 64" using Suc.prems less by (simp add: unat_of_nat)
  then have "saturating_add (of_nat a) 1 = (of_nat (Suc a) :: u64)"
    by (simp add: saturating_add_one add.commute)
  moreover have "blocks_at feed a b = \<lparr>data = feed a\<rparr> # blocks_at feed (Suc a) b"
    "frames_at feed a b = \<lparr>CachedFrame.sequence = of_nat a, body = feed a\<rparr> # frames_at feed (Suc a) b"
    using less by (simp_all add: blocks_at_def frames_at_def upt_conv_Cons)
  ultimately show ?case using Suc.hyps(1) [of "Suc a"] Suc.hyps(2) Suc.prems less by simp
qed

section \<open>Steps of the publisher\<close>

text \<open>What a finished or failed step leaves: everything sent so far is a stretch of the stream.\<close>

definition sent_upto ::
  "(nat \<Rightarrow> bytes) \<Rightarrow> PublisherConfig \<Rightarrow> nat \<Rightarrow> nat \<Rightarrow> Serve \<Rightarrow> bool" where
  "sent_upto feed c start k st \<longleftrightarrow> has_sent feed (PublisherConfig.session c) start k (sent (pub st))"

lemma publisher_inv_sent:
  assumes "publisher_inv feed c c0 start st"
  shows "sent_upto feed c start (unat (pending_first_seq st)) st"
    "unat (pending_first_seq st) \<le> unat (next_seq (pub st))"
  using assms by (simp_all add: publisher_inv_def sent_upto_def Let_def)

lemma publisher_flush_cases:
  assumes inv: "publisher_inv feed c c0 start st" and feed: "feed_ok feed"
    and sess: "length (PublisherConfig.session c) = 10" and ne: "pending_blocks st \<noteq> []"
  shows "(\<exists>e st'. publisher_flush net st = (Inl e, st')
        \<and> sent_upto feed c start (unat (pending_first_seq st)) st')
    \<or> (\<exists>st'. publisher_flush net st = (Inr (), st') \<and> publisher_inv feed c c0 start st'
        \<and> pending_blocks st' = [] \<and> next_seq (pub st') = next_seq (pub st)
        \<and> pending_first_seq st' = next_seq (pub st))"
proof -
  define a where "a = unat (pending_first_seq st)"
  define b where "b = unat (next_seq (pub st))"
  have b: "b < 2 ^ 64" using unsigned_less [of "next_seq (pub st)"] by (simp add: b_def)
  have ab: "start \<le> a" "a \<le> b" and cfg: "cfg (pub st) = c"
    and bs: "pending_blocks st = blocks_at feed a b"
    and snt: "has_sent feed (PublisherConfig.session c) start a (sent (pub st))"
    and ch: "cache (pub st) = map_option (fold RingBufferSeqStore_push (frames_at feed start a)) c0"
    using inv by (simp_all add: publisher_inv_def Let_def a_def b_def)
  show ?thesis
  proof (cases "MoldPacket_new_data (PublisherConfig.session c) (pending_first_seq st) (blocks_at feed a b)")
    case (Inl e)
    then show ?thesis
      using ne snt by (simp add: publisher_flush_def Let_def cfg bs sent_upto_def a_def)
  next
    case (Inr p)
    have p: "MoldPacket_ok p" "blocks p = blocks_at feed a b"
      "unat (MoldPacketHeader.sequence (MoldPacket.header p)) = a"
      using MoldPacket_new_data_ok [OF sess blocks_at_ok [OF feed] Inr] by (simp_all add: a_def)
    have psess: "MoldPacketHeader.session (MoldPacket.header p) = PublisherConfig.session c"
      using Inr by (auto simp: MoldPacket_new_data_def Let_def split: if_splits)
    have "from_feed feed p"
      using p ab b by (simp add: from_feed_def Let_def blocks_at_def)
    then have dg: "datagrams feed (PublisherConfig.session c) a b [p]"
      using p psess by (simp add: datagrams_def)
    have cb: "cache_blocks (pending_first_seq st) (blocks_at feed a b)
        (fold RingBufferSeqStore_push (frames_at feed start a) r)
        = fold RingBufferSeqStore_push (frames_at feed start b) r" for r
      using cache_blocks_fold [of a b feed] ab b
      by (simp add: frames_at_append [of start a b] a_def)
    show ?thesis
    proof (cases "net (length (sent (pub st)))")
      case (Some e)
      then show ?thesis
        using ne snt Inr p(1) by (simp add: publisher_flush_def Let_def cfg bs send_packet_ok sent_upto_def a_def)
    next
      case None
      have "has_sent feed (PublisherConfig.session c) start b (sent (pub st) @ [MoldPacket_wire p])"
        by (rule has_sent_append [OF snt dg ab])
      with None show ?thesis
        using ne Inr p ab
        by (simp add: publisher_flush_def Let_def cfg bs send_packet_ok publisher_inv_def ch
            option.map_comp comp_def cb b_def [symmetric] blocks_at_def [of feed b b])
    qed
  qed
qed

lemma publisher_inv_push:
  assumes inv: "publisher_inv feed c c0 start st" and "data b = feed (unat (next_seq (pub st)))"
    "unat (next_seq (pub st)) + 1 < 2 ^ 64"
  shows "publisher_inv feed c c0 start (push_message b st)"
proof -
  have nx: "unat (next_seq (pub st) + 1) = unat (next_seq (pub st)) + 1"
    using assms(3) by (rule unat_Suc_u64)
  have b: "b = \<lparr>data = feed (unat (next_seq (pub st)))\<rparr>" using assms(2) by (cases b) simp
  show ?thesis
  proof (cases "pending_blocks st = []")
    case True
    then have "unat (pending_first_seq st) = unat (next_seq (pub st))"
      using inv by (auto simp: publisher_inv_def Let_def blocks_at_def)
    with True inv nx show ?thesis
      by (simp add: publisher_inv_def push_message_def Let_def b blocks_at_def)
  next
    case False
    with inv nx show ?thesis
      by (simp add: publisher_inv_def push_message_def Let_def b blocks_at_def)
  qed
qed

lemma next_seq_push [simp]: "next_seq (pub (push_message b st)) = next_seq (pub st) + 1"
  by (simp add: push_message_def Let_def)

lemma on_message_cases:
  assumes inv: "publisher_inv feed c c0 start st" and feed: "feed_ok feed"
    and sess: "length (PublisherConfig.session c) = 10"
    and msg: "Message_ok msg" "feed (unat (next_seq (pub st))) = Message_wire msg"
      "unat (next_seq (pub st)) + 1 < 2 ^ 64"
  shows "(\<exists>e st' k. on_message net now msg st = (Some (Inl e), st') \<and> sent_upto feed c start k st'
        \<and> k \<le> unat (next_seq (pub st)))
    \<or> (\<exists>st'. on_message net now msg st = (None, st') \<and> publisher_inv feed c c0 start st'
        \<and> next_seq (pub st') = next_seq (pub st) + 1)"
proof -
  have len: "length (Message_wire msg) = Message_encoded_len msg" "Message_encoded_len msg \<le> 50"
    using msg(1) Message_encoded_len_bound by simp_all
  have enc: "Message_encode msg (replicate (Message_encoded_len msg) 0)
      = Inr (Message_wire msg, Message_encoded_len msg)"
    using Message_encode_Inr [OF msg(1), of "replicate (Message_encoded_len msg) 0"] by simp
  have push: "publisher_inv feed c c0 start (push_message \<lparr>data = Message_wire msg\<rparr> r)"
    if "publisher_inv feed c c0 start r" "next_seq (pub r) = next_seq (pub st)" for r
    using that msg(2,3) by (intro publisher_inv_push) simp_all
  show ?thesis
  proof (cases "pending_blocks st \<noteq> [] \<and> pending_size st + (2 + length (Message_wire msg)) > mtu (cfg (pub st))")
    case False
    then have "on_message net now msg st = (None, push_message \<lparr>data = Message_wire msg\<rparr> st)"
      using enc len by (auto simp: on_message_def mold_consts)
    then show ?thesis using push [OF inv] by simp
  next
    case True
    then consider (err) e st' where "publisher_flush net st = (Inl e, st')"
        "sent_upto feed c start (unat (pending_first_seq st)) st'"
      | (ok) st' where "publisher_flush net st = (Inr (), st')" "publisher_inv feed c c0 start st'"
        "next_seq (pub st') = next_seq (pub st)"
      using publisher_flush_cases [OF inv feed sess, of net] by blast
    then show ?thesis
    proof cases
      case err
      with True show ?thesis
        using enc len publisher_inv_sent(2) [OF inv] by (auto simp: on_message_def mold_consts)
    next
      case ok
      have "publisher_inv feed c c0 start (st'\<lparr>last_emit := now\<rparr>)"
        using ok(2) by (simp add: publisher_inv_def Let_def)
      from push [OF this] ok True show ?thesis
        using enc len by (simp add: on_message_def mold_consts)
    qed
  qed
qed

lemma publisher_idle:
  assumes "publisher_inv feed c c0 start st" "pending_blocks st = []"
  shows "unat (pending_first_seq st) = unat (next_seq (pub st))"
  using assms by (auto simp: publisher_inv_def Let_def blocks_at_def)

lemma on_timer_cases:
  assumes inv: "publisher_inv feed c c0 start st" and feed: "feed_ok feed"
    and sess: "length (PublisherConfig.session c) = 10"
  shows "(\<exists>e st' k. on_timer net now st = (Some (Inl e), st') \<and> sent_upto feed c start k st'
        \<and> k \<le> unat (next_seq (pub st)))
    \<or> (\<exists>st'. on_timer net now st = (None, st') \<and> publisher_inv feed c c0 start st'
        \<and> next_seq (pub st') = next_seq (pub st))"
proof -
  have stamp: "publisher_inv feed c c0 start (r\<lparr>last_emit := now\<rparr>)" if "publisher_inv feed c c0 start r" for r
    using that by (simp add: publisher_inv_def Let_def)
  show ?thesis
  proof (cases "pending_blocks st = []")
    case False
    with publisher_flush_cases [OF inv feed sess False, of net] publisher_inv_sent(2) [OF inv]
    show ?thesis by (auto simp: on_timer_def intro!: stamp)
  next
    case True
    let ?hb = "MoldPacket_heartbeat (PublisherConfig.session c) (next_seq (pub st))"
    have c: "cfg (pub st) = c" using inv by (simp add: publisher_inv_def Let_def)
    show ?thesis
    proof (cases "net (length (sent (pub st)))")
      case (Some e)
      then have "on_timer net now st = (Some (Inl e), st)"
        using True c by (simp add: on_timer_def send_heartbeat_def send_packet_ok MoldPacket_heartbeat_ok sess)
      then show ?thesis using publisher_inv_sent [OF inv] by auto
    next
      case None
      define st' where "st' = st\<lparr>pub := (pub st)\<lparr>sent := sent (pub st) @ [MoldPacket_wire ?hb]\<rparr>\<rparr>"
      have "has_sent feed (PublisherConfig.session c) start (unat (pending_first_seq st)) (sent (pub st'))"
        using inv by (simp add: st'_def)
          (rule has_sent_append [OF _ header_only_datagrams(1) [OF sess]], simp_all add: publisher_inv_def Let_def)
      then have "publisher_inv feed c c0 start st'"
        using inv by (simp add: publisher_inv_def Let_def st'_def)
      moreover have "on_timer net now st = (None, st'\<lparr>last_emit := now\<rparr>)"
        using True c None
        by (simp add: on_timer_def send_heartbeat_def send_packet_ok MoldPacket_heartbeat_ok sess st'_def)
      ultimately show ?thesis using stamp by (auto simp: st'_def)
    qed
  qed
qed

lemma send_end_of_session_ok:
  "length (PublisherConfig.session (cfg self)) = 10
    \<Longrightarrow> send_end_of_session net self = (case net (length (sent self)) of
      Some e \<Rightarrow> (Inl e, self)
    | None \<Rightarrow> (Inr (), self\<lparr>sent := sent self @ [MoldPacket_wire
        (MoldPacket_end_of_session (PublisherConfig.session (cfg self)) (next_seq self))]\<rparr>))"
  by (simp add: send_end_of_session_def send_packet_ok MoldPacket_end_of_session_ok)

lemma eos_sends_sent:
  assumes "has_sent feed (PublisherConfig.session (cfg self)) start k (sent self)"
    "length (PublisherConfig.session (cfg self)) = 10" "start \<le> k" "eos_sends n net self = (r, self')"
  shows "has_sent feed (PublisherConfig.session (cfg self)) start k (sent self') \<and> cache self' = cache self"
  using assms
proof (induction n arbitrary: self)
  case (Suc n)
  let ?eos = "MoldPacket_end_of_session (PublisherConfig.session (cfg self)) (next_seq self)"
  show ?case
  proof (cases "net (length (sent self))")
    case (Some e)
    then show ?thesis using Suc.prems by (simp add: send_end_of_session_ok)
  next
    case None
    define mid where "mid = self\<lparr>sent := sent self @ [MoldPacket_wire ?eos]\<rparr>"
    have "has_sent feed (PublisherConfig.session (cfg self)) start k (sent mid)"
      using has_sent_append [OF Suc.prems(1) header_only_datagrams(2) [OF Suc.prems(2)] Suc.prems(3) order_refl]
      by (simp add: mid_def)
    then show ?thesis
      using Suc.IH [of mid] Suc.prems(2-4) None by (simp add: send_end_of_session_ok mid_def)
  qed
qed simp

lemma send_eos_burst_sent:
  assumes "has_sent feed (PublisherConfig.session (cfg self)) start k (sent self)"
    "length (PublisherConfig.session (cfg self)) = 10" "start \<le> k" "send_eos_burst net self = (r, self')"
  shows "has_sent feed (PublisherConfig.session (cfg self)) start k (sent self')
    \<and> (r = Inr () \<longrightarrow> cache self' = map_option RingBufferSeqStore_mark_end_of_session (cache self))"
proof -
  obtain r1 mid where mid: "eos_sends (eos_burst (cfg self)) net self = (r1, mid)" by fastforce
  from eos_sends_sent [OF assms(1-3) mid] mid assms(4) show ?thesis
    by (cases r1) (auto simp: send_eos_burst_def)
qed

definition cache_after :: "(nat \<Rightarrow> bytes) \<Rightarrow> nat \<Rightarrow> nat \<Rightarrow> RingBufferSeqStore option \<Rightarrow> RingBufferSeqStore option" where
  "cache_after feed start k = map_option (\<lambda>c. RingBufferSeqStore_mark_end_of_session
    (fold RingBufferSeqStore_push (frames_at feed start k) c))"

lemma on_end_cases:
  assumes inv: "publisher_inv feed c c0 start st" and feed: "feed_ok feed"
    and sess: "length (PublisherConfig.session c) = 10"
  shows "\<exists>r st' k. on_end net st = (Some r, st') \<and> sent_upto feed c start k st'
    \<and> k \<le> unat (next_seq (pub st))
    \<and> (r = Inr () \<longrightarrow> k = unat (next_seq (pub st)) \<and> cache (pub st') = cache_after feed start k c0)"
proof -
  let ?nx = "unat (next_seq (pub st))"
  have burst: "\<exists>r st' k. (let (r, self) = send_eos_burst net (pub s) in (Some r, s\<lparr>pub := self\<rparr>)) = (Some r, st')
      \<and> sent_upto feed c start k st' \<and> k \<le> ?nx
      \<and> (r = Inr () \<longrightarrow> k = ?nx \<and> cache (pub st') = cache_after feed start k c0)"
    if "publisher_inv feed c c0 start s" "pending_blocks s = []" "next_seq (pub s) = next_seq (pub st)" for s
  proof -
    have idle: "unat (pending_first_seq s) = ?nx" using publisher_idle [OF that(1,2)] that(3) by simp
    have "has_sent feed (PublisherConfig.session (cfg (pub s))) start ?nx (sent (pub s))"
      "length (PublisherConfig.session (cfg (pub s))) = 10" "start \<le> ?nx" and c: "cfg (pub s) = c"
      and ch: "cache (pub s) = map_option (fold RingBufferSeqStore_push (frames_at feed start ?nx)) c0"
      using that(1) idle sess by (auto simp: publisher_inv_def Let_def)
    note sent = send_eos_burst_sent [OF this(1-3), of net]
    obtain r self where rs: "send_eos_burst net (pub s) = (r, self)" by fastforce
    from sent [OF rs] show ?thesis
      by (intro exI [of _ r] exI [of _ "s\<lparr>pub := self\<rparr>"] exI [of _ ?nx])
        (simp add: rs sent_upto_def c ch cache_after_def option.map_comp comp_def)
  qed
  show ?thesis
  proof (cases "pending_blocks st = []")
    case True
    with burst [OF inv True] show ?thesis by (simp add: on_end_def)
  next
    case False
    from publisher_flush_cases [OF inv feed sess False, of net] show ?thesis
    proof (elim disjE exE conjE)
      fix e st'
      assume "publisher_flush net st = (Inl e, st')"
        "sent_upto feed c start (unat (pending_first_seq st)) st'"
      with False show ?thesis using publisher_inv_sent(2) [OF inv] by (auto simp: on_end_def)
    next
      fix st'
      assume "publisher_flush net st = (Inr (), st')" "publisher_inv feed c c0 start st'"
        "pending_blocks st' = []" "next_seq (pub st') = next_seq (pub st)"
      with False burst [of st'] show ?thesis by (simp add: on_end_def)
    qed
  qed
qed

section \<open>Whole runs\<close>

text \<open>The messages the publisher takes from its source before it ends or fails.\<close>

fun published :: "ServeEvent list \<Rightarrow> Message list" where
  "published [] = []"
| "published (SourceItem _ (Some (Inr m)) # evs) = m # published evs"
| "published (SourceItem _ _ # evs) = []"
| "published (Timer _ # evs) = published evs"

text \<open>The stream of \<open>msgs\<close> from number \<open>start\<close> on, made total by a one-byte frame elsewhere.\<close>

definition feed_of :: "nat \<Rightarrow> Message list \<Rightarrow> nat \<Rightarrow> bytes" where
  "feed_of start msgs s =
    (if start \<le> s \<and> s < start + length msgs then Message_wire (msgs ! (s - start)) else [0])"

lemma feed_of_ok: "\<forall>m \<in> set msgs. Message_ok m \<Longrightarrow> feed_ok (feed_of start msgs)"
proof -
  assume ok: "\<forall>m \<in> set msgs. Message_ok m"
  have "0 < length (Message_wire m) \<and> length (Message_wire m) \<le> 1024" if "m \<in> set msgs" for m
    using ok that Message_encoded_len_bound [of m] by simp
  then have "block_ok \<lparr>data = feed_of start msgs s\<rparr>" for s
    by (cases "s - start < length msgs") (auto simp: feed_of_def block_ok_def)
  then show ?thesis by (simp add: feed_ok_def)
qed

lemma serve_sent:
  assumes feed: "feed_ok feed" and sess: "length (PublisherConfig.session c) = 10"
  shows "publisher_inv feed c c0 start st
    \<Longrightarrow> \<forall>m \<in> set (published evs). Message_ok m
    \<Longrightarrow> unat (next_seq (pub st)) + length (published evs) < 2 ^ 64
    \<Longrightarrow> \<forall>i < length (published evs). feed (unat (next_seq (pub st)) + i) = Message_wire (published evs ! i)
    \<Longrightarrow> serve net evs st = (r, st')
    \<Longrightarrow> \<exists>k. sent_upto feed c start k st' \<and> k \<le> unat (next_seq (pub st)) + length (published evs)
      \<and> (r = Some (Inr ()) \<longrightarrow> k = unat (next_seq (pub st)) + length (published evs)
            \<and> cache (pub st') = cache_after feed start k c0)"
proof (induction evs arbitrary: st)
  case Nil
  then show ?case using publisher_inv_sent [OF Nil.prems(1)] by auto
next
  case (Cons ev evs)
  have ending: ?case if "serve_step net ev st = on_end net st" "published (ev # evs) = []"
    using on_end_cases [OF Cons.prems(1) feed sess, of net] that Cons.prems(5) by auto
  have source: ?case if "ev = SourceItem now (Some (Inr m))" for now m
  proof -
    have nx: "unat (next_seq (pub st)) + 1 < 2 ^ 64"
      and m: "Message_ok m" "feed (unat (next_seq (pub st))) = Message_wire m"
      using Cons.prems(2-4) that by (auto dest: spec [of _ 0])
    from on_message_cases [OF Cons.prems(1) feed sess m nx, of net now] show ?case
    proof (elim disjE exE conjE)
      fix e st1 k
      assume "on_message net now m st = (Some (Inl e), st1)" "sent_upto feed c start k st1"
        "k \<le> unat (next_seq (pub st))"
      then show ?thesis using Cons.prems(5) that by auto
    next
      fix st1
      assume st1: "on_message net now m st = (None, st1)" "publisher_inv feed c c0 start st1"
        "next_seq (pub st1) = next_seq (pub st) + 1"
      have step: "unat (next_seq (pub st1)) = unat (next_seq (pub st)) + 1"
        using nx st1(3) by (simp add: unat_Suc_u64)
      have "\<forall>i < length (published evs). feed (unat (next_seq (pub st1)) + i) = Message_wire (published evs ! i)"
      proof (intro allI impI)
        fix i assume "i < length (published evs)"
        then show "feed (unat (next_seq (pub st1)) + i) = Message_wire (published evs ! i)"
          using Cons.prems(4) [rule_format, of "Suc i"] that step by simp
      qed
      then show ?thesis
        using Cons.IH [OF st1(2)] Cons.prems(2,3,5) that st1(1) step by simp
    qed
  qed
  have timer: ?case if "ev = Timer now" for now
  proof (cases "now < last_emit st + heartbeat_interval (cfg (pub st))")
    case True
    then show ?thesis using Cons.IH [OF Cons.prems(1)] Cons.prems that by simp
  next
    case False
    from on_timer_cases [OF Cons.prems(1) feed sess, of net now] show ?thesis
    proof (elim disjE exE conjE)
      fix e st1 k
      assume "on_timer net now st = (Some (Inl e), st1)" "sent_upto feed c start k st1"
        "k \<le> unat (next_seq (pub st))"
      then show ?thesis using Cons.prems(5) that False by auto
    next
      fix st1
      assume "on_timer net now st = (None, st1)" "publisher_inv feed c c0 start st1"
        "next_seq (pub st1) = next_seq (pub st)"
      then show ?thesis using Cons.IH [of st1] Cons.prems that False by simp
    qed
  qed
  show ?case
  proof (cases ev)
    case (SourceItem now item)
    then consider "item = None" | m where "item = Some (Inr m)" | "item = Some (Inl Exhausted)"
      | e where "item = Some (Inl e)" "e \<noteq> Exhausted"
      by (metis option.exhaust sum.exhaust)
    then show ?thesis
    proof cases
      case 4
      then have "serve_step net ev st = (Some (Inl SourceExhausted), st)"
        using SourceItem by (cases e) simp_all
      then show ?thesis using Cons.prems(5) publisher_inv_sent [OF Cons.prems(1)] by auto
    qed (use SourceItem ending source in simp_all)
  qed (use timer in simp)
qed

section \<open>Packet sizes\<close>

text \<open>A datagram within the MTU, or one that is larger because of a single block.\<close>

definition packet_fits :: "nat \<Rightarrow> MoldPacket \<Rightarrow> bool" where
  "packet_fits n p \<longleftrightarrow> MoldPacket_wire_len p \<le> n \<or> length (blocks p) \<le> 1"

definition all_fit :: "nat \<Rightarrow> bytes list \<Rightarrow> bool" where
  "all_fit n ds \<longleftrightarrow> (\<forall>d \<in> set ds. \<exists>p. MoldPacket_encode_to p [] = Inr d \<and> packet_fits n p)"

definition size_inv :: "nat \<Rightarrow> Serve \<Rightarrow> bool" where
  "size_inv n st \<longleftrightarrow> mtu (cfg (pub st)) = n \<and> all_fit n (sent (pub st))
   \<and> (pending_blocks st \<noteq> [] \<longrightarrow>
        pending_size st = HEADER_LEN + sum_list (map MessageBlock_wire_len (pending_blocks st))
      \<and> (pending_size st \<le> n \<or> length (pending_blocks st) \<le> 1))"

lemma send_packet_fits:
  assumes "send_packet net p self = (r, self')" "packet_fits n p" "all_fit n (sent self)"
  shows "all_fit n (sent self')" "cfg self' = cfg self" "next_seq self' = next_seq self"
  using assms by (auto simp: send_packet_def all_fit_def split: sum.splits option.splits)

lemma header_only_fits:
  "packet_fits n (MoldPacket_heartbeat sess k)" "packet_fits n (MoldPacket_end_of_session sess k)"
  by (simp_all add: packet_fits_def MoldPacket_heartbeat_def MoldPacket_end_of_session_def)

lemma publisher_flush_fits:
  assumes "size_inv n st" "publisher_flush net st = (r, st')" "pending_blocks st \<noteq> []"
  shows "all_fit n (sent (pub st')) \<and> (r = Inr () \<longrightarrow> size_inv n st' \<and> pending_blocks st' = [])"
proof (cases "MoldPacket_new_data (PublisherConfig.session (cfg (pub st))) (pending_first_seq st) (pending_blocks st)")
  case (Inl e)
  then show ?thesis using assms by (auto simp: publisher_flush_def size_inv_def Let_def)
next
  case (Inr p)
  then have "blocks p = pending_blocks st"
    by (auto simp: MoldPacket_new_data_def Let_def split: if_splits)
  with assms(1,3) have fits: "packet_fits n p"
    by (auto simp: size_inv_def packet_fits_def MoldPacket_wire_len_def)
  define self where "self = (pub st)\<lparr>cache := map_option
    (cache_blocks (pending_first_seq st) (blocks p)) (cache (pub st))\<rparr>"
  obtain r1 self' where send: "send_packet net p self = (r1, self')" by fastforce
  have "all_fit n (sent self)" using assms(1) by (simp add: self_def size_inv_def)
  note sent = send_packet_fits [OF send fits this]
  have flush: "publisher_flush net st = (case r1 of Inl e \<Rightarrow> (Inl e, st\<lparr>pending_blocks := [], pub := self'\<rparr>)
      | Inr _ \<Rightarrow> (Inr (), st\<lparr>pending_blocks := [], pub := self', pending_size := HEADER_LEN,
          pending_first_seq := next_seq self'\<rparr>))"
    using assms(3) Inr send by (simp add: publisher_flush_def Let_def self_def split: sum.split)
  show ?thesis
    using flush assms(1,2) sent by (cases r1) (auto simp: size_inv_def self_def)
qed

lemma size_inv_push:
  assumes "size_inv n st" "pending_blocks st = [] \<or> pending_size st + (2 + length (data b)) \<le> n"
  shows "size_inv n (push_message b st)"
  using assms
  by (auto simp: size_inv_def push_message_def Let_def MessageBlock_wire_len_def mold_consts)

lemma on_message_fits:
  assumes inv: "size_inv n st" and step: "on_message net now m st = (r, st')"
  shows "all_fit n (sent (pub st')) \<and> (r = None \<longrightarrow> size_inv n st')"
proof (cases "Message_encode m (replicate (Message_encoded_len m) 0)")
  case (Inl e)
  then show ?thesis using assms by (auto simp: on_message_def size_inv_def)
next
  case (Inr bl)
  obtain b l where bl: "bl = (b, l)" by (cases bl)
  have mtu: "mtu (cfg (pub st)) = n" using inv by (simp add: size_inv_def)
  consider (big) "length b > MAX_BLOCK_LEN"
    | (flush) "length b \<le> MAX_BLOCK_LEN" "pending_blocks st \<noteq> []" "pending_size st + (2 + length b) > n"
    | (fits) "length b \<le> MAX_BLOCK_LEN" "pending_blocks st = [] \<or> pending_size st + (2 + length b) \<le> n"
    by linarith
  then show ?thesis
  proof cases
    case big
    then show ?thesis using assms Inr bl by (auto simp: on_message_def size_inv_def)
  next
    case flush
    obtain r1 st1 where f: "publisher_flush net st = (r1, st1)" by fastforce
    have "all_fit n (sent (pub st1))" "r1 = Inr () \<Longrightarrow> size_inv n (st1\<lparr>last_emit := now\<rparr>) \<and> pending_blocks st1 = []"
      using publisher_flush_fits [OF inv f flush(2)] by (simp_all add: size_inv_def)
    moreover have "(r, st') = (case r1 of Inl e \<Rightarrow> (Some (Inl e), st1)
        | Inr _ \<Rightarrow> (None, push_message \<lparr>data = b\<rparr> (st1\<lparr>last_emit := now\<rparr>)))"
      using step flush f Inr bl by (simp add: on_message_def mtu split: sum.split)
    ultimately show ?thesis
      using size_inv_push [of n "st1\<lparr>last_emit := now\<rparr>" "\<lparr>data = b\<rparr>"]
      by (cases r1) (auto simp: size_inv_def)
  next
    case fits
    then have "(r, st') = (None, push_message \<lparr>data = b\<rparr> st)"
      using step Inr bl by (auto simp: on_message_def mtu split: if_splits)
    then show ?thesis
      using size_inv_push [OF inv, of "\<lparr>data = b\<rparr>"] fits(2) by (auto simp: size_inv_def)
  qed
qed

lemma eos_sends_fit:
  "all_fit n (sent self) \<Longrightarrow> all_fit n (sent (snd (eos_sends k net self)))"
proof (induction k arbitrary: self)
  case (Suc k)
  obtain r mid where mid: "send_end_of_session net self = (r, mid)" by fastforce
  have "all_fit n (sent mid)"
    using send_packet_fits(1) [OF mid [unfolded send_end_of_session_def] header_only_fits(2) Suc.prems] .
  with Suc.IH [of mid] mid show ?case by (cases r) simp_all
qed simp

lemma on_end_fits:
  assumes "size_inv n st" "on_end net st = (r, st')"
  shows "all_fit n (sent (pub st'))"
proof -
  have burst: "all_fit n (sent (snd (send_eos_burst net self)))" if "all_fit n (sent self)" for self
    using eos_sends_fit [OF that, of "eos_burst (cfg self)" net]
    by (cases "eos_sends (eos_burst (cfg self)) net self") (auto simp: send_eos_burst_def split: sum.split)
  show ?thesis
  proof (cases "pending_blocks st = []")
    case True
    then show ?thesis
      using assms burst [of "pub st"]
      by (cases "send_eos_burst net (pub st)") (auto simp: on_end_def size_inv_def)
  next
    case False
    obtain r1 st1 where f: "publisher_flush net st = (r1, st1)" by fastforce
    have "all_fit n (sent (pub st1))" using publisher_flush_fits [OF assms(1) f False] by simp
    then show ?thesis
      using assms(2) f False burst [of "pub st1"]
      by (cases r1; cases "send_eos_burst net (pub st1)") (auto simp: on_end_def)
  qed
qed

lemma on_end_ends: "on_end net st = (r, st') \<Longrightarrow> r \<noteq> None"
  by (auto simp: on_end_def split: prod.splits sum.splits if_splits)

lemma on_timer_fits:
  assumes inv: "size_inv n st" and step: "on_timer net now st = (r, st')"
  shows "all_fit n (sent (pub st')) \<and> (r = None \<longrightarrow> size_inv n st')"
proof (cases "pending_blocks st = []")
  case True
  obtain r1 self where send: "send_heartbeat net (pub st) = (r1, self)" by fastforce
  have "all_fit n (sent (pub st))" using inv by (simp add: size_inv_def)
  note sent = send_packet_fits [OF send [unfolded send_heartbeat_def] header_only_fits(1) this]
  have "(r, st') = (case r1 of Inl e \<Rightarrow> (Some (Inl e), st\<lparr>pub := self\<rparr>)
      | Inr _ \<Rightarrow> (None, st\<lparr>pub := self, last_emit := now\<rparr>))"
    using step True send by (simp add: on_timer_def split: sum.split)
  then show ?thesis using inv sent True by (cases r1) (auto simp: size_inv_def)
next
  case False
  obtain r1 st1 where f: "publisher_flush net st = (r1, st1)" by fastforce
  have "(r, st') = (case r1 of Inl e \<Rightarrow> (Some (Inl e), st1) | Inr _ \<Rightarrow> (None, st1\<lparr>last_emit := now\<rparr>))"
    using step False f by (simp add: on_timer_def split: sum.split)
  then show ?thesis
    using publisher_flush_fits [OF inv f False] by (cases r1) (auto simp: size_inv_def)
qed

lemma serve_fits:
  "size_inv n st \<Longrightarrow> serve net evs st = (r, st') \<Longrightarrow> all_fit n (sent (pub st'))"
proof (induction evs arbitrary: st)
  case Nil
  then show ?case by (simp add: size_inv_def)
next
  case (Cons ev evs)
  obtain r1 st1 where step: "serve_step net ev st = (r1, st1)" by fastforce
  have "all_fit n (sent (pub st1)) \<and> (r1 = None \<longrightarrow> size_inv n st1)"
  proof (cases "(net, ev, st)" rule: serve_step.cases)
    case (1 net' now msg st')
    then show ?thesis using on_message_fits [OF Cons.prems(1)] step by simp
  next
    case (2 net' now st')
    then show ?thesis
      using on_end_fits [OF Cons.prems(1), of net r1 st1] on_end_ends [of net st r1 st1] step by auto
  next
    case (3 net' now st')
    then show ?thesis
      using on_end_fits [OF Cons.prems(1), of net r1 st1] on_end_ends [of net st r1 st1] step by auto
  next
    case (5 net' now st')
    have "all_fit n (sent (pub st))" using Cons.prems(1) by (simp add: size_inv_def)
    then show ?thesis
      using 5 on_timer_fits [OF Cons.prems(1), of net now r1 st1] step Cons.prems(1)
      by (auto split: if_splits)
  qed (use Cons.prems(1) step in \<open>auto simp: size_inv_def\<close>)
  then show ?case using Cons.IH [of st1] Cons.prems(2) step by (cases r1) auto
qed

section \<open>Properties\<close>

text \<open>The publisher with an empty or given cache, ready to serve.\<close>

definition publisher :: "PublisherConfig \<Rightarrow> RingBufferSeqStore option \<Rightarrow> MoldPublisher" where
  "publisher c c0 = (case c0 of None \<Rightarrow> MoldPublisher_bind c
    | Some r \<Rightarrow> MoldPublisher_with_cache r (MoldPublisher_bind c))"

lemma publisher_fields:
  "cfg (publisher c c0) = c" "next_seq (publisher c c0) = start_sequence c"
  "cache (publisher c c0) = c0" "sent (publisher c c0) = []"
  by (simp_all add: publisher_def MoldPublisher_bind_def MoldPublisher_with_cache_def split: option.split)

lemma publisher_inv_start:
  "publisher_inv feed c c0 (unat (start_sequence c)) (Serve_start now (publisher c c0))"
  by (simp add: publisher_inv_def Serve_start_def publisher_fields Let_def blocks_at_def frames_at_def
      has_sent_def datagrams_def option.map_id)

lemma publisher_sends:
  assumes "length (PublisherConfig.session c) = 10" "\<forall>m \<in> set (published evs). Message_ok m"
    and "unat (start_sequence c) + length (published evs) < 2 ^ 64"
    and "serve net evs (Serve_start now (publisher c c0)) = (r, st)"
  defines "start \<equiv> unat (start_sequence c)"
  shows "\<exists>pkts k. sent (pub st) = map MoldPacket_wire pkts
    \<and> datagrams (feed_of start (published evs)) (PublisherConfig.session c) start k pkts
    \<and> k \<le> start + length (published evs)
    \<and> (r = Some (Inr ()) \<longrightarrow> k = start + length (published evs)
          \<and> cache (pub st) = cache_after (feed_of start (published evs)) start k c0)"
proof -
  define feed where "feed = feed_of start (published evs)"
  have "\<forall>i < length (published evs). feed (start + i) = Message_wire (published evs ! i)"
    by (simp add: feed_def feed_of_def)
  moreover have "next_seq (pub (Serve_start now (publisher c c0))) = start_sequence c"
    by (simp add: Serve_start_def publisher_fields)
  moreover have "feed_ok feed" unfolding feed_def using assms(2) by (rule feed_of_ok)
  ultimately show ?thesis
    using serve_sent [OF _ assms(1) publisher_inv_start assms(2), of feed now c0 net r st] assms(3,4)
    by (auto simp: sent_upto_def has_sent_def start_def feed_def)
qed

text \<open>C17: However the source items and the heartbeat timer interleave and whenever a send fails,
  the datagrams of a publisher are well-formed packets of its session whose blocks, read in
  order, are the encoded messages of the source, each once and under consecutive sequence
  numbers from the configured start; when the publisher ends without an error every message
  it took has been sent and the retransmission cache has received exactly these frames and the
  end of the session.\<close>

theorem publisher_stream:
  assumes "length (PublisherConfig.session c) = 10" "\<forall>m \<in> set (published evs). Message_ok m"
    and "unat (start_sequence c) + length (published evs) < 2 ^ 64"
    and "serve net evs (Serve_start now (publisher c c0)) = (r, st)"
  defines "start \<equiv> unat (start_sequence c)"
  defines "feed \<equiv> feed_of start (published evs)"
  shows "\<exists>pkts k. sent (pub st) = map MoldPacket_wire pkts
    \<and> datagrams feed (PublisherConfig.session c) start k pkts
    \<and> k \<le> start + length (published evs)
    \<and> (r = Some (Inr ()) \<longrightarrow> k = start + length (published evs)
          \<and> cache (pub st) = cache_after feed start k c0)"
  using publisher_sends [OF assms(1-4)] unfolding start_def feed_def .

definition sample_config :: PublisherConfig where
  "sample_config = (PublisherConfig_new ''233.252.0.1:5000'' (replicate 10 65))\<lparr>mtu := 40, eos_burst := 1\<rparr>"

definition sample_events :: "ServeEvent list" where
  "sample_events = [SourceItem 0 (Some (Inr sample_add)), SourceItem 1 (Some (Inr sample_add)), SourceItem 2 None]"

lemma sample_publisher:
  "published sample_events = [sample_add, sample_add]"
  "length (PublisherConfig.session sample_config) = 10" "start_sequence sample_config = 1"
  "mtu sample_config = 40"
  by (simp_all add: sample_events_def sample_config_def PublisherConfig_new_def)

theorem publisher_stream_witness:
  "\<exists>pkts k. sent (pub (snd (serve (\<lambda>_. None) sample_events (Serve_start 0 (publisher sample_config None)))))
      = map MoldPacket_wire pkts
    \<and> datagrams (feed_of 1 [sample_add, sample_add]) (replicate 10 65) 1 k pkts \<and> k \<le> 3"
proof -
  obtain r st where run: "serve (\<lambda>_. None) sample_events (Serve_start 0 (publisher sample_config None)) = (r, st)"
    by fastforce
  have "PublisherConfig.session sample_config = replicate 10 65"
    by (simp add: sample_config_def PublisherConfig_new_def)
  with publisher_stream [OF _ _ _ run] sample_add_ok(1)
  have "\<exists>pkts k. sent (pub st) = map MoldPacket_wire pkts
    \<and> datagrams (feed_of 1 [sample_add, sample_add]) (replicate 10 65) 1 k pkts \<and> k \<le> 1 + 2"
    by (simp add: sample_publisher) blast
  then show ?thesis by (simp add: run numeral_3_eq_3)
qed

text \<open>Every datagram of the publisher fits the configured MTU, except one that carries a single
  block that is too large for it on its own (or no block at all).\<close>

lemma publisher_mtu:
  "all_fit (mtu c) (sent (pub (snd (serve net evs (Serve_start now (publisher c c0))))))"
proof -
  have "size_inv (mtu c) (Serve_start now (publisher c c0))"
    by (simp add: size_inv_def Serve_start_def publisher_fields all_fit_def)
  then show ?thesis
    using serve_fits by (cases "serve net evs (Serve_start now (publisher c c0))") simp
qed

text \<open>The exception happens: with an MTU of 40 bytes the publisher sends an add-order message
  in a datagram of 58 bytes.\<close>

lemma publisher_oversized:
  "map length (sent (pub (snd (serve (\<lambda>_. None) sample_events (Serve_start 0 (publisher sample_config None))))))
     = [58, 58, 20] \<and> mtu sample_config = 40"
proof -
  have enc: "Message_encode sample_add (replicate (Message_encoded_len sample_add) 0)
      = Inr (Message_wire sample_add, 36)" and len: "length (Message_wire sample_add) = 36"
    using Message_encode_Inr [OF sample_add_ok(1), of "replicate 36 0"] sample_add_ok by simp_all
  have "block_ok \<lparr>data = Message_wire sample_add\<rparr>" by (simp add: block_ok_def len)
  then have "MoldPacket_ok \<lparr>MoldPacket.header = \<lparr>MoldPacketHeader.session = replicate 10 65,
      MoldPacketHeader.sequence = n, message_count = 1\<rparr>, MoldPacket.blocks = [\<lparr>data = Message_wire sample_add\<rparr>]\<rparr>" for n
    by (simp add: MoldPacket_ok_def is_end_of_session_def mold_consts)
  moreover have "MoldPacket_wire_len (MoldPacket_end_of_session sess n) = 20" for sess n
    by (simp add: MoldPacket_end_of_session_def MoldPacket_wire_len_def mold_consts)
  ultimately show ?thesis
    by (simp add: sample_events_def sample_config_def PublisherConfig_new_def Serve_start_def publisher_def
        MoldPublisher_bind_def on_message_def enc len mold_consts push_message_def Let_def
        publisher_flush_def MoldPacket_new_data_def send_packet_ok on_end_def send_eos_burst_def
        send_end_of_session_ok length_MoldPacket_wire
        MoldPacket_end_of_session_ok)
      (simp add: MoldPacket_wire_len_def MessageBlock_wire_len_def len mold_consts)
qed

end
