(* ===== verification/Itch_Mold_Stream.thy ===== *)
theory Itch_Mold_Stream
  imports Itch_Mold_Receiver Itch_Mold_Request
begin

text \<open>
  The event stream of the MoldUDP64 receiver (\<open>MoldStream\<close> in \<open>itch-mold/src/receiver.rs\<close>)
  and the client that fills gaps from re-request servers
  (\<open>itch-mold/src/gap_recovery.rs\<close>).  A poll is given the time and the results of the
  socket reads it will see before the socket has nothing more; the outcome of an
  attempt to reach a re-request server is an argument too.  The lemmas show when
  a poll returns and when it does not, how the stream ends, how many attempts a
  recovery makes, and what retransmitted frames do to the receiver.
\<close>

section \<open>Definitions\<close>

abbreviation RECV_BUFFER_LEN :: nat where "RECV_BUFFER_LEN \<equiv> 2048"

text \<open>Instants and durations are nanoseconds; \<open>silence_timer\<close> is the deadline of the sleep.\<close>

record MoldStream =
  state :: ReceiverState
  cfg :: MoldConfig
  last_seen :: nat
  soft_warned :: bool
  silence_timer :: nat
  dead_link_pending :: bool
  finished :: bool

definition MoldStream_from_socket :: "nat \<Rightarrow> MoldConfig \<Rightarrow> MoldStream" where
  "MoldStream_from_socket now c = \<lparr>state = ReceiverState_new c, cfg = c, last_seen = now,
     soft_warned = False, silence_timer = now + silence_warning c, dead_link_pending = False,
     finished = False\<rparr>"

definition touch_packet :: "nat \<Rightarrow> MoldStream \<Rightarrow> MoldStream" where
  "touch_packet now self = self\<lparr>last_seen := now, soft_warned := False, dead_link_pending := False,
     silence_timer := now + silence_warning (cfg self)\<rparr>"

definition rearm_silence_timer :: "MoldStream \<Rightarrow> MoldStream" where
  "rearm_silence_timer self = self\<lparr>silence_timer :=
    (if \<not> soft_warned self then last_seen self + silence_warning (cfg self)
     else last_seen self + silence_dead_link (cfg self))\<rparr>"

definition check_silence :: "nat \<Rightarrow> MoldStream \<Rightarrow> MoldError option \<times> MoldStream" where
  "check_silence now self =
    (let elapsed = now - last_seen self;
         self = (if \<not> soft_warned self \<and> elapsed \<ge> silence_warning (cfg self)
                 then self\<lparr>soft_warned := True\<rparr> else self) in
     if elapsed \<ge> silence_dead_link (cfg self) \<and> \<not> dead_link_pending self
     then (Some (PeerSilent elapsed), self\<lparr>dead_link_pending := True\<rparr>)
     else (None, self))"

text \<open>\<open>if let Some(event) = self.state.outbox.pop_front()\<close>, with the end-of-session check.\<close>

definition pop_event :: "MoldStream \<Rightarrow> (MoldError + MoldEvent) option \<times> MoldStream" where
  "pop_event self =
    (case outbox (state self) of
       [] \<Rightarrow> (None, self)
     | event # rest \<Rightarrow>
         let self = self\<lparr>state := (state self)\<lparr>outbox := rest\<rparr>\<rparr> in
         (Some event, case event of
            Inr (EndOfSession _) \<Rightarrow> self\<lparr>finished := True\<rparr>
          | _ \<Rightarrow> self))"

text \<open>The loop of \<open>poll_next\<close>: \<open>arrivals\<close> are the results of the next socket reads (a datagram is cut
  at the size of the receive buffer), after which the socket is pending.  The loop may run
  forever, so its result is optional.\<close>

partial_function (option) poll_loop ::
  "nat \<Rightarrow> (string + bytes) list \<Rightarrow> MoldStream \<Rightarrow> ((MoldError + MoldEvent) option Poll \<times> MoldStream) option" where
  "poll_loop now arrivals self =
    (case arrivals of
       Inr dgram # rest \<Rightarrow>
         (let self = touch_packet now self in
          case MoldPacket_decode (take RECV_BUFFER_LEN dgram) of
            Inl err \<Rightarrow> Some (Ready (Some (Inl err)), self)
          | Inr pkt \<Rightarrow>
              (case pop_event (self\<lparr>state := ReceiverState_ingest pkt (state self)\<rparr>) of
                 (Some event, self) \<Rightarrow> Some (Ready (Some event), self)
               | (None, self) \<Rightarrow> poll_loop now rest self))
     | Inl err # rest \<Rightarrow> Some (Ready (Some (Inl (Io err))), self)
     | [] \<Rightarrow>
         if silence_timer self \<le> now then
           (case check_silence now self of
              (Some err, self) \<Rightarrow>
                Some (Ready (Some (Inl err)), self\<lparr>silence_timer := now + silence_dead_link (cfg self)\<rparr>)
            | (None, self) \<Rightarrow> poll_loop now [] (rearm_silence_timer self))
         else Some (Pending, self))"

definition MoldStream_poll_next ::
  "nat \<Rightarrow> (string + bytes) list \<Rightarrow> MoldStream \<Rightarrow> ((MoldError + MoldEvent) option Poll \<times> MoldStream) option" where
  "MoldStream_poll_next now arrivals self =
    (if finished self then Some (Ready None, self)
     else case pop_event self of
       (Some event, self) \<Rightarrow> Some (Ready (Some event), self)
     | (None, self) \<Rightarrow> poll_loop now arrivals self)"

text \<open>One retransmitted frame becomes a one-block packet of the locked session.\<close>

definition retransmit_frame :: "bytes \<Rightarrow> CachedFrame \<Rightarrow> ReceiverState \<Rightarrow> ReceiverState" where
  "retransmit_frame sess f self =
    (case MessageBlock_new (body f) of
       Inl err \<Rightarrow> push_back (Inl err) self
     | Inr block \<Rightarrow>
         (case MoldPacket_new_data sess (CachedFrame.sequence f) [block] of
            Inl err \<Rightarrow> push_back (Inl err) self
          | Inr pkt \<Rightarrow> ReceiverState_ingest pkt self))"

definition ingest_retransmit :: "nat \<Rightarrow> CachedFrame list \<Rightarrow> MoldStream \<Rightarrow> MoldStream" where
  "ingest_retransmit now fs self =
    (let sess = (case ReceiverState.session (state self) of
           Some s \<Rightarrow> s
         | None \<Rightarrow> copy_from_slice (replicate 10 space) 0 []) in
     touch_packet now (self\<lparr>state := fold (retransmit_frame sess) fs (state self)\<rparr>))"

abbreviation next_expected_sequence :: "MoldStream \<Rightarrow> u64" where
  "next_expected_sequence self \<equiv> next_expected (state self)"

abbreviation current_session :: "MoldStream \<Rightarrow> bytes option" where
  "current_session self \<equiv> ReceiverState.session (state self)"

abbreviation pending_count :: "MoldStream \<Rightarrow> nat" where
  "pending_count self \<equiv> length (pending (state self))"

abbreviation pending_overflow_drops :: "MoldStream \<Rightarrow> u64" where
  "pending_overflow_drops self \<equiv> overflow_drops (state self)"

abbreviation silent_warned :: "MoldStream \<Rightarrow> bool" where
  "silent_warned self \<equiv> soft_warned self"

subsection \<open>Gap recovery\<close>

abbreviation DEFAULT_REQUEST_TIMEOUT :: nat where "DEFAULT_REQUEST_TIMEOUT \<equiv> 5 * 10 ^ 9"
abbreviation DEFAULT_GAP_TIMEOUT :: nat where "DEFAULT_GAP_TIMEOUT \<equiv> 60 * 10 ^ 9"
abbreviation DEFAULT_BACKOFF_MIN :: nat where "DEFAULT_BACKOFF_MIN \<equiv> 50 * 10 ^ 6"
abbreviation DEFAULT_BACKOFF_MAX :: nat where "DEFAULT_BACKOFF_MAX \<equiv> 2 * 10 ^ 9"
abbreviation DEFAULT_MAX_RETRIES_PER_SERVER :: nat where "DEFAULT_MAX_RETRIES_PER_SERVER \<equiv> 3"

record GapRecoveryConfig =
  request_servers :: "string list"
  request_timeout :: nat
  gap_timeout :: nat
  backoff_min :: nat
  backoff_max :: nat
  max_retries_per_server :: nat

definition GapRecoveryConfig_new :: "string list \<Rightarrow> GapRecoveryConfig" where
  "GapRecoveryConfig_new servers = \<lparr>GapRecoveryConfig.request_servers = servers,
     request_timeout = DEFAULT_REQUEST_TIMEOUT, gap_timeout = DEFAULT_GAP_TIMEOUT,
     backoff_min = DEFAULT_BACKOFF_MIN, backoff_max = DEFAULT_BACKOFF_MAX,
     max_retries_per_server = DEFAULT_MAX_RETRIES_PER_SERVER\<rparr>"

definition with_request_timeout :: "nat \<Rightarrow> GapRecoveryConfig \<Rightarrow> GapRecoveryConfig" where
  "with_request_timeout t self = self\<lparr>request_timeout := t\<rparr>"

definition with_gap_timeout :: "nat \<Rightarrow> GapRecoveryConfig \<Rightarrow> GapRecoveryConfig" where
  "with_gap_timeout t self = self\<lparr>gap_timeout := t\<rparr>"

record RecoveryFrames =
  frames :: "CachedFrame list"
  eos :: bool

text \<open>The number of frames asked of a server, in \<open>u64\<close> arithmetic.\<close>

definition gap_count :: "u64 \<Rightarrow> u64 \<Rightarrow> u32" where
  "gap_count from_seq to_seq = ucast (min (to_seq - from_seq + 1) 0xFFFFFFFF)"

text \<open>\<open>net k server from count\<close> is how long the connection, request and response of the \<open>k\<close>-th
  attempt take and what they give; time passes only there and in the sleeps.  \<open>timeout\<close> polls
  the exchange before its timer, so an exchange that takes exactly the budget is in time.\<close>

type_synonym exchange = "nat \<Rightarrow> string \<Rightarrow> u64 \<Rightarrow> u32 \<Rightarrow> nat \<times> (MoldError + RequestResponse)"

definition try_one_server ::
  "exchange \<Rightarrow> nat \<Rightarrow> string \<Rightarrow> u64 \<Rightarrow> u32 \<Rightarrow> nat \<Rightarrow> nat \<times> (MoldError + RequestResponse)" where
  "try_one_server net k addr from_seq count budget =
    (if fst (net k addr from_seq count) \<le> budget then net k addr from_seq count
     else (budget, Inl (RequestTimeout addr from_seq)))"

text \<open>The loop over the retries of one server returns the result if the recovery ends there, the
  time, the number of attempts so far and the last error.\<close>

record Recovery =
  clock :: nat
  attempts :: nat
  last_err :: "MoldError option"

fun try_server ::
  "exchange \<Rightarrow> GapRecoveryConfig \<Rightarrow> nat \<Rightarrow> u64 \<Rightarrow> u32 \<Rightarrow> string \<Rightarrow> nat \<Rightarrow> nat \<Rightarrow> Recovery
    \<Rightarrow> (MoldError + RecoveryFrames) option \<times> Recovery" where
  "try_server net c deadline from_seq count server backoff 0 st = (None, st)"
| "try_server net c deadline from_seq count server backoff (Suc n) st =
    (if clock st \<ge> deadline then (Some (Inl (RequestTimeout server from_seq)), st)
     else
       let (t, answer) = try_one_server net (attempts st) server from_seq count
             (min (deadline - clock st) (request_timeout c));
           st = st\<lparr>clock := clock st + t, attempts := Suc (attempts st)\<rparr>;
           retry = (\<lambda>err. try_server net c deadline from_seq count server (min (backoff * 2) (backoff_max c)) n
             (st\<lparr>last_err := Some err, clock := clock st + backoff\<rparr>))
       in case answer of
         Inr resp \<Rightarrow>
           if (status resp = STATUS_OK \<or> status resp = STATUS_HOLE) \<and> RequestResponse.frames resp \<noteq> []
           then (Some (Inr \<lparr>RecoveryFrames.frames = RequestResponse.frames resp, RecoveryFrames.eos = False\<rparr>), st)
           else if status resp = STATUS_END_OF_SESSION
           then (Some (Inr \<lparr>RecoveryFrames.frames = RequestResponse.frames resp, RecoveryFrames.eos = True\<rparr>), st)
           else retry (RequestTimeout server from_seq)
       | Inl err \<Rightarrow> retry err)"

fun try_servers ::
  "exchange \<Rightarrow> GapRecoveryConfig \<Rightarrow> nat \<Rightarrow> u64 \<Rightarrow> u32 \<Rightarrow> string list \<Rightarrow> Recovery
    \<Rightarrow> (MoldError + RecoveryFrames) option \<times> Recovery" where
  "try_servers net c deadline from_seq count [] st = (None, st)"
| "try_servers net c deadline from_seq count (server # servers) st =
    (case try_server net c deadline from_seq count server (backoff_min c) (max (max_retries_per_server c) 1) st of
       (Some r, st) \<Rightarrow> (Some r, st)
     | (None, st) \<Rightarrow> try_servers net c deadline from_seq count servers st)"

definition recover_gap ::
  "exchange \<Rightarrow> GapRecoveryConfig \<Rightarrow> nat \<Rightarrow> u64 \<Rightarrow> u64 \<Rightarrow> (MoldError + RecoveryFrames) \<times> Recovery" where
  "recover_gap net c now from_seq to_seq =
    (let st = \<lparr>clock = now, attempts = 0, last_err = None\<rparr> in
     case GapRecoveryConfig.request_servers c of
       [] \<Rightarrow> (Inl (RequestTimeout ''0.0.0.0:0'' from_seq), st)
     | server # servers \<Rightarrow>
         (case try_servers net c (now + gap_timeout c) from_seq (gap_count from_seq to_seq)
                 (server # servers) st of
            (Some r, st) \<Rightarrow> (r, st)
          | (None, st) \<Rightarrow>
              (case last_err st of
                 Some err \<Rightarrow> (Inl err, st)
               | None \<Rightarrow> (Inl (RequestTimeout server from_seq), st))))"

record GapRecoveryClient =
  stream :: MoldStream
  config :: GapRecoveryConfig
  active :: "(u64 \<times> u64) option"

definition GapRecoveryClient_new :: "MoldStream \<Rightarrow> GapRecoveryConfig \<Rightarrow> GapRecoveryClient" where
  "GapRecoveryClient_new s c = \<lparr>stream = s, config = c, active = None\<rparr>"

definition spawn_recovery :: "u64 \<Rightarrow> u64 \<Rightarrow> GapRecoveryClient \<Rightarrow> GapRecoveryClient" where
  "spawn_recovery from_seq to_seq self = self\<lparr>active := Some (from_seq, to_seq)\<rparr>"

text \<open>\<open>task\<close> is the state of the running recovery at this poll: pending, finished with a result,
  or panicked.\<close>

datatype TaskPoll = TaskPending | TaskDone "MoldError + RecoveryFrames" | TaskPanicked

definition poll_stream ::
  "nat \<Rightarrow> (string + bytes) list \<Rightarrow> GapRecoveryClient
    \<Rightarrow> ((MoldError + MoldEvent) option Poll \<times> GapRecoveryClient) option" where
  "poll_stream now arrivals self =
    (case MoldStream_poll_next now arrivals (stream self) of
       None \<Rightarrow> None
     | Some (Ready (Some (Inr (Gap a b))), s) \<Rightarrow>
         (let self = self\<lparr>stream := s\<rparr> in
          Some (Ready (Some (Inr (Gap a b))),
            if GapRecoveryConfig.request_servers (config self) \<noteq> [] \<and> active self = None
            then spawn_recovery a b self else self))
     | Some (r, s) \<Rightarrow> Some (r, self\<lparr>stream := s\<rparr>))"

definition GapRecoveryClient_poll_next ::
  "nat \<Rightarrow> (string + bytes) list \<Rightarrow> TaskPoll \<Rightarrow> GapRecoveryClient
    \<Rightarrow> ((MoldError + MoldEvent) option Poll \<times> GapRecoveryClient) option" where
  "GapRecoveryClient_poll_next now arrivals task self =
    (if active self = None then poll_stream now arrivals self
     else case task of
       TaskDone (Inr rf) \<Rightarrow>
         poll_stream now arrivals (self\<lparr>active := None,
           stream := ingest_retransmit now (RecoveryFrames.frames rf) (stream self)\<rparr>)
     | TaskDone (Inl err) \<Rightarrow> Some (Ready (Some (Inl err)), self\<lparr>active := None\<rparr>)
     | TaskPanicked \<Rightarrow> poll_stream now arrivals (self\<lparr>active := None\<rparr>)
     | TaskPending \<Rightarrow> poll_stream now arrivals self)"

section \<open>When a poll returns\<close>

text \<open>The timer is due, the dead link has been reported and is still dead: the deadline the timer is
  set back to has passed already.\<close>

definition spinning :: "nat \<Rightarrow> MoldStream \<Rightarrow> bool" where
  "spinning now self \<longleftrightarrow> silence_timer self \<le> now \<and> dead_link_pending self
    \<and> last_seen self + silence_dead_link (cfg self) \<le> now
    \<and> (soft_warned self \<or> last_seen self + silence_warning (cfg self) \<le> now)"


lemma poll_loop_due:
  "silence_timer self \<le> now \<Longrightarrow> poll_loop now [] self =
    (case check_silence now self of
       (Some err, self) \<Rightarrow>
         Some (Ready (Some (Inl err)), self\<lparr>silence_timer := now + silence_dead_link (cfg self)\<rparr>)
     | (None, self) \<Rightarrow> poll_loop now [] (rearm_silence_timer self))"
  by (simp add: poll_loop.simps [of now "[]" self])





lemma spinning_step:
  assumes "spinning now self"
  shows "\<exists>self'. check_silence now self = (None, self') \<and> spinning now (rearm_silence_timer self')"
  using assms by (auto simp: check_silence_def rearm_silence_timer_def spinning_def Let_def)

lemma poll_loop_spins:
  assumes "spinning now self"
  shows "poll_loop now [] self = None"
proof -
  have returned: "\<not> (spinning now self \<and> arrivals = [])" if "poll_loop now arrivals self = Some r" for r arrivals now self
  proof (rule poll_loop.raw_induct [of "\<lambda>now arrivals self r. \<not> (spinning now self \<and> arrivals = [])", OF _ that])
    fix f now arrivals self r
    assume IH: "\<And>now arrivals self r. f now arrivals self = Some r \<Longrightarrow> \<not> (spinning now self \<and> arrivals = [])"
      and body: "(case arrivals of
       Inr dgram # rest \<Rightarrow>
         (let self = touch_packet now self in
          case MoldPacket_decode (take RECV_BUFFER_LEN dgram) of
            Inl err \<Rightarrow> Some (Ready (Some (Inl err)), self)
          | Inr pkt \<Rightarrow>
              (case pop_event (self\<lparr>state := ReceiverState_ingest pkt (state self)\<rparr>) of
                 (Some event, self) \<Rightarrow> Some (Ready (Some event), self)
               | (None, self) \<Rightarrow> f now rest self))
     | Inl err # rest \<Rightarrow> Some (Ready (Some (Inl (Io err))), self)
     | [] \<Rightarrow>
         if silence_timer self \<le> now then
           (case check_silence now self of
              (Some err, self) \<Rightarrow>
                Some (Ready (Some (Inl err)), self\<lparr>silence_timer := now + silence_dead_link (cfg self)\<rparr>)
            | (None, self) \<Rightarrow> f now [] (rearm_silence_timer self))
         else Some (Pending, self)) = Some r"
    show "\<not> (spinning now self \<and> arrivals = [])"
    proof
      assume spin: "spinning now self \<and> arrivals = []"
      then obtain self' where "check_silence now self = (None, self')" "spinning now (rearm_silence_timer self')"
        using spinning_step by blast
      moreover have "silence_timer self \<le> now" using spin by (simp add: spinning_def)
      ultimately have "f now [] (rearm_silence_timer self') = Some r" using body spin by simp
      then show False using IH \<open>spinning now (rearm_silence_timer self')\<close> by blast
    qed
  qed
  show ?thesis
  proof (cases "poll_loop now [] self")
    case (Some r)
    from returned [OF Some] assms show ?thesis by simp
  qed simp
qed

section \<open>Recovery attempts\<close>

text \<open>What holds after any part of a recovery: the clock has passed the deadline by one sleep at
  most, and the frames it returns are those of one answer that came in time.\<close>

definition longest_sleep :: "GapRecoveryConfig \<Rightarrow> nat" where
  "longest_sleep c = max (backoff_min c) (backoff_max c)"

definition from_attempt ::
  "exchange \<Rightarrow> GapRecoveryConfig \<Rightarrow> nat \<Rightarrow> u64 \<Rightarrow> u32 \<Rightarrow> Recovery \<Rightarrow> MoldError + RecoveryFrames \<Rightarrow> bool" where
  "from_attempt net c deadline from_seq count st r \<longleftrightarrow> (case r of
      Inl _ \<Rightarrow> True
    | Inr rf \<Rightarrow> clock st \<le> deadline
        \<and> (\<exists>k < attempts st. \<exists>server \<in> set (GapRecoveryConfig.request_servers c). \<exists>t resp.
             net k server from_seq count = (t, Inr resp) \<and> t \<le> request_timeout c
             \<and> RecoveryFrames.frames rf = RequestResponse.frames resp))"

lemma try_one_server_cases:
  obtains (answered) t r where "try_one_server net k addr a count budget = (t, r)"
      "net k addr a count = (t, r)" "t \<le> budget"
    | (late) "try_one_server net k addr a count budget = (budget, Inl (RequestTimeout addr a))"
  by (cases "net k addr a count"; cases "fst (net k addr a count) \<le> budget") (simp_all add: try_one_server_def)

lemma try_server_attempts:
  assumes "server \<in> set (GapRecoveryConfig.request_servers c)"
  shows "try_server net c deadline a count server backoff n st = (r, st')
    \<Longrightarrow> backoff \<le> longest_sleep c \<Longrightarrow> clock st \<le> deadline + longest_sleep c
    \<Longrightarrow> attempts st' \<le> attempts st + n \<and> clock st' \<le> deadline + longest_sleep c
      \<and> (\<forall>x. r = Some x \<longrightarrow> from_attempt net c deadline a count st' x)"
proof (induction n arbitrary: backoff st)
  case (Suc n)
  show ?case
  proof (cases "clock st \<ge> deadline")
    case True
    then show ?thesis using Suc.prems by (auto simp: from_attempt_def)
  next
    case False
    let ?budget = "min (deadline - clock st) (request_timeout c)"
    let ?count = "\<lambda>t. st\<lparr>clock := clock st + t, attempts := Suc (attempts st)\<rparr>"
    have retried: "attempts st' \<le> Suc (attempts st) + n \<and> clock st' \<le> deadline + longest_sleep c
        \<and> (\<forall>x. r = Some x \<longrightarrow> from_attempt net c deadline a count st' x)"
      if "try_server net c deadline a count server (min (backoff * 2) (backoff_max c)) n
        ((?count t)\<lparr>last_err := e, clock := clock st + t + backoff\<rparr>) = (r, st')"
        "t \<le> ?budget" for t e
    proof -
      have "clock st + t + backoff \<le> deadline + longest_sleep c" using that(2) False Suc.prems(2) by auto
      then show ?thesis using Suc.IH [OF that(1)] by (simp add: longest_sleep_def)
    qed
    show ?thesis
    proof (cases rule: try_one_server_cases [of net "attempts st" server a count ?budget])
      case late
      then show ?thesis using False Suc.prems(1) retried [of ?budget "Some (RequestTimeout server a)"] by simp
    next
      case (answered t ans)
      have hit: "from_attempt net c deadline a count (?count t) (Inr rf)"
        if "ans = Inr resp" "RecoveryFrames.frames rf = RequestResponse.frames resp" for rf resp
      proof -
        have "\<exists>server \<in> set (GapRecoveryConfig.request_servers c). \<exists>t resp.
            net (attempts st) server a count = (t, Inr resp) \<and> t \<le> request_timeout c
            \<and> RecoveryFrames.frames rf = RequestResponse.frames resp"
          using that answered(2,3) assms by auto
        moreover have "clock st + t \<le> deadline" using answered(3) False by auto
        ultimately show ?thesis by (simp add: from_attempt_def) blast
      qed
      have late: "clock st + t \<le> deadline" using answered(3) False by auto
      show ?thesis
      proof (cases ans)
        case (Inl err)
        then show ?thesis using False Suc.prems(1) answered(1,3) retried [of t "Some err"] by simp
      next
        case (Inr resp)
        then show ?thesis
          using False Suc.prems(1) answered(1,3) late retried [of t "Some (RequestTimeout server a)"] hit [OF Inr]
          by (auto simp: Let_def split: if_splits)
      qed
    qed
  qed
qed simp

lemma try_servers_attempts:
  assumes "set servers \<subseteq> set (GapRecoveryConfig.request_servers c)"
  shows "try_servers net c deadline a count servers st = (r, st') \<Longrightarrow> clock st \<le> deadline + longest_sleep c
    \<Longrightarrow> attempts st' \<le> attempts st + length servers * max (max_retries_per_server c) 1
      \<and> clock st' \<le> deadline + longest_sleep c
      \<and> (\<forall>x. r = Some x \<longrightarrow> from_attempt net c deadline a count st' x)"
  using assms
proof (induction servers arbitrary: st)
  case (Cons server servers)
  obtain r1 st1 where first: "try_server net c deadline a count server (backoff_min c)
      (max (max_retries_per_server c) 1) st = (r1, st1)"
    by fastforce
  have st1: "attempts st1 \<le> attempts st + max (max_retries_per_server c) 1"
    "clock st1 \<le> deadline + longest_sleep c"
    "\<forall>x. r1 = Some x \<longrightarrow> from_attempt net c deadline a count st1 x"
    using try_server_attempts [OF _ first] Cons.prems by (simp_all add: longest_sleep_def)
  show ?case
  proof (cases r1)
    case None
    then have "try_servers net c deadline a count servers st1 = (r, st')" using Cons.prems(1) first by simp
    from Cons.IH [OF this st1(2)] st1(1) Cons.prems(3) show ?thesis by simp
  next
    case (Some x)
    then show ?thesis using Cons.prems(1) first st1 by auto
  qed
qed simp

lemma recover_gap_attempts:
  assumes "recover_gap net c now a b = (r, st)"
  shows "attempts st \<le> length (GapRecoveryConfig.request_servers c) * max (max_retries_per_server c) 1
    \<and> clock st \<le> now + gap_timeout c + longest_sleep c
    \<and> from_attempt net c (now + gap_timeout c) a (gap_count a b) st r"
proof (cases "GapRecoveryConfig.request_servers c")
  case Nil
  then show ?thesis using assms by (auto simp: recover_gap_def from_attempt_def)
next
  case (Cons server servers)
  obtain r1 st1 where run: "try_servers net c (now + gap_timeout c) a (gap_count a b)
      (server # servers) \<lparr>clock = now, attempts = 0, last_err = None\<rparr> = (r1, st1)" by fastforce
  have "set (server # servers) \<subseteq> set (GapRecoveryConfig.request_servers c)" using Cons by simp
  from try_servers_attempts [OF this run] run assms Cons show ?thesis
    by (auto simp: recover_gap_def Let_def from_attempt_def split: option.splits)
qed

section \<open>Retransmitted frames\<close>

definition blank_session :: bytes where
  "blank_session = copy_from_slice (replicate 10 space) 0 []"

text \<open>What reaches the receiver: a decoded datagram, or the frames of a finished recovery.\<close>

datatype MoldInput = Datagram MoldPacket | Retransmit "CachedFrame list"

definition locked_session :: "ReceiverState \<Rightarrow> bytes" where
  "locked_session self = (case ReceiverState.session self of Some s \<Rightarrow> s | None \<Rightarrow> blank_session)"

fun ingest_input :: "MoldInput \<Rightarrow> ReceiverState \<Rightarrow> ReceiverState" where
  "ingest_input (Datagram p) self = ReceiverState_ingest p self"
| "ingest_input (Retransmit fs) self = fold (retransmit_frame (locked_session self)) fs self"

lemma ingest_retransmit_state:
  "state (ingest_retransmit now fs self) = ingest_input (Retransmit fs) (state self)"
  by (cases "ReceiverState.session (state self)")
    (simp_all add: ingest_retransmit_def touch_packet_def locked_session_def blank_session_def Let_def)

definition frames_from :: "(nat \<Rightarrow> bytes) \<Rightarrow> CachedFrame list \<Rightarrow> bool" where
  "frames_from feed fs \<longleftrightarrow> (\<forall>f \<in> set fs. body f = feed (unat (CachedFrame.sequence f))
    \<and> unat (CachedFrame.sequence f) + 1 < 2 ^ 64)"

fun input_from :: "(bytes \<Rightarrow> nat \<Rightarrow> bytes) \<Rightarrow> MoldInput \<Rightarrow> ReceiverState \<Rightarrow> bool" where
  "input_from feeds (Datagram p) self = sent_by feeds p"
| "input_from feeds (Retransmit fs) self =
    (length (locked_session self) = 10 \<and> frames_from (feeds (locked_session self)) fs)"

fun inputs_from :: "(bytes \<Rightarrow> nat \<Rightarrow> bytes) \<Rightarrow> MoldInput list \<Rightarrow> ReceiverState \<Rightarrow> bool" where
  "inputs_from feeds [] self = True"
| "inputs_from feeds (x # xs) self = (input_from feeds x self \<and> inputs_from feeds xs (ingest_input x self))"

lemma receiver_inv_push_error:
  "receiver_inv feeds self \<Longrightarrow> \<not> is_slot r \<Longrightarrow> receiver_inv feeds (push_back r self)"
  by (auto simp: receiver_inv_def push_back_def hands_out_def split: if_splits)

lemma receiver_inv_retransmit:
  assumes "receiver_inv feeds self" "length sess = 10" "body f = feeds sess (unat (CachedFrame.sequence f))"
    "unat (CachedFrame.sequence f) + 1 < 2 ^ 64"
  shows "receiver_inv feeds (retransmit_frame sess f self)"
proof (cases "MessageBlock_new (body f)")
  case (Inl err)
  then have "\<not> is_slot (Inl err)" by (auto simp: MessageBlock_new_def split: if_splits)
  with Inl assms(1) show ?thesis by (simp add: retransmit_frame_def receiver_inv_push_error)
next
  case (Inr block)
  have block: "block_ok block" "data block = body f" using MessageBlock_new_ok [OF Inr] by simp_all
  define pkt where "pkt = \<lparr>MoldPacket.header = \<lparr>MoldPacketHeader.session = sess,
    MoldPacketHeader.sequence = CachedFrame.sequence f, message_count = 1\<rparr>, MoldPacket.blocks = [block]\<rparr>"
  have new: "MoldPacket_new_data sess (CachedFrame.sequence f) [block] = Inr pkt"
    by (simp add: MoldPacket_new_data_def Let_def pkt_def mold_consts)
  then have "MoldPacket_ok pkt"
    using MoldPacket_new_data_ok [OF assms(2) _ new] block(1) by simp
  moreover have "from_feed (feeds sess) pkt"
    using assms(3,4) block(2) by (simp add: from_feed_def pkt_def)
  ultimately have "receiver_inv feeds (ReceiverState_ingest pkt self)"
    using assms(1) by (intro receiver_inv_ingest) (simp_all add: pkt_def)
  then show ?thesis using Inr new by (simp add: retransmit_frame_def)
qed

lemma receiver_inv_input:
  assumes "receiver_inv feeds self" "input_from feeds x self"
  shows "receiver_inv feeds (ingest_input x self)"
proof (cases x)
  case (Datagram p)
  then show ?thesis using assms by (simp add: receiver_inv_ingest sent_by_def)
next
  case (Retransmit fs)
  have "receiver_inv feeds s \<Longrightarrow> \<forall>f \<in> set fs. body f = feeds sess (unat (CachedFrame.sequence f))
      \<and> unat (CachedFrame.sequence f) + 1 < 2 ^ 64 \<Longrightarrow> length sess = 10
      \<Longrightarrow> receiver_inv feeds (fold (retransmit_frame sess) fs s)" for s sess
    by (induction fs arbitrary: s) (simp_all add: receiver_inv_retransmit)
  then show ?thesis using Retransmit assms by (simp add: frames_from_def)
qed

lemma receiver_inv_inputs:
  "receiver_inv feeds self \<Longrightarrow> inputs_from feeds xs self \<Longrightarrow> receiver_inv feeds (fold ingest_input xs self)"
  by (induction xs arbitrary: self) (simp_all add: receiver_inv_input)

section \<open>The cursor at a gap\<close>

definition misses :: "nat \<Rightarrow> MoldPacket \<Rightarrow> bool" where
  "misses n p \<longleftrightarrow> (let first = unat (MoldPacketHeader.sequence (MoldPacket.header p)) in
    first + length (blocks p) < 2 ^ 64 \<and> (first + length (blocks p) \<le> n \<or> n < first))"

definition cursor_kept :: "ReceiverState \<Rightarrow> ReceiverState \<Rightarrow> bool" where
  "cursor_kept self self' \<longleftrightarrow> next_expected self' = next_expected self
    \<and> filter is_slot (outbox self') = filter is_slot (outbox self)"

lemma cursor_kept_trans: "cursor_kept a b \<Longrightarrow> cursor_kept b c \<Longrightarrow> cursor_kept a c"
  by (simp add: cursor_kept_def)

lemma cursor_kept_push: "\<not> is_slot r \<Longrightarrow> cursor_kept self (push_back r self)"
  by (simp add: cursor_kept_def push_back_def)

lemma cursor_kept_stash: "cursor_kept self (stash_blocks first i bs self)"
proof (induction bs arbitrary: i self)
  case (Cons b bs)
  have "cursor_kept self (stash_pending (first + of_nat i) (data b) self)"
    by (auto simp: cursor_kept_def stash_pending_def push_back_def Let_def
        split: PendingOverflowPolicy.split list.split)
  from cursor_kept_trans [OF this Cons] show ?case by simp
qed (simp add: cursor_kept_def)

lemma cursor_kept_ingest_data:
  assumes "misses (unat (next_expected self)) p"
  shows "cursor_kept self (ingest_data p self)"
proof -
  let ?first = "MoldPacketHeader.sequence (MoldPacket.header p)"
  have "unat (?first + of_nat (length (blocks p))) = unat ?first + length (blocks p)"
    using assms by (intro unat_add_of_nat) (simp add: misses_def Let_def)
  then have "?first + of_nat (length (blocks p)) \<le> next_expected self \<or> next_expected self < ?first"
    using assms by (auto simp: misses_def Let_def word_le_nat_alt word_less_nat_alt)
  moreover have "cursor_kept self (stash_blocks ?first 0 (blocks p) (push_back (Inr (Gap a b)) self))" for a b
    by (rule cursor_kept_trans [OF cursor_kept_push cursor_kept_stash]) simp
  ultimately show ?thesis
    by (auto simp: ingest_data_def Let_def cursor_kept_def)
qed

lemma cursor_kept_ingest:
  assumes "bootstrapped self" "misses (unat (next_expected self)) p"
  shows "cursor_kept self (ReceiverState_ingest p self) \<and> bootstrapped (ReceiverState_ingest p self)"
proof -
  have session: "cursor_kept s (ingest_session p s) \<and> bootstrapped (ingest_session p s)"
    if "bootstrapped s" "next_expected s = next_expected self" for s
    using that assms(2) cursor_kept_ingest_data [of s p] same_setup_ingest_data [of s p]
    by (auto simp: ingest_session_def bootstrap_def Let_def cursor_kept_def push_back_def same_setup_def)
  show ?thesis
  proof (cases "ReceiverState.session self")
    case None
    then show ?thesis
      using session [of "self\<lparr>ReceiverState.session := Some sess\<rparr>" for sess] assms(1)
      by (simp add: ReceiverState_ingest_def Let_def cursor_kept_def)
  next
    case (Some sess)
    then show ?thesis
      using session [of self] assms(1) by (simp add: ReceiverState_ingest_def Let_def cursor_kept_def push_back_def)
  qed
qed

lemma cursor_kept_ingests:
  "bootstrapped self \<Longrightarrow> \<forall>p \<in> set pkts. misses (unat (next_expected self)) p
    \<Longrightarrow> cursor_kept self (fold ReceiverState_ingest pkts self)"
proof (induction pkts arbitrary: self)
  case (Cons p pkts)
  have step: "cursor_kept self (ReceiverState_ingest p self)" "bootstrapped (ReceiverState_ingest p self)"
    using cursor_kept_ingest [of self p] Cons.prems by simp_all
  then have "cursor_kept (ReceiverState_ingest p self) (fold ReceiverState_ingest pkts (ReceiverState_ingest p self))"
    using Cons.prems(2) by (intro Cons.IH) (simp_all add: cursor_kept_def)
  with step(1) show ?case by (simp add: cursor_kept_def)
qed (simp add: cursor_kept_def)

section \<open>Properties\<close>


definition sample_stream :: MoldStream where
  "sample_stream = MoldStream_from_socket 0 (with_silence 1 15 MoldConfig_default)"

lemma sample_stream_fields:
  "finished sample_stream = False" "outbox (state sample_stream) = []" "dead_link_pending sample_stream = False"
  by (simp_all add: sample_stream_def MoldStream_from_socket_def ReceiverState_new_def)


text \<open>The state a poll does not return from is reached by silence alone: with a dead-link
  threshold of 15, the poll at time 15 reports the dead link and the poll at time 30 does not
  return.\<close>

lemma mold_poll_hangs:
  "case MoldStream_poll_next 15 [] sample_stream of
     Some (Ready (Some (Inl (PeerSilent t))), self) \<Rightarrow> t = 15 \<and> MoldStream_poll_next 30 [] self = None
   | _ \<Rightarrow> False"
proof -
  define later where "later = sample_stream\<lparr>soft_warned := True, dead_link_pending := True, silence_timer := 30\<rparr>"
  have "poll_loop 15 [] sample_stream = Some (Ready (Some (Inl (PeerSilent 15))), later)"
    by (simp add: poll_loop_due sample_stream_def MoldStream_from_socket_def with_silence_def
        check_silence_def later_def Let_def)
  then have "MoldStream_poll_next 15 [] sample_stream = Some (Ready (Some (Inl (PeerSilent 15))), later)"
    by (simp add: MoldStream_poll_next_def pop_event_def sample_stream_fields)
  moreover have "MoldStream_poll_next 30 [] later = None"
    using poll_loop_spins [of 30 later]
    by (simp add: MoldStream_poll_next_def pop_event_def later_def spinning_def sample_stream_def
        MoldStream_from_socket_def with_silence_def ReceiverState_new_def)
  ultimately show ?thesis by simp
qed

text \<open>C19: Datagrams and retransmitted frames may be interleaved in any way: the receiver still hands
  out a contiguous stretch of the stream of its session, in order and each block once.\<close>

theorem recovery_in_order:
  assumes "inputs_from feeds xs (ReceiverState_new c)"
  defines "self \<equiv> fold ingest_input xs (ReceiverState_new c)"
  shows "\<exists>sess start. (bootstrapped self \<longrightarrow> ReceiverState.session self = Some sess)
    \<and> start \<le> unat (next_expected self)
    \<and> filter is_slot (outbox self)
        = map (\<lambda>s. slot (of_nat s) (feeds sess s)) [start ..< unat (next_expected self)]"
proof -
  have "receiver_inv feeds self"
    unfolding self_def using receiver_inv_new assms(1) by (rule receiver_inv_inputs)
  then show ?thesis
    by (cases "bootstrapped self") (auto simp: receiver_inv_def hands_out_def)
qed

theorem recovery_in_order_witness:
  "\<exists>sess start. filter is_slot (outbox (fold ingest_input
        [Datagram (zeros 1 1), Datagram (zeros 3 1), Retransmit [\<lparr>CachedFrame.sequence = 2, body = [0]\<rparr>]]
        (ReceiverState_new MoldConfig_default)))
      = map (\<lambda>s. slot (of_nat s) [0]) [start ..< unat (next_expected (fold ingest_input
        [Datagram (zeros 1 1), Datagram (zeros 3 1), Retransmit [\<lparr>CachedFrame.sequence = 2, body = [0]\<rparr>]]
        (ReceiverState_new MoldConfig_default)))]"
proof -
  have "ReceiverState.session (receive MoldConfig_default [zeros 1 1, zeros 3 1]) = Some sample_session"
    by (simp add: receive_simps)
  then have "locked_session (ReceiverState_ingest (zeros 3 1) (ReceiverState_ingest (zeros 1 1)
      (ReceiverState_new MoldConfig_default))) = sample_session"
    by (simp add: locked_session_def receive_def)
  then have "inputs_from (\<lambda>_ _. [0])
      [Datagram (zeros 1 1), Datagram (zeros 3 1), Retransmit [\<lparr>CachedFrame.sequence = 2, body = [0]\<rparr>]]
      (ReceiverState_new MoldConfig_default)"
    by (simp add: zeros_sent_by frames_from_def) (simp add: sample_session_def)
  from recovery_in_order [OF this] show ?thesis by auto
qed

text \<open>C20: A recovery always ends: after at most the configured retries for each server, and no later
  than its time budget and one more backoff sleep.  The frames it returns are those of one answer a
  configured server gave, within the request timeout and the budget, to the request for exactly the gap.\<close>

theorem recovery_attempts:
  assumes "recover_gap net c now a b = (r, st)"
  shows "attempts st \<le> length (GapRecoveryConfig.request_servers c) * max (max_retries_per_server c) 1
    \<and> clock st \<le> now + gap_timeout c + max (backoff_min c) (backoff_max c)
    \<and> (\<forall>rf. r = Inr rf \<longrightarrow> clock st \<le> now + gap_timeout c
        \<and> (\<exists>k < attempts st. \<exists>server \<in> set (GapRecoveryConfig.request_servers c). \<exists>t resp.
             net k server a (gap_count a b) = (t, Inr resp) \<and> t \<le> request_timeout c
             \<and> RecoveryFrames.frames rf = RequestResponse.frames resp))"
  using recover_gap_attempts [OF assms] by (auto simp: from_attempt_def longest_sleep_def)

theorem recovery_attempts_witness:
  "let c = GapRecoveryConfig_new [''a'', ''b''];
       net = (\<lambda>k s a n. (if k < 2 then 6 * 10 ^ 9 else 1,
         Inr \<lparr>status = STATUS_HOLE, frames = [\<lparr>CachedFrame.sequence = a, body = [0]\<rparr>]\<rparr>)) in
   \<exists>rf st. recover_gap net c 0 7 8 = (Inr rf, st) \<and> attempts st \<le> 6 \<and> clock st \<le> 60 * 10 ^ 9"
proof -
  let ?c = "GapRecoveryConfig_new [''a'', ''b'']"
  let ?net = "\<lambda>k s a n. (if k < 2 then 6 * 10 ^ 9 else 1,
         Inr \<lparr>status = STATUS_HOLE, frames = [\<lparr>CachedFrame.sequence = a, body = [0]\<rparr>]\<rparr>) :: nat \<times> (MoldError + RequestResponse)"
  obtain rf st where run: "recover_gap ?net ?c 0 7 8 = (Inr rf, st)"
    by (simp add: recover_gap_def GapRecoveryConfig_new_def
        numeral_3_eq_3 try_one_server_def)
  from recovery_attempts [OF run] run show ?thesis
    by (simp add: GapRecoveryConfig_new_def)
qed

text \<open>C21: When a recovery gives up, its error is reported but the receiver does not move past the
  gap: whatever further datagrams arrive, as long as none of them carries the missing number the
  cursor stays at it, and nothing behind the gap is handed out.\<close>

theorem recovery_give_up_stalls:
  assumes "active self \<noteq> None" "bootstrapped (state (stream self))"
    and "\<forall>p \<in> set pkts. MoldPacket_ok p \<and> misses (unat (next_expected (state (stream self)))) p"
  shows "\<exists>self'. GapRecoveryClient_poll_next now arrivals (TaskDone (Inl err)) self
      = Some (Ready (Some (Inl err)), self')
    \<and> next_expected (fold ReceiverState_ingest pkts (state (stream self')))
        = next_expected (state (stream self))
    \<and> filter is_slot (outbox (fold ReceiverState_ingest pkts (state (stream self'))))
        = filter is_slot (outbox (state (stream self)))"
proof -
  have "GapRecoveryClient_poll_next now arrivals (TaskDone (Inl err)) self
      = Some (Ready (Some (Inl err)), self\<lparr>active := None\<rparr>)"
    using assms(1) by (auto simp: GapRecoveryClient_poll_next_def)
  moreover have "cursor_kept (state (stream self)) (fold ReceiverState_ingest pkts (state (stream self)))"
    by (rule cursor_kept_ingests) (use assms(2,3) in auto)
  ultimately show ?thesis by (simp add: cursor_kept_def)
qed

theorem recovery_give_up_stalls_witness:
  "\<exists>self'. GapRecoveryClient_poll_next 0 [] (TaskDone (Inl SourceExhausted))
      \<lparr>stream = sample_stream\<lparr>state := receive MoldConfig_default [zeros 1 1, zeros 4 1]\<rparr>,
       config = GapRecoveryConfig_new [''a''], active = Some (2, 3)\<rparr> = Some (Ready (Some (Inl SourceExhausted)), self')
    \<and> next_expected (fold ReceiverState_ingest [zeros 5 1, zeros 3 1] (state (stream self'))) = 2"
proof -
  have before: "next_expected (receive MoldConfig_default [zeros 1 1, zeros 4 1]) = 2"
    "bootstrapped (receive MoldConfig_default [zeros 1 1, zeros 4 1])"
    by (simp_all add: receive_simps)
  have "sent_by (\<lambda>_ _. [0]) (zeros 5 1)" "sent_by (\<lambda>_ _. [0]) (zeros 3 1)"
    by (simp_all add: zeros_sent_by)
  then have "\<forall>p \<in> set [zeros 5 1, zeros 3 1]. MoldPacket_ok p \<and> misses 2 p"
    by (simp add: sent_by_def misses_def) (simp add: zeros_def)
  with recovery_give_up_stalls
    [of "\<lparr>stream = sample_stream\<lparr>state := receive MoldConfig_default [zeros 1 1, zeros 4 1]\<rparr>,
       config = GapRecoveryConfig_new [''a''], active = Some (2, 3)\<rparr>" "[zeros 5 1, zeros 3 1]" 0 "[]" SourceExhausted]
  show ?thesis using before by auto
qed

end
