(* ===== verification/Itch_Mold_System.thy ===== *)
theory Itch_Mold_System
  imports Itch_Mold_Publisher Itch_Mold_Stream
begin

text \<open>
  Publisher, network and receiver of MoldUDP64 together: whatever the network loses, repeats or
  reorders, the receiver hands out a run of the published messages.
\<close>

section \<open>From the publisher to the receiver\<close>

text \<open>The messages a receiver has handed out, with their sequence numbers.\<close>

fun as_delivery :: "MoldError + MoldEvent \<Rightarrow> (u64 \<times> Message) option" where
  "as_delivery (Inr (MoldEvent.Message s m)) = Some (s, m)"
| "as_delivery _ = None"

definition delivered :: "ReceiverState \<Rightarrow> (u64 \<times> Message) list" where
  "delivered self = List.map_filter as_delivery (outbox self)"

lemma not_slot_not_delivery: "\<not> is_slot r \<Longrightarrow> as_delivery r = None"
  by (cases r rule: is_slot.cases) simp_all

lemma delivered_slots: "delivered self = List.map_filter as_delivery (filter is_slot (outbox self))"
proof -
  have "List.map_filter as_delivery rs = List.map_filter as_delivery (filter is_slot rs)" for rs
    by (induction rs) (auto simp: List.map_filter_simps not_slot_not_delivery split: option.split)
  then show ?thesis by (simp add: delivered_def)
qed

text \<open>Two streams that explain the same packets agree on everything the receiver hands out.\<close>

lemma handed_out_agree:
  assumes "\<forall>p \<in> set pkts. sent_by (\<lambda>_. feed) p" "\<forall>p \<in> set pkts. sent_by (\<lambda>_. feed') p"
  obtains start where "start \<le> unat (next_expected (receive rc pkts))"
    "filter is_slot (outbox (receive rc pkts))
      = map (\<lambda>s. slot (of_nat s) (feed s)) [start ..< unat (next_expected (receive rc pkts))]"
    "\<forall>s \<in> {start ..< unat (next_expected (receive rc pkts))}. slot (of_nat s) (feed s) = slot (of_nat s) (feed' s)"
proof -
  define self where "self = receive rc pkts"
  let ?nx = "unat (next_expected self)"
  have "\<exists>start \<le> ?nx. filter is_slot (outbox self) = map (\<lambda>s. slot (of_nat s) (f s)) [start ..< ?nx]"
    if "\<forall>p \<in> set pkts. sent_by (\<lambda>_. f) p" for f
    using receiver_inv_receive [OF that, of rc]
    by (cases "bootstrapped self") (auto simp: receiver_inv_def hands_out_def self_def)
  from this [OF assms(1)] this [OF assms(2)] obtain a b
    where a: "a \<le> ?nx" "filter is_slot (outbox self) = map (\<lambda>s. slot (of_nat s) (feed s)) [a ..< ?nx]"
      and b: "b \<le> ?nx" "filter is_slot (outbox self) = map (\<lambda>s. slot (of_nat s) (feed' s)) [b ..< ?nx]"
    by blast
  note eq = trans [OF a(2) [symmetric] b(2)]
  from arg_cong [OF eq, of length] have "a = b" using a(1) b(1) by simp
  with eq have "\<forall>s \<in> {a ..< ?nx}. slot (of_nat s) (feed s) = slot (of_nat s) (feed' s)" by simp
  with a that show thesis by (simp add: self_def)
qed

lemma Message_wire_not_zero: "Message_ok m \<Longrightarrow> Message_wire m \<noteq> [0]"
  using Message_decode_wire [of m "[]"] decode_zero by force

lemma decode_one: "Message_decode [1] = Inl (UnknownMessageType 1)"
  by code_simp

lemma slot_message: "Message_ok m \<Longrightarrow> slot s (Message_wire m) = Inr (MoldEvent.Message s m)"
  using Message_decode_wire [of m "[]"] by (simp add: slot_def)

text \<open>Every block of a publisher's packet is one of the published messages at its own number.\<close>

lemma published_blocks:
  assumes ok: "\<forall>m \<in> set msgs. Message_ok m" and dg: "datagrams (feed_of start msgs) sess start k pkts"
    and k: "k \<le> start + length msgs" and p: "p \<in> set pkts" and i: "i < length (blocks p)"
  defines "s \<equiv> unat (MoldPacketHeader.sequence (MoldPacket.header p)) + i"
  shows "start \<le> s \<and> s < start + length msgs"
proof (rule ccontr)
  assume out: "\<not> (start \<le> s \<and> s < start + length msgs)"
  have "blocks p ! i \<in> set (concat (map blocks pkts))" using p nth_mem [OF i] by auto
  then have "blocks p ! i \<in> set (blocks_at (feed_of start msgs) start k)"
    using dg by (simp only: datagrams_def)
  then obtain t where t: "start \<le> t" "t < k" "data (blocks p ! i) = feed_of start msgs t"
    by (auto simp: blocks_at_def)
  then have "data (blocks p ! i) = Message_wire (msgs ! (t - start))" "msgs ! (t - start) \<in> set msgs"
    using k by (simp_all add: feed_of_def)
  then have "data (blocks p ! i) \<noteq> [0]" using ok Message_wire_not_zero by metis
  moreover have "data (blocks p ! i) = feed_of start msgs s"
    using dg p i by (simp add: datagrams_def from_feed_def Let_def s_def)
  ultimately show False using out by (simp add: feed_of_def)
qed

lemma published_sent_by:
  assumes "\<forall>m \<in> set msgs. Message_ok m" "datagrams (feed_of start msgs) sess start k pkts"
    "k \<le> start + length msgs" "p \<in> set pkts"
    and feed: "\<And>s. start \<le> s \<Longrightarrow> s < start + length msgs \<Longrightarrow> feed s = feed_of start msgs s"
  shows "sent_by (\<lambda>_. feed) p"
  using published_blocks [OF assms(1-4)] assms(2,4)
  by (simp add: sent_by_def datagrams_def from_feed_def Let_def feed)

text \<open>C12: Publisher, network and receiver together: whatever the publisher's source delivers, however
  the network loses, repeats and reorders its datagrams, the receiver hands out a contiguous run
  of the published messages, in order, each once and under its own sequence number, and reports
  no undecodable block.\<close>

theorem mold_end_to_end:
  assumes session: "length (PublisherConfig.session c) = 10"
    and ok: "\<forall>m \<in> set (published evs). Message_ok m"
    and room: "unat (PublisherConfig.start_sequence c) + length (published evs) < 2 ^ 64"
    and run: "serve net evs (Serve_start now (publisher c c0)) = (r, st)"
    and network: "set ds \<subseteq> set (sent (pub st))" "map MoldPacket_decode ds = map Inr pkts"
  defines "start \<equiv> unat (PublisherConfig.start_sequence c)"
  shows "\<exists>a b. delivered (receive rc pkts) = map (\<lambda>s. (of_nat s, published evs ! (s - start))) [a ..< b]
    \<and> (a < b \<longrightarrow> start \<le> a \<and> b \<le> start + length (published evs))
    \<and> (\<forall>e. Inl (MoldError.Protocol e) \<notin> set (outbox (receive rc pkts)))"
proof -
  let ?msgs = "published evs"
  define other where "other s = (if start \<le> s \<and> s < start + length ?msgs then feed_of start ?msgs s else [1])" for s
  obtain ps k where ps: "sent (pub st) = map MoldPacket_wire ps"
    "datagrams (feed_of start ?msgs) (PublisherConfig.session c) start k ps" "k \<le> start + length ?msgs"
    using publisher_sends [OF session ok room run] by (auto simp: start_def)
  have "p \<in> set ps" if "p \<in> set pkts" for p
  proof -
    have "Inr p \<in> set (map MoldPacket_decode ds)" unfolding network(2) using that by simp
    then obtain d where "d \<in> set ds" "MoldPacket_decode d = Inr p" by auto
    moreover obtain q where "q \<in> set ps" "d = MoldPacket_wire q"
      using network(1) ps(1) \<open>d \<in> set ds\<close> by auto
    moreover have "MoldPacket_ok q" using ps(2) \<open>q \<in> set ps\<close> by (simp add: datagrams_def)
    ultimately show ?thesis using MoldPacket_decode_wire [of q "[]"] by simp
  qed
  then have "\<forall>p \<in> set pkts. sent_by (\<lambda>_. feed_of start ?msgs) p" "\<forall>p \<in> set pkts. sent_by (\<lambda>_. other) p"
    using published_sent_by [OF ok ps(2,3)] by (auto simp: other_def)
  then obtain a where a: "a \<le> unat (next_expected (receive rc pkts))"
    "filter is_slot (outbox (receive rc pkts))
      = map (\<lambda>s. slot (of_nat s) (feed_of start ?msgs s)) [a ..< unat (next_expected (receive rc pkts))]"
    "\<forall>s \<in> {a ..< unat (next_expected (receive rc pkts))}.
      slot (of_nat s) (feed_of start ?msgs s) = slot (of_nat s) (other s)"
    by (rule handed_out_agree [of pkts _ other rc])
  define b where "b = unat (next_expected (receive rc pkts))"
  have range: "start \<le> s \<and> s < start + length ?msgs" if "s \<in> {a ..< b}" for s
    using a(3) [rule_format, of s] that decode_one
    by (auto simp: other_def feed_of_def slot_def decode_zero b_def split: if_splits)
  have slot: "slot (of_nat s) (feed_of start ?msgs s) = Inr (MoldEvent.Message (of_nat s) (?msgs ! (s - start)))"
    if "s \<in> {a ..< b}" for s
    using range [OF that] ok by (auto simp: feed_of_def intro!: slot_message)
  then have slots: "filter is_slot (outbox (receive rc pkts))
      = map (\<lambda>s. Inr (MoldEvent.Message (of_nat s) (?msgs ! (s - start)))) [a ..< b]"
    unfolding a(2) b_def by simp
  have "delivered (receive rc pkts) = map (\<lambda>s. (of_nat s, ?msgs ! (s - start))) [a ..< b]"
    by (simp add: delivered_slots slots List.map_filter_def)
  moreover have "a < b \<longrightarrow> start \<le> a \<and> b \<le> start + length ?msgs"
    using range [of a] range [of "b - 1"] by (cases b) auto
  moreover have "Inl (MoldError.Protocol e) \<notin> set (outbox (receive rc pkts))" for e
  proof
    assume "Inl (MoldError.Protocol e) \<in> set (outbox (receive rc pkts))"
    then have "Inl (MoldError.Protocol e) \<in> set (filter is_slot (outbox (receive rc pkts)))" by simp
    then show False unfolding slots by auto
  qed
  ultimately show ?thesis by blast
qed

theorem mold_end_to_end_witness:
  "\<exists>pkts a b. map MoldPacket_decode (rev (sent (pub (snd
        (serve (\<lambda>_. None) sample_events (Serve_start 0 (publisher sample_config None))))))) = map Inr pkts
    \<and> delivered (receive MoldConfig_default pkts)
        = map (\<lambda>s. (of_nat s, [sample_add, sample_add] ! (s - 1))) [a ..< b]"
proof -
  obtain r st where run: "serve (\<lambda>_. None) sample_events (Serve_start 0 (publisher sample_config None)) = (r, st)"
    by fastforce
  have ok: "\<forall>m \<in> set (published sample_events). Message_ok m"
    by (simp add: sample_publisher sample_add_ok(1))
  have room: "unat (PublisherConfig.start_sequence sample_config) + length (published sample_events) < 2 ^ 64"
    by (simp add: sample_publisher)
  obtain ps k where ps: "sent (pub st) = map MoldPacket_wire ps"
    "datagrams (feed_of (unat (PublisherConfig.start_sequence sample_config)) (published sample_events))
      (PublisherConfig.session sample_config) (unat (PublisherConfig.start_sequence sample_config)) k ps"
    using publisher_sends [OF sample_publisher(2) ok room run] by blast
  have "MoldPacket_decode (MoldPacket_wire p) = Inr p" if "p \<in> set ps" for p
    using MoldPacket_decode_wire [of p "[]"] ps(2) that by (simp add: datagrams_def)
  then have decoded: "map MoldPacket_decode (rev (sent (pub st))) = map Inr (rev ps)"
    by (simp add: ps(1) rev_map)
  from mold_end_to_end [OF sample_publisher(2) ok room run _ decoded, of MoldConfig_default] decoded
  show ?thesis by (auto simp: run sample_publisher)
qed

end
