(* ===== verification/Itch_Framing.thy ===== *)
theory Itch_Framing
  imports Itch_Prelude
begin

text \<open>
  Stream decoders driven the way a framed connection drives them: every chunk the socket gives is
  appended to the buffer, and the decoder is called until it asks for more bytes.  The locale
  states what such a driver relies on; its lemmas show that then the results do not depend on how
  the stream was cut into chunks, and that a stream of delimited frames gives one result per frame.
  The length-prefix codec of \<open>itch-tcp\<close> and the SoupBinTCP codec of \<open>itch-soup\<close> are its instances.
\<close>

section \<open>Driving a decoder\<close>

text \<open>\<open>decode(&mut self, src: &mut BytesMut) -> Result<Option<Item>, Error>\<close>: the result, the codec and
  the buffer left.\<close>

type_synonym ('s, 'e, 'a) decoder = "'s \<Rightarrow> bytes \<Rightarrow> ('e + 'a option) \<times> 's \<times> bytes"

fun yielded :: "'e + 'a option \<Rightarrow> ('e + 'a) option" where
  "yielded (Inr None) = None"
| "yielded (Inr (Some x)) = Some (Inr x)"
| "yielded (Inl e) = Some (Inl e)"

text \<open>\<open>n\<close> bounds the number of calls; a decoder that consumes bytes whenever it yields needs at most
  one call per byte and one more.\<close>

fun drain :: "('s, 'e, 'a) decoder \<Rightarrow> nat \<Rightarrow> 's \<Rightarrow> bytes \<Rightarrow> ('e + 'a) list \<times> 's \<times> bytes" where
  "drain decode 0 s b = ([], s, b)"
| "drain decode (Suc n) s b =
    (case decode s b of (r, s', b') \<Rightarrow>
      (case yielded r of
         None \<Rightarrow> ([], s', b')
       | Some y \<Rightarrow> (case drain decode n s' b' of (ys, st) \<Rightarrow> (y # ys, st))))"

definition drain_all :: "('s, 'e, 'a) decoder \<Rightarrow> 's \<Rightarrow> bytes \<Rightarrow> ('e + 'a) list \<times> 's \<times> bytes" where
  "drain_all decode s b = drain decode (Suc (length b)) s b"

definition feed :: "('s, 'e, 'a) decoder \<Rightarrow> 's \<times> bytes \<Rightarrow> bytes \<Rightarrow> ('e + 'a) list \<times> 's \<times> bytes" where
  "feed decode st chunk = drain_all decode (fst st) (snd st @ chunk)"

fun feeds :: "('s, 'e, 'a) decoder \<Rightarrow> 's \<times> bytes \<Rightarrow> bytes list \<Rightarrow> ('e + 'a) list \<times> 's \<times> bytes" where
  "feeds decode st [] = ([], st)"
| "feeds decode st (c # cs) =
    (case feed decode st c of (ys, st') \<Rightarrow>
      (case feeds decode st' cs of (zs, st'') \<Rightarrow> (ys @ zs, st'')))"

text \<open>A span of bytes a decoder in state \<open>s\<close> takes off any buffer as one result.\<close>

definition delimited :: "('s, 'e, 'a) decoder \<Rightarrow> 's \<Rightarrow> bytes \<Rightarrow> 'e + 'a \<Rightarrow> bool" where
  "delimited decode s w y \<longleftrightarrow>
    (\<forall>rest. \<exists>r. decode s (w @ rest) = (r, s, rest) \<and> yielded r = Some y)"

section \<open>The contract\<close>

text \<open>A decoder consumes bytes when it yields; when it asks for more, or yields, it may keep what it
  knows in its state or in the buffer, but later bytes are decoded as if they had been there.\<close>

locale frame_codec =
  fixes decode :: "('s, 'e, 'a) decoder"
  assumes consumes: "decode s b = (r, s', b') \<Longrightarrow> yielded r \<noteq> None \<Longrightarrow> length b' < length b"
    and waits: "decode s b = (r, s', b') \<Longrightarrow> yielded r = None \<Longrightarrow> decode s (b @ c) = decode s' (b' @ c)"
    and yields: "decode s b = (r, s', b') \<Longrightarrow> yielded r \<noteq> None
      \<Longrightarrow> \<exists>s'' b''. decode s (b @ c) = (r, s'', b'') \<and> decode s'' b'' = decode s' (b' @ c)"
begin

lemma drain_enough: "length b < n \<Longrightarrow> drain decode n s b = drain_all decode s b"
proof (induction n arbitrary: s b rule: less_induct)
  case (less n)
  then obtain k where n: "n = Suc k" by (cases n) simp_all
  obtain r s' b' where d: "decode s b = (r, s', b')" by (metis prod_cases3)
  show ?case
  proof (cases "yielded r")
    case None
    then show ?thesis by (simp add: n d drain_all_def)
  next
    case (Some y)
    then have short: "length b' < length b" using consumes [OF d] by simp
    then have "drain decode k s' b' = drain_all decode s' b'"
      "drain decode (length b) s' b' = drain_all decode s' b'"
      using less.IH [of k b' s'] less.IH [of "length b" b' s'] less.prems n
      by (cases "length b < n"; simp)+
    then show ?thesis using Some by (simp add: n d drain_all_def)
  qed
qed

lemma drain_all_simp:
  "drain_all decode s b = (case decode s b of (r, s', b') \<Rightarrow>
      (case yielded r of
         None \<Rightarrow> ([], s', b')
       | Some y \<Rightarrow> (case drain_all decode s' b' of (ys, st) \<Rightarrow> (y # ys, st))))"
proof -
  obtain r s' b' where d: "decode s b = (r, s', b')" by (metis prod_cases3)
  have "drain decode (length b) s' b' = drain_all decode s' b'" if "yielded r \<noteq> None"
    using consumes [OF d that] by (rule drain_enough)
  then show ?thesis by (cases "yielded r") (simp_all add: drain_all_def [of decode s b] d)
qed

lemma drain_all_cong: "decode s b = decode s' b' \<Longrightarrow> drain_all decode s b = drain_all decode s' b'"
  by (subst (1 2) drain_all_simp) simp

lemma drain_all_append:
  "drain_all decode s (b @ c) = (case drain_all decode s b of (ys, s', b') \<Rightarrow>
     (case drain_all decode s' (b' @ c) of (zs, st) \<Rightarrow> (ys @ zs, st)))"
proof (induction "length b" arbitrary: s b rule: less_induct)
  case less
  obtain r s1 b1 where d: "decode s b = (r, s1, b1)" by (metis prod_cases3)
  show ?case
  proof (cases "yielded r")
    case None
    have "drain_all decode s (b @ c) = drain_all decode s1 (b1 @ c)"
      by (rule drain_all_cong) (rule waits [OF d None])
    then show ?thesis using None by (simp add: drain_all_simp [of s b] d split: prod.split)
  next
    case (Some y)
    then obtain s2 b2 where d2: "decode s (b @ c) = (r, s2, b2)" "decode s2 b2 = decode s1 (b1 @ c)"
      using yields [OF d, of c] by auto
    have "length b1 < length b" using consumes [OF d] Some by simp
    note IH = less [OF this, of s1]
    have "drain_all decode s2 b2 = drain_all decode s1 (b1 @ c)" by (rule drain_all_cong) (rule d2(2))
    then show ?thesis using Some
      by (simp add: drain_all_simp [of s b] drain_all_simp [of s "b @ c"] d d2(1) IH split: prod.split)
  qed
qed

text \<open>How the stream is cut into chunks does not matter.\<close>

lemma feeds_chunks: "cs \<noteq> [] \<Longrightarrow> feeds decode st cs = feed decode st (concat cs)"
proof (induction cs arbitrary: st)
  case (Cons c cs)
  obtain ys s1 b1 where first: "feed decode st c = (ys, s1, b1)" by (metis prod_cases3)
  show ?case
  proof (cases "cs = []")
    case True
    then show ?thesis using first by simp
  next
    case False
    then show ?thesis
      using Cons.IH [OF False, of "(s1, b1)"] first drain_all_append [of "fst st" "snd st @ c" "concat cs"]
      by (simp add: feed_def)
  qed
qed simp

lemma drain_frames:
  assumes "list_all2 (delimited decode s) ws ys" "yielded (fst (decode s [])) = None"
  shows "fst (drain_all decode s (concat ws)) = ys"
  using assms(1)
proof (induction ws ys rule: list_all2_induct)
  case Nil
  obtain r s' b' where "decode s [] = (r, s', b')" by (metis prod_cases3)
  then show ?case using assms(2) by (simp add: drain_all_simp [of s "[]"])
next
  case (Cons w ws y ys)
  then obtain r where "decode s (w @ concat ws) = (r, s, concat ws)" "yielded r = Some y"
    by (auto simp: delimited_def)
  then show ?case using Cons by (auto simp: drain_all_simp [of s "w @ concat ws"] split: prod.split)
qed

text \<open>A stream of delimited frames, cut in whatever way, gives one result per frame.\<close>

lemma feeds_frames:
  assumes "list_all2 (delimited decode s) ws ys" "yielded (fst (decode s [])) = None"
    and "concat cs = concat ws"
  shows "fst (feeds decode (s, []) cs) = ys"
proof (cases "cs = []")
  case True
  have "length w > 0" if "delimited decode s w y" for w y
  proof -
    from that obtain r where r: "decode s w = (r, s, [])" "yielded r = Some y"
      unfolding delimited_def by (metis append_Nil2)
    then show ?thesis using consumes [OF r(1)] by simp
  qed
  then have "ws = []" using assms(1,3) True by (cases ws; cases ys) auto
  then show ?thesis using assms(1) True by simp
next
  case False
  then show ?thesis using drain_frames [OF assms(1,2)] feeds_chunks [OF False, of "(s, [])"] assms(3)
    by (simp add: feed_def)
qed

end

section \<open>Length-prefixed frames\<close>

text \<open>The decoder that both codecs implement: a counter of bytes still to be skipped, then a
  two-byte length prefix.  \<open>reject len\<close> is the error for a length that is refused before its bytes
  have arrived, \<open>parse\<close> is the result for the bytes of an accepted frame.\<close>

definition prefix_decode :: "(nat \<Rightarrow> 'e option) \<Rightarrow> (bytes \<Rightarrow> 'e + 'a) \<Rightarrow> (nat, 'e, 'a) decoder" where
  "prefix_decode reject parse k src =
    (if length src < k then (Inr None, k - length src, [])
     else if length src < k + 2 then (Inr None, 0, drop k src)
     else
       let len = be_val [src ! k, src ! (k + 1)]; total = k + 2 + len in
       case reject len of
         Some e \<Rightarrow> (Inl e, total - length src, drop total src)
       | None \<Rightarrow>
           if length src < total then (Inr None, 0, drop k src)
           else (map_sum id Some (parse (take len (drop (k + 2) src))), 0, drop total src))"

lemma yielded_map_sum [simp]: "yielded (map_sum id Some r) = Some r"
  by (cases r) simp_all

lemma prefix_decode_drop:
  "k \<le> length src \<Longrightarrow> prefix_decode reject parse k src = prefix_decode reject parse 0 (drop k src)"
  by (auto simp: prefix_decode_def Let_def add.commute add.left_commute less_diff_conv split: option.split)

lemma prefix_decode_settle:
  "prefix_decode reject parse (k - length src) (drop k src) = prefix_decode reject parse k src"
proof (cases "k \<le> length src")
  case True
  then show ?thesis using prefix_decode_drop [OF True, of reject parse] by simp
next
  case False
  then show ?thesis by (simp add: prefix_decode_def)
qed

lemma prefix_decode_append:
  "prefix_decode reject parse (k - length b) (drop k b @ c) = prefix_decode reject parse k (b @ c)"
proof (cases "k \<le> length b + length c")
  case True
  then show ?thesis
    using prefix_decode_drop [of k "b @ c" reject parse]
      prefix_decode_drop [of "k - length b" "drop k b @ c" reject parse]
    by (cases "k \<le> length b") simp_all
next
  case False
  then have "drop k b = []" "length c < k - length b" "length b + length c < k" by simp_all
  then show ?thesis by (simp add: prefix_decode_def)
qed

lemma frame_codec_prefix: "frame_codec (prefix_decode reject parse)"
proof (unfold_locales, goal_cases)
  case (1 s b r s' b')
  then show ?case by (auto simp: prefix_decode_def Let_def split: if_splits option.splits)
next
  case (2 s b r s' b' c)
  then have "s' = s - length b" "b' = drop s b"
    by (auto simp: prefix_decode_def Let_def split: if_splits option.splits)
  then show ?case by (simp add: prefix_decode_append)
next
  case (3 s b r s' b' c)
  define t where "t = s + 2 + be_val [b ! s, b ! (s + 1)]"
  have long: "s + 2 \<le> length b" and left: "s' = t - length b" "b' = drop t b"
    using 3 by (auto simp: prefix_decode_def Let_def t_def split: if_splits option.splits)
  have "prefix_decode reject parse s (b @ c) = (r, t - length (b @ c), drop t (b @ c))"
    using 3 long
    by (auto simp: prefix_decode_def Let_def t_def nth_append split: if_splits option.splits)
  then show ?case
    using prefix_decode_settle [of reject parse t "b @ c"] by (simp add: left prefix_decode_append)
qed

text \<open>A codec that keeps the counter in its own state.\<close>

lemma frame_codec_via:
  assumes "frame_codec g" and d: "\<And>s b. decode s b = (case g (get s) b of (r, k, b') \<Rightarrow> (r, put k s, b'))"
    and put: "\<And>k s. get (put k s) = k" "\<And>k l s. put k (put l s) = put k s"
  shows "frame_codec decode"
proof (unfold_locales, goal_cases)
  case (1 s b r s' b')
  then show ?case using frame_codec.consumes [OF assms(1), of "get s" b r]
    by (auto simp: d split: prod.splits)
next
  case (2 s b r s' b' c)
  then obtain k where k: "g (get s) b = (r, k, b')" "s' = put k s" by (auto simp: d split: prod.splits)
  from frame_codec.waits [OF assms(1) k(1) 2(2), of c] show ?case by (simp add: d k(2) put)
next
  case (3 s b r s' b' c)
  then obtain k where k: "g (get s) b = (r, k, b')" "s' = put k s" by (auto simp: d split: prod.splits)
  from frame_codec.yields [OF assms(1) k(1) 3(2), of c] show ?case by (auto simp: d k(2) put)
qed

text \<open>Every frame of such a stream is delimited: its result is the rejection of its length or that of
  its bytes.\<close>

definition prefix_frame :: "bytes \<Rightarrow> bytes" where
  "prefix_frame w = to_be 2 (length w) @ w"

definition frame_result :: "(nat \<Rightarrow> 'e option) \<Rightarrow> (bytes \<Rightarrow> 'e + 'a) \<Rightarrow> bytes \<Rightarrow> 'e + 'a" where
  "frame_result reject parse w = (case reject (length w) of Some e \<Rightarrow> Inl e | None \<Rightarrow> parse w)"

lemma delimited_prefix:
  assumes "length w < 65536" and d: "\<And>b. decode s b = (case prefix_decode reject parse 0 b of
      (r, k, b') \<Rightarrow> (r, put k s, b'))" and "put 0 s = s"
  shows "delimited decode s (prefix_frame w) (frame_result reject parse w)"
  unfolding delimited_def
proof
  fix rest
  obtain x y where xy: "to_be 2 (length w) = [x, y]"
    using length_to_be [of 2 "length w"] by (auto simp: numeral_2_eq_2 length_Suc_conv)
  have "be_val [x, y] = length w" using assms(1) be_val_to_be [of 2 "length w"] xy by simp
  then show "\<exists>r. decode s (prefix_frame w @ rest) = (r, s, rest) \<and> yielded r = Some (frame_result reject parse w)"
    using assms(3)
    by (auto simp: d prefix_decode_def prefix_frame_def frame_result_def xy Let_def split: option.split)
qed

end
