(* ===== verification/Itch_Soup_Codec.thy ===== *)
theory Itch_Soup_Codec
  imports Itch_Framing Itch_Message_Codec
begin

text \<open>
  The SoupBinTCP 3.00 packet codec of \<open>itch-soup/src/lib.rs\<close>: the packets, the padded text and decimal
  fields of the login packets, and \<open>SoupCodec\<close> with its recovery counter.  Rust strings are their
  UTF-8 bytes.  The lemmas show that the decimal field is exact on every \<open>u64\<close> and refuses what does
  not fit, that packets come back from the stream however it is cut, and that a bad packet
  costs exactly one error.
\<close>

section \<open>Definitions\<close>

definition SOUP_MAX_MESSAGE_LEN :: nat where "SOUP_MAX_MESSAGE_LEN = 1024"
abbreviation LOGIN_REQUEST_PAYLOAD_LEN :: nat where "LOGIN_REQUEST_PAYLOAD_LEN \<equiv> 6 + 10 + 10 + 20"
abbreviation LOGIN_ACCEPTED_PAYLOAD_LEN :: nat where "LOGIN_ACCEPTED_PAYLOAD_LEN \<equiv> 10 + 20"
abbreviation LOGIN_REJECTED_PAYLOAD_LEN :: nat where "LOGIN_REJECTED_PAYLOAD_LEN \<equiv> 1"

abbreviation DEBUG :: u8 where "DEBUG \<equiv> byte CHR ''+''"
abbreviation LOGIN_ACCEPTED :: u8 where "LOGIN_ACCEPTED \<equiv> byte CHR ''A''"
abbreviation LOGIN_REJECTED :: u8 where "LOGIN_REJECTED \<equiv> byte CHR ''J''"
abbreviation SEQUENCED_DATA :: u8 where "SEQUENCED_DATA \<equiv> byte CHR ''S''"
abbreviation SERVER_HEARTBEAT :: u8 where "SERVER_HEARTBEAT \<equiv> byte CHR ''H''"
abbreviation END_OF_SESSION :: u8 where "END_OF_SESSION \<equiv> byte CHR ''Z''"
abbreviation LOGIN_REQUEST :: u8 where "LOGIN_REQUEST \<equiv> byte CHR ''L''"
abbreviation UNSEQUENCED_DATA :: u8 where "UNSEQUENCED_DATA \<equiv> byte CHR ''U''"
abbreviation CLIENT_HEARTBEAT :: u8 where "CLIENT_HEARTBEAT \<equiv> byte CHR ''R''"
abbreviation LOGOUT_REQUEST :: u8 where "LOGOUT_REQUEST \<equiv> byte CHR ''O''"

datatype LoginRejectReason = NotAuthorized | SessionUnavailable

text \<open>Durations are nanoseconds; an I/O error carries its message.\<close>

datatype SoupError =
    Io string
  | Protocol ProtocolError
  | FrameTooLarge nat nat
  | UnknownPacketType u8
  | BadPayloadLength u8 nat nat
  | LoginRejected LoginRejectReason
  | SessionEnded
  | PeerSilent nat
  | SessionMismatch bytes bytes
  | PrematureClose
  | UnexpectedHandshakePacket u8
  | LoginTimeout nat
  | SoupFraming string

fun LoginRejectReason_to_byte :: "LoginRejectReason \<Rightarrow> u8" where
  "LoginRejectReason_to_byte NotAuthorized = byte CHR ''A''"
| "LoginRejectReason_to_byte SessionUnavailable = byte CHR ''S''"

definition LoginRejectReason_from_byte :: "u8 \<Rightarrow> SoupError + LoginRejectReason" where
  "LoginRejectReason_from_byte b =
    (if b = byte CHR ''A'' then Inr NotAuthorized
     else if b = byte CHR ''S'' then Inr SessionUnavailable
     else Inl (Protocol (InvalidEnumCode ''LoginRejectReason'' b)))"

record LoginRequest =
  username :: bytes
  password :: bytes
  requested_session :: bytes
  requested_sequence :: u64

record LoginAccepted =
  session :: bytes
  sequence :: u64

datatype SoupPacket =
    Debug bytes
  | LoginRequest LoginRequest
  | LoginAccepted LoginAccepted
  | LoginRejected LoginRejectReason
  | SequencedData bytes
  | UnsequencedData bytes
  | ServerHeartbeat
  | ClientHeartbeat
  | EndOfSession
  | LogoutRequest

fun SoupPacket_tag :: "SoupPacket \<Rightarrow> u8" where
  "SoupPacket_tag (Debug _) = DEBUG"
| "SoupPacket_tag (LoginRequest _) = LOGIN_REQUEST"
| "SoupPacket_tag (LoginAccepted _) = LOGIN_ACCEPTED"
| "SoupPacket_tag (LoginRejected _) = LOGIN_REJECTED"
| "SoupPacket_tag (SequencedData _) = SEQUENCED_DATA"
| "SoupPacket_tag (UnsequencedData _) = UNSEQUENCED_DATA"
| "SoupPacket_tag ServerHeartbeat = SERVER_HEARTBEAT"
| "SoupPacket_tag ClientHeartbeat = CLIENT_HEARTBEAT"
| "SoupPacket_tag EndOfSession = END_OF_SESSION"
| "SoupPacket_tag LogoutRequest = LOGOUT_REQUEST"

fun SoupPacket_payload_len :: "SoupPacket \<Rightarrow> nat" where
  "SoupPacket_payload_len (Debug p) = length p"
| "SoupPacket_payload_len (SequencedData p) = length p"
| "SoupPacket_payload_len (UnsequencedData p) = length p"
| "SoupPacket_payload_len (LoginRequest _) = LOGIN_REQUEST_PAYLOAD_LEN"
| "SoupPacket_payload_len (LoginAccepted _) = LOGIN_ACCEPTED_PAYLOAD_LEN"
| "SoupPacket_payload_len (LoginRejected _) = LOGIN_REJECTED_PAYLOAD_LEN"
| "SoupPacket_payload_len ServerHeartbeat = 0"
| "SoupPacket_payload_len ClientHeartbeat = 0"
| "SoupPacket_payload_len EndOfSession = 0"
| "SoupPacket_payload_len LogoutRequest = 0"

definition SoupPacket_encoded_len :: "SoupPacket \<Rightarrow> nat" where
  "SoupPacket_encoded_len self = 2 + 1 + SoupPacket_payload_len self"

subsection \<open>Text and number fields\<close>

text \<open>Every byte of the destination field is written, so a field is what the helper returns.\<close>

definition pad_right :: "bytes \<Rightarrow> nat \<Rightarrow> bytes" where
  "pad_right src width = (let n = min (length src) width in take n src @ replicate (width - n) space)"

definition pad_left :: "bytes \<Rightarrow> nat \<Rightarrow> bytes" where
  "pad_left src width =
    (if length src \<ge> width then drop (length src - width) src
     else let pad = width - length src in replicate pad space @ src)"

definition trim_spaces :: "bytes \<Rightarrow> bytes" where
  "trim_spaces src =
    (let start = length (takeWhile (\<lambda>b. b = space) src);
         end_of = (case rposition (\<lambda>b. b \<noteq> space) src of Some i \<Rightarrow> i + 1 | None \<Rightarrow> start)
     in drop start (take end_of src))"

text \<open>\<open>String::from_utf8_lossy\<close>: every well-formed character is kept, every maximal ill-formed piece
  becomes U+FFFD.  \<open>utf8_char\<close> tells whether a character starts with \<open>a\<close>, and the length of the
  character or of the ill-formed piece.\<close>

definition utf8_second :: "u8 \<Rightarrow> u8 \<Rightarrow> bool" where
  "utf8_second a b \<longleftrightarrow> utf8_cont b
    \<and> (a = 0xE0 \<longrightarrow> 0xA0 \<le> b) \<and> (a = 0xED \<longrightarrow> b \<le> 0x9F)
    \<and> (a = 0xF0 \<longrightarrow> 0x90 \<le> b) \<and> (a = 0xF4 \<longrightarrow> b \<le> 0x8F)"

definition utf8_char :: "u8 \<Rightarrow> bytes \<Rightarrow> bool \<times> nat" where
  "utf8_char a bs =
    (if a \<le> 0x7F then (True, 1)
     else if 0xC2 \<le> a \<and> a \<le> 0xDF then
       (case bs of b # _ \<Rightarrow> if utf8_cont b then (True, 2) else (False, 1) | _ \<Rightarrow> (False, 1))
     else if 0xE0 \<le> a \<and> a \<le> 0xEF then
       (case bs of
          b # cs \<Rightarrow>
            if \<not> utf8_second a b then (False, 1)
            else (case cs of c # _ \<Rightarrow> if utf8_cont c then (True, 3) else (False, 2) | _ \<Rightarrow> (False, 2))
        | _ \<Rightarrow> (False, 1))
     else if 0xF0 \<le> a \<and> a \<le> 0xF4 then
       (case bs of
          b # cs \<Rightarrow>
            if \<not> utf8_second a b then (False, 1)
            else (case cs of
                c # ds \<Rightarrow>
                  if \<not> utf8_cont c then (False, 2)
                  else (case ds of d # _ \<Rightarrow> if utf8_cont d then (True, 4) else (False, 3) | _ \<Rightarrow> (False, 3))
              | _ \<Rightarrow> (False, 2))
        | _ \<Rightarrow> (False, 1))
     else (False, 1))"

function utf8_lossy :: "bytes \<Rightarrow> bytes" where
  "utf8_lossy [] = []"
| "utf8_lossy (a # bs) =
    (let (ok, n) = utf8_char a bs in
     (if ok then take n (a # bs) else [0xEF, 0xBF, 0xBD]) @ utf8_lossy (drop (n - 1) bs))"
  by pat_completeness auto

termination
  by (relation "measure length") auto

definition read_anum :: "bytes \<Rightarrow> bytes" where
  "read_anum src = utf8_lossy (trim_spaces src)"

function ascii_digits :: "u64 \<Rightarrow> bytes \<Rightarrow> bytes" where
  "ascii_digits n acc =
    (if n = 0 then acc else ascii_digits (n div 10) ((0x30 + ucast (n mod 10)) # acc))"
  by pat_completeness auto

termination
  by (relation "measure (\<lambda>(n, _). unat n)") (auto simp: unat_div unat_gt_0 div_less_dividend)

declare ascii_digits.simps [simp del]

definition encode_ascii_u64 :: "u64 \<Rightarrow> bytes" where
  "encode_ascii_u64 value =
    (let digits = (if value = 0 then [0x30] else ascii_digits value []); pad = 20 - length digits
     in replicate pad space @ digits)"

definition is_ascii_digit :: "u8 \<Rightarrow> bool" where
  "is_ascii_digit b \<longleftrightarrow> 0x30 \<le> b \<and> b \<le> 0x39"

fun decode_digits :: "u64 \<Rightarrow> bytes \<Rightarrow> SoupError + u64" where
  "decode_digits value [] = Inr value"
| "decode_digits value (b # bs) =
    (if \<not> is_ascii_digit b then Inl (Protocol (InvalidEnumCode ''SoupAsciiNumber'' b))
     else
       let digit = ucast (b - 0x30) :: u64 in
       case Option.bind (checked_mul value 10) (\<lambda>v. checked_add v digit) of
         None \<Rightarrow> Inl (Protocol (InvalidEnumCode ''SoupAsciiNumber'' b))
       | Some value \<Rightarrow> decode_digits value bs)"

definition decode_ascii_u64 :: "bytes \<Rightarrow> SoupError + u64" where
  "decode_ascii_u64 src =
    (let trimmed = trim_spaces src in if trimmed = [] then Inr 0 else decode_digits 0 trimmed)"

subsection \<open>Packets\<close>

fun write_payload :: "SoupPacket \<Rightarrow> bytes \<Rightarrow> bytes" where
  "write_payload (Debug p) dst = dst @ p"
| "write_payload (SequencedData p) dst = dst @ p"
| "write_payload (UnsequencedData p) dst = dst @ p"
| "write_payload (LoginRequest req) dst = dst @ pad_right (username req) 6 @ pad_right (password req) 10
    @ pad_left (requested_session req) 10 @ encode_ascii_u64 (requested_sequence req)"
| "write_payload (LoginAccepted acc) dst = dst @ pad_left (LoginAccepted.session acc) 10
    @ encode_ascii_u64 (LoginAccepted.sequence acc)"
| "write_payload (LoginRejected why) dst = dst @ [LoginRejectReason_to_byte why]"
| "write_payload ServerHeartbeat dst = dst"
| "write_payload ClientHeartbeat dst = dst"
| "write_payload EndOfSession dst = dst"
| "write_payload LogoutRequest dst = dst"

definition ensure_len :: "u8 \<Rightarrow> bytes \<Rightarrow> nat \<Rightarrow> SoupError + unit" where
  "ensure_len t payload expected =
    (if length payload = expected then Inr () else Inl (BadPayloadLength t expected (length payload)))"

definition decode_packet :: "u8 \<Rightarrow> bytes \<Rightarrow> SoupError + SoupPacket" where
  "decode_packet t payload =
    (if t = DEBUG then Inr (Debug payload)
     else if t = LOGIN_REQUEST then
       and_then (ensure_len t payload LOGIN_REQUEST_PAYLOAD_LEN) (\<lambda>_.
       let user = read_anum (subslice payload 0 6); pass = read_anum (subslice payload 6 10);
           sess = read_anum (subslice payload 16 10) in
       and_then (decode_ascii_u64 (subslice payload 26 20)) (\<lambda>seq.
       Inr (LoginRequest \<lparr>username = user, password = pass, requested_session = sess,
         requested_sequence = seq\<rparr>)))
     else if t = LOGIN_ACCEPTED then
       and_then (ensure_len t payload LOGIN_ACCEPTED_PAYLOAD_LEN) (\<lambda>_.
       let sess = read_anum (subslice payload 0 10) in
       and_then (decode_ascii_u64 (subslice payload 10 20)) (\<lambda>seq.
       Inr (LoginAccepted \<lparr>LoginAccepted.session = sess, LoginAccepted.sequence = seq\<rparr>)))
     else if t = LOGIN_REJECTED then
       and_then (ensure_len t payload LOGIN_REJECTED_PAYLOAD_LEN) (\<lambda>_.
       and_then (LoginRejectReason_from_byte (payload ! 0)) (\<lambda>why. Inr (LoginRejected why)))
     else if t = SEQUENCED_DATA then Inr (SequencedData payload)
     else if t = UNSEQUENCED_DATA then Inr (UnsequencedData payload)
     else if t = SERVER_HEARTBEAT then and_then (ensure_len t payload 0) (\<lambda>_. Inr ServerHeartbeat)
     else if t = CLIENT_HEARTBEAT then and_then (ensure_len t payload 0) (\<lambda>_. Inr ClientHeartbeat)
     else if t = END_OF_SESSION then and_then (ensure_len t payload 0) (\<lambda>_. Inr EndOfSession)
     else if t = LOGOUT_REQUEST then and_then (ensure_len t payload 0) (\<lambda>_. Inr LogoutRequest)
     else Inl (UnknownPacketType t))"

subsection \<open>The stream codec\<close>

record SoupCodec =
  pending_skip :: nat

definition SoupCodec_new :: SoupCodec where
  "SoupCodec_new = \<lparr>pending_skip = 0\<rparr>"

text \<open>The part of \<open>decode\<close> after the recovery counter has run down.\<close>

definition soup_decode_prefixed :: "SoupCodec \<Rightarrow> bytes \<Rightarrow> (SoupError + SoupPacket option) \<times> SoupCodec \<times> bytes" where
  "soup_decode_prefixed self src =
    (if length src < 2 then (Inr None, self, src)
     else
       let len = be_val [src ! 0, src ! 1] in
       if len = 0 then (Inl (FrameTooLarge 2 SOUP_MAX_MESSAGE_LEN), self, drop 2 src)
       else
         let total = 2 + len in
         if total > SOUP_MAX_MESSAGE_LEN then
           (if length src \<ge> total then (Inl (FrameTooLarge total SOUP_MAX_MESSAGE_LEN), self, drop total src)
            else (Inl (FrameTooLarge total SOUP_MAX_MESSAGE_LEN), self\<lparr>pending_skip := total - length src\<rparr>, []))
         else if length src < total then (Inr None, self, src)
         else
           let src = drop 2 src; frame = take len src; src = drop len src;
               t = frame ! 0; payload = drop 1 frame
           in (map_sum id Some (decode_packet t payload), self, src))"

definition SoupCodec_decode :: "SoupCodec \<Rightarrow> bytes \<Rightarrow> (SoupError + SoupPacket option) \<times> SoupCodec \<times> bytes" where
  "SoupCodec_decode self src =
    (if pending_skip self > 0 then
       let to_drop = min (pending_skip self) (length src);
           src = drop to_drop src;
           self = self\<lparr>pending_skip := pending_skip self - to_drop\<rparr>
       in if pending_skip self > 0 then (Inr None, self, src) else soup_decode_prefixed self src
     else soup_decode_prefixed self src)"

definition SoupCodec_encode :: "SoupPacket \<Rightarrow> bytes \<Rightarrow> SoupError + bytes" where
  "SoupCodec_encode packet dst =
    (let total = SoupPacket_encoded_len packet in
     if total > SOUP_MAX_MESSAGE_LEN then Inl (FrameTooLarge total SOUP_MAX_MESSAGE_LEN)
     else
       let len = of_nat (1 + SoupPacket_payload_len packet) :: u16
       in Inr (write_payload packet (dst @ to_be 2 (unat len) @ [SoupPacket_tag packet])))"

section \<open>The framing contract\<close>

definition soup_reject :: "nat \<Rightarrow> SoupError option" where
  "soup_reject len =
    (if len = 0 then Some (FrameTooLarge 2 SOUP_MAX_MESSAGE_LEN)
     else if 2 + len > SOUP_MAX_MESSAGE_LEN then Some (FrameTooLarge (2 + len) SOUP_MAX_MESSAGE_LEN)
     else None)"

definition soup_parse :: "bytes \<Rightarrow> SoupError + SoupPacket" where
  "soup_parse frame = decode_packet (frame ! 0) (drop 1 frame)"

lemma soup_decode_prefixed_prefix:
  "pending_skip s = 0 \<Longrightarrow> soup_decode_prefixed s b = (case prefix_decode soup_reject soup_parse 0 b of
    (r, k, b') \<Rightarrow> (r, s\<lparr>pending_skip := k\<rparr>, b'))"
  by (simp add: soup_decode_prefixed_def prefix_decode_def soup_reject_def soup_parse_def Let_def numeral_2_eq_2)

lemma SoupCodec_decode_prefix:
  "SoupCodec_decode s b = (case prefix_decode soup_reject soup_parse (pending_skip s) b of
    (r, k, b') \<Rightarrow> (r, s\<lparr>pending_skip := k\<rparr>, b'))"
proof (cases "length b < pending_skip s")
  case True
  then show ?thesis by (simp add: SoupCodec_decode_def prefix_decode_def)
next
  case False
  then have "SoupCodec_decode s b = soup_decode_prefixed (s\<lparr>pending_skip := 0\<rparr>) (drop (pending_skip s) b)"
    by (cases s) (simp add: SoupCodec_decode_def)
  then show ?thesis using False
    by (simp add: soup_decode_prefixed_prefix prefix_decode_drop [of "pending_skip s" b])
qed

interpretation soup_codec: frame_codec SoupCodec_decode
  by (rule frame_codec_via [OF frame_codec_prefix SoupCodec_decode_prefix]) simp_all

lemma soup_codec_idle: "yielded (fst (SoupCodec_decode SoupCodec_new [])) = None"
  by (simp add: SoupCodec_decode_def SoupCodec_new_def soup_decode_prefixed_def)

lemma soup_frame_delimited:
  assumes "length w < 65536"
  shows "delimited SoupCodec_decode SoupCodec_new (prefix_frame w) (frame_result soup_reject soup_parse w)"
  by (rule delimited_prefix [OF assms, where put = "\<lambda>k s. s\<lparr>pending_skip := k\<rparr>"])
    (simp_all add: SoupCodec_decode_prefix SoupCodec_new_def)

section \<open>Text fields\<close>

lemma trim_spaces_inner:
  assumes "s = [] \<or> hd s \<noteq> space \<and> last s \<noteq> space"
  shows "trim_spaces (replicate m space @ s @ replicate n space) = s"
proof (cases "s = []")
  case True
  have "takeWhile (\<lambda>b. b = space) (replicate (m + n) space) = replicate (m + n) space"
    by (simp add: takeWhile_eq_all_conv)
  moreover have "rposition (\<lambda>b. b \<noteq> space) (replicate (m + n) space) = None"
    by (simp add: rposition_None)
  ultimately show ?thesis using True by (simp add: trim_spaces_def flip: replicate_add)
next
  case False
  then obtain x xs where cons: "s = x # xs" "x \<noteq> space" using assms by (cases s) auto
  then have start: "takeWhile (\<lambda>b. b = space) (replicate m space @ s @ replicate n space) = replicate m space"
    by (induction m) simp_all
  obtain ys y where snoc: "s = ys @ [y]" "y \<noteq> space" using assms False by (cases s rule: rev_cases) auto
  have "rposition (\<lambda>b. b \<noteq> space) ((replicate m space @ s) @ replicate n space)
      = rposition (\<lambda>b. b \<noteq> space) ((replicate m space @ ys) @ [y])"
    using snoc by (subst rposition_append_none) simp_all
  also have "\<dots> = Some (m + length ys)" using snoc(2) by (subst rposition_snoc) simp_all
  finally show ?thesis using snoc start by (simp add: trim_spaces_def)
qed

lemma utf8_char_valid:
  assumes "utf8_valid (a # bs)"
  obtains n where "utf8_char a bs = (True, Suc n)" "utf8_valid (drop n bs)"
proof -
  consider "a \<le> 0x7F" | "\<not> a \<le> 0x7F" "0xC2 \<le> a \<and> a \<le> 0xDF"
    | "\<not> a \<le> 0x7F" "\<not> (0xC2 \<le> a \<and> a \<le> 0xDF)" "0xE0 \<le> a \<and> a \<le> 0xEF"
    | "\<not> a \<le> 0x7F" "\<not> (0xC2 \<le> a \<and> a \<le> 0xDF)" "\<not> (0xE0 \<le> a \<and> a \<le> 0xEF)" "0xF0 \<le> a \<and> a \<le> 0xF4"
    using assms by (fastforce split: if_splits)
  then show thesis
  proof cases
    case 1
    then show ?thesis using assms that [of 0] by (simp add: utf8_char_def)
  next
    case 2
    then obtain b cs where "bs = b # cs" "utf8_cont b" "utf8_valid cs"
      using assms by (cases bs) simp_all
    then show ?thesis using 2 that [of 1] by (simp add: utf8_char_def)
  next
    case 3
    then have "a \<noteq> 0xF0" "a \<noteq> 0xF4" by auto
    with 3 obtain b c ds where "bs = b # c # ds" "utf8_second a b" "utf8_cont c" "utf8_valid ds"
      using assms by (auto simp: utf8_second_def split: list.splits)
    then show ?thesis using 3 that [of 2] by (simp add: utf8_char_def numeral_3_eq_3 numeral_2_eq_2)
  next
    case 4
    then have "a \<noteq> 0xE0" "a \<noteq> 0xED" by auto
    with 4 obtain b c d es where "bs = b # c # d # es" "utf8_second a b" "utf8_cont c" "utf8_cont d" "utf8_valid es"
      using assms by (auto simp: utf8_second_def split: list.splits)
    then show ?thesis using 4 that [of 3] by (simp add: utf8_char_def numeral_3_eq_3)
  qed
qed

lemma utf8_lossy_valid: "utf8_valid s \<Longrightarrow> utf8_lossy s = s"
proof (induction "length s" arbitrary: s rule: less_induct)
  case less
  show ?case
  proof (cases s)
    case (Cons a bs)
    then obtain n where n: "utf8_char a bs = (True, Suc n)" "utf8_valid (drop n bs)"
      using less.prems utf8_char_valid by blast
    with less.hyps [of "drop n bs"] Cons show ?thesis by simp
  qed simp
qed

section \<open>Number fields\<close>

definition decimal :: "nat \<Rightarrow> bytes \<Rightarrow> nat" where
  "decimal v ds = foldl (\<lambda>v b. v * 10 + (unat b - 0x30)) v ds"

lemma decimal_simps [simp]:
  "decimal v [] = v"
  "decimal v (b # ds) = decimal (v * 10 + (unat b - 0x30)) ds"
  "decimal v (ds @ [b]) = decimal v ds * 10 + (unat b - 0x30)"
  by (simp_all add: decimal_def)

lemma decimal_ge: "v \<le> decimal v ds"
proof (induction ds arbitrary: v)
  case (Cons b ds)
  have "v \<le> v * 10 + (unat b - 0x30)" by simp
  also have "\<dots> \<le> decimal (v * 10 + (unat b - 0x30)) ds" by (rule Cons.IH)
  finally show ?case by simp
qed simp

definition digit_of :: "u8 \<Rightarrow> u64" where
  "digit_of b = ucast (b - 0x30)"

lemma unat_digit:
  assumes "is_ascii_digit b"
  shows "unat (digit_of b) = unat b - 0x30"
proof -
  have "unat (b - 0x30) = unat b - 0x30" using assms unat_sub [of "0x30" b] by (simp add: is_ascii_digit_def)
  moreover have "unat (b - 0x30) < 2 ^ 64" using unat_u8_less [of "b - 0x30"] by simp
  ultimately show ?thesis by (simp add: digit_of_def unsigned_ucast_eq take_bit_nat_eq_self)
qed

lemma checked_step:
  fixes v d :: u64
  shows "Option.bind (checked_mul v 10) (\<lambda>w. checked_add w d)
    = (if unat v * 10 + unat d < 2 ^ 64 then Some (v * 10 + d) else None)"
    and "unat v * 10 + unat d < 2 ^ 64 \<Longrightarrow> unat (v * 10 + d) = unat v * 10 + unat d"
  by (auto simp: checked_mul_def checked_add_def unat_word_ariths)

lemma decode_digits_decimal:
  assumes "\<forall>b \<in> set ds. is_ascii_digit b"
  shows "if decimal (unat v) ds < 2 ^ 64 then decode_digits v ds = Inr (of_nat (decimal (unat v) ds))
    else \<exists>b \<in> set ds. decode_digits v ds = Inl (Protocol (InvalidEnumCode ''SoupAsciiNumber'' b))"
  using assms
proof (induction ds arbitrary: v)
  case Nil
  show ?case using unat_u64_less [of v] by simp
next
  case (Cons b ds)
  let ?v = "unat v * 10 + unat (digit_of b)"
  have digit: "is_ascii_digit b" using Cons.prems by simp
  have unfold: "decode_digits v (b # ds) = (if ?v < 2 ^ 64 then decode_digits (v * 10 + digit_of b) ds
      else Inl (Protocol (InvalidEnumCode ''SoupAsciiNumber'' b)))"
    using digit checked_step(1) [of v "digit_of b"] by (simp add: digit_of_def)
  have val: "decimal (unat v) (b # ds) = decimal ?v ds" by (simp add: unat_digit [OF digit])
  show ?case
  proof (cases "?v < 2 ^ 64")
    case True
    then show ?thesis
      using Cons.IH [of "v * 10 + digit_of b"] Cons.prems checked_step(2) [OF True] unfolding unfold val
      by (auto split: if_splits)
  next
    case False
    then have "\<not> decimal ?v ds < 2 ^ 64" using decimal_ge [of ?v ds] by simp
    then show ?thesis using False unfolding unfold val by auto
  qed
qed

lemma ascii_digits_append: "ascii_digits n acc = ascii_digits n [] @ acc"
proof (induction "unat n" arbitrary: n acc rule: less_induct)
  case less
  show ?case
  proof (cases "n = 0")
    case False
    then have "unat (n div 10) < unat n" by (simp add: unat_div unat_gt_0 div_less_dividend)
    note IH = less [OF this]
    show ?thesis using False
      by (subst (1 2) ascii_digits.simps)
        (simp add: IH [of "(0x30 + ucast (n mod 10)) # acc"] IH [of "[0x30 + ucast (n mod 10)]"])
  qed (simp add: ascii_digits.simps)
qed

lemma ascii_digit_value:
  "is_ascii_digit (0x30 + ucast (n mod 10))" "unat (0x30 + ucast (n mod 10) :: u8) - 0x30 = unat (n :: u64) mod 10"
proof -
  have "unat (n mod 10) < 10" by (simp add: unat_mod)
  then have "unat (ucast (n mod 10) :: u8) = unat n mod 10"
    by (simp add: unsigned_ucast_eq take_bit_nat_def unat_mod)
  then have "unat (0x30 + ucast (n mod 10) :: u8) = 0x30 + unat n mod 10"
    by (simp add: unat_word_ariths)
  then show "is_ascii_digit (0x30 + ucast (n mod 10))" "unat (0x30 + ucast (n mod 10) :: u8) - 0x30 = unat n mod 10"
    by (simp_all add: is_ascii_digit_def word_le_nat_alt)
qed

lemma ascii_digits_decimal:
  "decimal 0 (ascii_digits n []) = unat n \<and> (\<forall>b \<in> set (ascii_digits n []). is_ascii_digit b)
    \<and> (n \<noteq> 0 \<longrightarrow> ascii_digits n [] \<noteq> [] \<and> 10 ^ (length (ascii_digits n []) - 1) \<le> unat n)"
proof (induction "unat n" arbitrary: n rule: less_induct)
  case less
  show ?case
  proof (cases "n = 0")
    case False
    then have "unat (n div 10) < unat n" by (simp add: unat_div unat_gt_0 div_less_dividend)
    note IH = less [OF this]
    have digits: "ascii_digits n [] = ascii_digits (n div 10) [] @ [0x30 + ucast (n mod 10)]"
      using False by (subst ascii_digits.simps) (simp add: ascii_digits_append [of _ "[_]"])
    have "decimal 0 (ascii_digits n []) = unat n"
      using IH ascii_digit_value(2) [of n] by (simp add: digits unat_div)
    moreover have "10 ^ (length (ascii_digits n []) - 1) \<le> unat n"
    proof (cases "n div 10 = 0")
      case True
      then show ?thesis using False by (simp add: digits ascii_digits.simps [of 0] unat_gt_0 Suc_le_eq)
    next
      case nz: False
      then have "10 ^ (length (ascii_digits (n div 10) []) - 1) \<le> unat n div 10"
        "length (ascii_digits (n div 10) []) > 0"
        using IH by (simp_all add: unat_div)
      then have "10 * 10 ^ (length (ascii_digits (n div 10) []) - 1) \<le> unat n" by simp
      then show ?thesis using \<open>length (ascii_digits (n div 10) []) > 0\<close>
        by (simp add: digits flip: power_Suc)
    qed
    ultimately show ?thesis using IH ascii_digit_value(1) [of n] by (simp add: digits)
  qed (simp add: ascii_digits.simps)
qed

lemma digits_trimmed:
  "\<forall>b \<in> set ds. is_ascii_digit b \<Longrightarrow> trim_spaces (replicate m space @ ds @ replicate n space) = ds"
proof (rule trim_spaces_inner)
  have "\<not> is_ascii_digit space" by (simp add: is_ascii_digit_def space_def)
  moreover assume "\<forall>b \<in> set ds. is_ascii_digit b"
  ultimately show "ds = [] \<or> hd ds \<noteq> space \<and> last ds \<noteq> space" using hd_in_set last_in_set by metis
qed

lemma encode_ascii_u64_field:
  obtains m ds where "encode_ascii_u64 v = replicate m space @ ds" "length (encode_ascii_u64 v) = 20"
    "\<forall>b \<in> set ds. is_ascii_digit b" "ds \<noteq> []" "decimal 0 ds = unat v"
proof (cases "v = 0")
  case True
  then show thesis using that [of 19 "[0x30]"] by (simp add: encode_ascii_u64_def is_ascii_digit_def)
next
  case False
  let ?ds = "ascii_digits v []"
  note ds = ascii_digits_decimal [of v]
  have "10 ^ (length ?ds - 1) \<le> unat v" using ds False by simp
  also have "unat v < 10 ^ 20" using unat_u64_less [of v] by simp
  finally have "length ?ds - 1 < 20" by (rule power_less_imp_less_exp [rotated]) simp
  then have "length (encode_ascii_u64 v) = 20" using False by (simp add: encode_ascii_u64_def Let_def)
  then show thesis using that [of "20 - length ?ds" ?ds] ds False by (simp add: encode_ascii_u64_def Let_def)
qed

lemma length_encode_ascii_u64 [simp]: "length (encode_ascii_u64 v) = 20"
  by (rule encode_ascii_u64_field)

lemma decode_ascii_u64_decimal:
  assumes "\<forall>b \<in> set ds. is_ascii_digit b" "ds \<noteq> []"
  shows "if decimal 0 ds < 2 ^ 64
    then decode_ascii_u64 (replicate m space @ ds @ replicate n space) = Inr (of_nat (decimal 0 ds))
    else \<exists>b \<in> set ds. decode_ascii_u64 (replicate m space @ ds @ replicate n space)
      = Inl (Protocol (InvalidEnumCode ''SoupAsciiNumber'' b))"
  using decode_digits_decimal [OF assms(1), of 0] digits_trimmed [OF assms(1)] assms(2)
  by (simp add: decode_ascii_u64_def)

lemma decode_encode_ascii_u64: "decode_ascii_u64 (encode_ascii_u64 v) = Inr v"
proof (rule encode_ascii_u64_field [of v])
  fix m ds
  assume ds: "encode_ascii_u64 v = replicate m space @ ds" "\<forall>b \<in> set ds. is_ascii_digit b" "ds \<noteq> []"
    "decimal 0 ds = unat v"
  then show ?thesis using decode_ascii_u64_decimal [OF ds(2,3), of m 0] unat_u64_less [of v] by simp
qed

section \<open>Packets\<close>

text \<open>Text that a field of the given width can hold: it fits, and has no space at either end.\<close>

definition anum_ok :: "nat \<Rightarrow> bytes \<Rightarrow> bool" where
  "anum_ok width s \<longleftrightarrow> length s \<le> width \<and> utf8_valid s \<and> (s = [] \<or> hd s \<noteq> space \<and> last s \<noteq> space)"

lemma read_pad_right: "anum_ok w s \<Longrightarrow> read_anum (pad_right s w) = s"
  using trim_spaces_inner [of s 0 "w - length s"]
  by (simp add: anum_ok_def read_anum_def pad_right_def utf8_lossy_valid)

lemma read_pad_left:
  assumes "anum_ok w s"
  shows "read_anum (pad_left s w) = s"
proof -
  have "pad_left s w = replicate (w - length s) space @ s @ replicate 0 space"
    using assms by (simp add: pad_left_def anum_ok_def Let_def)
  then show ?thesis using trim_spaces_inner [of s "w - length s" 0] assms
    by (simp add: anum_ok_def read_anum_def utf8_lossy_valid)
qed

lemma length_pad [simp]: "length (pad_right s w) = w" "length (pad_left s w) = w"
  by (simp_all add: pad_right_def pad_left_def Let_def)

definition SoupPacket_ok :: "SoupPacket \<Rightarrow> bool" where
  "SoupPacket_ok p \<longleftrightarrow> SoupPacket_encoded_len p \<le> SOUP_MAX_MESSAGE_LEN
    \<and> (case p of
         LoginRequest r \<Rightarrow> anum_ok 6 (username r) \<and> anum_ok 10 (password r) \<and> anum_ok 10 (requested_session r)
       | LoginAccepted a \<Rightarrow> anum_ok 10 (LoginAccepted.session a)
       | _ \<Rightarrow> True)"

lemma write_payload_append: "write_payload p dst = dst @ write_payload p []"
  by (cases p) simp_all

lemma length_write_payload: "length (write_payload p []) = SoupPacket_payload_len p"
  by (cases p) simp_all

lemma decode_packet_write:
  assumes "SoupPacket_ok p"
  shows "decode_packet (SoupPacket_tag p) (write_payload p []) = Inr p"
proof (cases p)
  case (LoginRequest r)
  then have "anum_ok 6 (username r)" "anum_ok 10 (password r)" "anum_ok 10 (requested_session r)"
    using assms by (simp_all add: SoupPacket_ok_def)
  then show ?thesis using LoginRequest
    by (simp add: decode_packet_def ensure_len_def subslice_def
        read_pad_right read_pad_left decode_encode_ascii_u64)
next
  case (LoginAccepted a)
  then have "anum_ok 10 (LoginAccepted.session a)" using assms by (simp add: SoupPacket_ok_def)
  then show ?thesis using LoginAccepted
    by (simp add: decode_packet_def ensure_len_def subslice_def
        read_pad_left decode_encode_ascii_u64)
next
  case (LoginRejected why)
  then show ?thesis
    by (cases why) (simp_all add: decode_packet_def ensure_len_def
        LoginRejectReason_from_byte_def)
qed (simp_all add: decode_packet_def ensure_len_def)

definition SoupPacket_body :: "SoupPacket \<Rightarrow> bytes" where
  "SoupPacket_body p = SoupPacket_tag p # write_payload p []"

lemma length_SoupPacket_body: "length (SoupPacket_body p) = 1 + SoupPacket_payload_len p"
  by (simp add: SoupPacket_body_def length_write_payload)

lemma SoupCodec_encode_body:
  assumes "SoupPacket_encoded_len p \<le> SOUP_MAX_MESSAGE_LEN"
  shows "SoupCodec_encode p dst = Inr (dst @ prefix_frame (SoupPacket_body p))"
proof -
  define n where "n = 1 + SoupPacket_payload_len p"
  have "n < 65536" using assms by (simp add: n_def SoupPacket_encoded_len_def SOUP_MAX_MESSAGE_LEN_def)
  then have "unat (of_nat n :: u16) = n" by (simp add: unat_of_nat)
  moreover have "length (SoupPacket_body p) = n" by (simp add: n_def length_SoupPacket_body)
  ultimately show ?thesis
    using assms write_payload_append [of p "dst @ to_be 2 n @ [SoupPacket_tag p]"]
    unfolding SoupCodec_encode_def Let_def prefix_frame_def n_def [symmetric]
    by (simp add: SoupPacket_body_def)
qed

lemma soup_packet_delimited:
  assumes "SoupPacket_ok p"
  shows "delimited SoupCodec_decode SoupCodec_new (prefix_frame (SoupPacket_body p)) (Inr p)"
proof -
  have small: "2 + length (SoupPacket_body p) \<le> SOUP_MAX_MESSAGE_LEN"
    using assms by (simp add: SoupPacket_ok_def SoupPacket_encoded_len_def length_SoupPacket_body)
  then have "frame_result soup_reject soup_parse (SoupPacket_body p) = Inr p"
    using decode_packet_write [OF assms]
    by (simp add: frame_result_def soup_reject_def soup_parse_def SoupPacket_body_def)
  then show ?thesis using soup_frame_delimited [of "SoupPacket_body p"] small
    by (simp add: SOUP_MAX_MESSAGE_LEN_def)
qed

text \<open>Packets sent one after the other into the same buffer.\<close>

fun soup_encode_all :: "SoupPacket list \<Rightarrow> bytes \<Rightarrow> SoupError + bytes" where
  "soup_encode_all [] dst = Inr dst"
| "soup_encode_all (p # ps) dst = and_then (SoupCodec_encode p dst) (soup_encode_all ps)"

lemma soup_encode_all_body:
  "\<forall>p \<in> set ps. SoupPacket_ok p
    \<Longrightarrow> soup_encode_all ps dst = Inr (dst @ concat (map (prefix_frame \<circ> SoupPacket_body) ps))"
  by (induction ps arbitrary: dst) (simp_all add: SoupCodec_encode_body SoupPacket_ok_def)

definition sample_login :: SoupPacket where
  "sample_login = LoginRequest \<lparr>username = [0x61, 0x62], password = [0x70], requested_session = [],
     requested_sequence = 42\<rparr>"

lemma sample_login_ok: "SoupPacket_ok sample_login" "SoupPacket_ok ServerHeartbeat"
  by (simp_all add: SoupPacket_ok_def sample_login_def anum_ok_def SoupPacket_encoded_len_def space_def
      SOUP_MAX_MESSAGE_LEN_def)

lemma soup_packets_back:
  assumes "\<forall>p \<in> set ps. SoupPacket_ok p" and "soup_encode_all ps [] = Inr stream" and "concat chunks = stream"
  shows "fst (feeds SoupCodec_decode (SoupCodec_new, []) chunks) = map Inr ps"
proof -
  have frames: "list_all2 (delimited SoupCodec_decode SoupCodec_new)
      (map (prefix_frame \<circ> SoupPacket_body) ps) (map Inr ps)"
    using assms(1) by (induction ps) (simp_all add: soup_packet_delimited)
  have "concat chunks = concat (map (prefix_frame \<circ> SoupPacket_body) ps)"
    using assms soup_encode_all_body [OF assms(1), of "[]"] by simp
  from soup_codec.feeds_frames [OF frames soup_codec_idle this] show ?thesis .
qed

section \<open>Properties\<close>

text \<open>Packets encoded one after the other come back in order from any split of the bytes into
  reads: login fields without their padding, numbers exactly, data unchanged.\<close>

lemma soup_round_trip:
  assumes "\<forall>p \<in> set ps. SoupPacket_ok p" and "soup_encode_all ps [] = Inr stream" and "concat chunks = stream"
  shows "fst (feeds SoupCodec_decode (SoupCodec_new, []) chunks) = map Inr ps"
  using assms by (rule soup_packets_back)

text \<open>C23: A stream of SoupBinTCP frames, cut into reads in any way, gives exactly one result per frame:
  an empty or oversized frame is refused, any other gives what its tag and payload decode to.  The
  bytes of a bad frame are skipped exactly, even when they arrive in later reads.\<close>

theorem soup_stream_results:
  assumes "\<forall>w \<in> set ws. length w < 65536" and "concat chunks = concat (map prefix_frame ws)"
  shows "fst (feeds SoupCodec_decode (SoupCodec_new, []) chunks) = map (\<lambda>w.
    if w = [] then Inl (FrameTooLarge 2 SOUP_MAX_MESSAGE_LEN)
    else if 2 + length w > SOUP_MAX_MESSAGE_LEN then Inl (FrameTooLarge (2 + length w) SOUP_MAX_MESSAGE_LEN)
    else decode_packet (hd w) (tl w)) ws"
proof -
  have "list_all2 (delimited SoupCodec_decode SoupCodec_new) (map prefix_frame ws)
      (map (frame_result soup_reject soup_parse) ws)"
    using assms(1) by (induction ws) (simp_all add: soup_frame_delimited)
  from soup_codec.feeds_frames [OF this soup_codec_idle assms(2)]
  have "fst (feeds SoupCodec_decode (SoupCodec_new, []) chunks) = map (frame_result soup_reject soup_parse) ws" .
  then show ?thesis
    by (auto simp: frame_result_def soup_reject_def soup_parse_def hd_conv_nth drop_Suc)
qed

theorem soup_stream_results_witness:
  "let s = prefix_frame (replicate 3000 1) @ prefix_frame [] @ prefix_frame [SERVER_HEARTBEAT] in
   fst (feeds SoupCodec_decode (SoupCodec_new, []) [take 9 s, drop 9 s])
    = [Inl (FrameTooLarge 3002 1024), Inl (FrameTooLarge 2 1024), Inr ServerHeartbeat]"
proof -
  let ?ws = "[replicate 3000 1, [], [SERVER_HEARTBEAT]]"
  define s where "s = concat (map prefix_frame ?ws)"
  have all: "concat [take 9 s, drop 9 s] = concat (map prefix_frame ?ws)"
    unfolding s_def by (simp only: concat.simps append_Nil2 append_take_drop_id)
  have small: "\<forall>w \<in> set ?ws. length w < 65536" by simp
  have "decode_packet SERVER_HEARTBEAT [] = Inr ServerHeartbeat"
    using decode_packet_write [OF sample_login_ok(2)] by simp
  then have "fst (feeds SoupCodec_decode (SoupCodec_new, []) [take 9 s, drop 9 s])
    = [Inl (FrameTooLarge 3002 1024), Inl (FrameTooLarge 2 1024), Inr ServerHeartbeat]"
    unfolding soup_stream_results [OF small all] by (simp add: SOUP_MAX_MESSAGE_LEN_def)
  moreover have "s = prefix_frame (replicate 3000 1) @ prefix_frame [] @ prefix_frame [SERVER_HEARTBEAT]"
    by (simp add: s_def)
  ultimately show ?thesis by (simp only: Let_def)
qed

text \<open>The decimal field of the login packets: every \<open>u64\<close> is written in twenty bytes and read back
  exactly; a run of digits between spaces is read as its value when that fits \<open>u64\<close>, and refused
  otherwise.\<close>

lemma soup_decimal_field:
  assumes "\<forall>b \<in> set ds. is_ascii_digit b" "ds \<noteq> []"
  shows "length (encode_ascii_u64 v) = 20 \<and> decode_ascii_u64 (encode_ascii_u64 v) = Inr v
    \<and> (if decimal 0 ds < 2 ^ 64
       then decode_ascii_u64 (replicate m space @ ds @ replicate n space) = Inr (of_nat (decimal 0 ds))
       else \<exists>b \<in> set ds. decode_ascii_u64 (replicate m space @ ds @ replicate n space)
         = Inl (Protocol (InvalidEnumCode ''SoupAsciiNumber'' b)))"
  using decode_ascii_u64_decimal [OF assms, of m n] by (simp add: decode_encode_ascii_u64)

end
