(* ===== verification/Itch_Soup_Session.thy ===== *)
theory Itch_Soup_Session
  imports Itch_Soup_Codec
begin

text \<open>
  The client side of a SoupBinTCP session: the login handshake and the connection of
  \<open>connection.rs\<close>, the heartbeat timers of \<open>heartbeat.rs\<close>.  What the framed socket yields is
  a list of items, \<open>None\<close> for the end of the socket; an empty list means that nothing has
  arrived yet.  Whether a send went through, and how long a reply took, are arguments.
\<close>

section \<open>Definitions\<close>

abbreviation DEFAULT_LOGIN_TIMEOUT :: nat where "DEFAULT_LOGIN_TIMEOUT \<equiv> 10 * 10 ^ 9"
abbreviation DEFAULT_SEND_TIMEOUT :: nat where "DEFAULT_SEND_TIMEOUT \<equiv> 250 * 10 ^ 6"
abbreviation DEBUG_CHANNEL_CAPACITY :: nat where "DEBUG_CHANNEL_CAPACITY \<equiv> 16"

type_synonym framed_item = "(SoupError + SoupPacket) option"

subsection \<open>Trimming of strings\<close>

text \<open>The UTF-8 encodings of the characters with the \<open>White_Space\<close> property, and \<open>str::trim\<close> over them.\<close>

definition white_space :: "bytes list" where
  "white_space = map (\<lambda>b. [b]) [0x09, 0x0A, 0x0B, 0x0C, 0x0D, 0x20]
    @ [[0xC2, 0x85], [0xC2, 0xA0], [0xE1, 0x9A, 0x80]]
    @ map (\<lambda>b. [0xE2, 0x80, b]) [0x80, 0x81, 0x82, 0x83, 0x84, 0x85, 0x86, 0x87, 0x88, 0x89, 0x8A, 0xA8, 0xA9, 0xAF]
    @ [[0xE2, 0x81, 0x9F], [0xE3, 0x80, 0x80]]"

function strip_start :: "bytes list \<Rightarrow> bytes \<Rightarrow> bytes" where
  "strip_start ws s =
    (case find (\<lambda>w. w \<noteq> [] \<and> take (length w) s = w) ws of
       None \<Rightarrow> s
     | Some w \<Rightarrow> strip_start ws (drop (length w) s))"
  by pat_completeness auto
termination
proof (relation "measure (\<lambda>(ws, s). length s)")
  fix ws s w assume "find (\<lambda>w. w \<noteq> [] \<and> take (length w) s = w) ws = Some w"
  then have "w \<noteq> []" "take (length w) s = w" by (auto simp: find_Some_iff)
  then show "((ws, drop (length w) s), ws, s) \<in> measure (\<lambda>(ws, s). length s)" by (cases s) auto
qed simp

declare strip_start.simps [simp del]

definition str_trim :: "bytes \<Rightarrow> bytes" where
  "str_trim s = rev (strip_start (map rev white_space) (rev (strip_start white_space s)))"

subsection \<open>The connection\<close>

record SoupCredentials =
  username :: bytes
  password :: bytes

text \<open>The bounded channel of debug packets: what is queued, and whether the receiver was dropped.\<close>

record DebugChannel =
  queue :: "bytes list"
  closed :: bool

record SoupConnection =
  session :: bytes
  expected_sequence :: u64
  session_ended :: bool
  debug_tx :: "DebugChannel option"
  send_timeout :: nat

definition with_send_timeout :: "SoupConnection \<Rightarrow> nat \<Rightarrow> SoupConnection" where
  "with_send_timeout self timeout = self\<lparr>send_timeout := timeout\<rparr>"

definition debug_packets :: "SoupConnection \<Rightarrow> SoupConnection" where
  "debug_packets self = self\<lparr>debug_tx := Some \<lparr>queue = [], closed = False\<rparr>\<rparr>"

definition deliver_sequenced :: "bytes \<Rightarrow> SoupConnection \<Rightarrow> (SoupError + Message) \<times> SoupConnection" where
  "deliver_sequenced payload self =
    (case Message_decode payload of
       Inl e \<Rightarrow> (Inl (Protocol e), self)
     | Inr msg \<Rightarrow> (Inr msg, self\<lparr>expected_sequence := saturating_add (expected_sequence self) 1\<rparr>))"

definition route_debug :: "bytes \<Rightarrow> SoupConnection \<Rightarrow> SoupConnection" where
  "route_debug payload self =
    (case debug_tx self of
       None \<Rightarrow> self
     | Some tx \<Rightarrow>
         if closed tx then self\<lparr>debug_tx := None\<rparr>
         else if length (queue tx) \<ge> DEBUG_CHANNEL_CAPACITY then self
         else self\<lparr>debug_tx := Some (tx\<lparr>queue := queue tx @ [payload]\<rparr>)\<rparr>)"

fun poll_framed ::
  "framed_item list \<Rightarrow> SoupConnection \<Rightarrow> (SoupError + Message) option Poll \<times> framed_item list \<times> SoupConnection" where
  "poll_framed [] self = (Pending, [], self)"
| "poll_framed (None # framed) self = (Ready None, framed, self)"
| "poll_framed (Some (Inl e) # framed) self = (Ready (Some (Inl e)), framed, self)"
| "poll_framed (Some (Inr packet) # framed) self =
    (case packet of
       SequencedData payload \<Rightarrow> (case deliver_sequenced payload self of (r, self) \<Rightarrow> (Ready (Some r), framed, self))
     | EndOfSession \<Rightarrow> (Ready (Some (Inl SessionEnded)), framed, self\<lparr>session_ended := True\<rparr>)
     | ServerHeartbeat \<Rightarrow> poll_framed framed self
     | Debug payload \<Rightarrow> poll_framed framed (route_debug payload self)
     | LoginAccepted _ \<Rightarrow> (Ready (Some (Inl (UnexpectedHandshakePacket (SoupPacket_tag packet)))), framed, self)
     | SoupPacket.LoginRejected _ \<Rightarrow> (Ready (Some (Inl (UnexpectedHandshakePacket (SoupPacket_tag packet)))), framed, self)
     | _ \<Rightarrow> (Ready (Some (Inl (SoupFraming ''client-direction packet on a server stream''))), framed, self))"

definition SoupConnection_poll_next ::
  "framed_item list \<Rightarrow> SoupConnection \<Rightarrow> (SoupError + Message) option Poll \<times> framed_item list \<times> SoupConnection" where
  "SoupConnection_poll_next framed self =
    (if session_ended self then (Ready None, framed, self) else poll_framed framed self)"

text \<open>Sending: \<open>sent\<close> is how the write ended, \<open>None\<close> when the timeout elapsed.  The packet handed to
  the socket is returned too; the text of an I/O error raised here is its kind.\<close>

definition send_unsequenced :: "Message \<Rightarrow> (SoupError + unit) option \<Rightarrow> (SoupError + unit) \<times> SoupPacket option" where
  "send_unsequenced msg sent =
    (case Message_encode msg (replicate (Message_encoded_len msg) 0) of
       Inl e \<Rightarrow> (Inl (Protocol e), None)
     | Inr (buf, n) \<Rightarrow>
         ((case sent of Some res \<Rightarrow> res | None \<Rightarrow> Inl (Io ''WouldBlock'')), Some (UnsequencedData buf)))"

definition logout :: "SoupError + unit \<Rightarrow> SoupError + unit \<Rightarrow> (SoupError + unit) \<times> SoupPacket" where
  "logout sent flushed = (and_then sent (\<lambda>_. and_then flushed Inr), LogoutRequest)"

subsection \<open>The login handshake\<close>

definition login_request :: "SoupCredentials \<Rightarrow> bytes \<Rightarrow> u64 \<Rightarrow> SoupPacket" where
  "login_request credentials req_session req_sequence =
    LoginRequest \<lparr>LoginRequest.username = SoupCredentials.username credentials,
      LoginRequest.password = SoupCredentials.password credentials,
      requested_session = req_session, requested_sequence = req_sequence\<rparr>"

text \<open>A reply is an item with the time the handshake waited for it; when there is none, the wait lasts
  until the timeout.\<close>

type_synonym timed_item = "nat \<times> framed_item"

fun await_reply :: "nat \<Rightarrow> bytes \<Rightarrow> timed_item list \<Rightarrow> SoupError + SoupConnection \<times> timed_item list" where
  "await_reply timeout req_session [] = Inl (LoginTimeout timeout)"
| "await_reply timeout req_session ((wait, item) # replies) =
    (if wait > timeout then Inl (LoginTimeout timeout)
     else case item of
       None \<Rightarrow> Inl PrematureClose
     | Some (Inl e) \<Rightarrow> Inl e
     | Some (Inr (LoginAccepted a)) \<Rightarrow>
         if req_session \<noteq> [] \<and> str_trim (LoginAccepted.session a) \<noteq> str_trim req_session
         then Inl (SessionMismatch req_session (LoginAccepted.session a))
         else Inr (\<lparr>session = LoginAccepted.session a, expected_sequence = sequence a, session_ended = False,
                    debug_tx = None, send_timeout = DEFAULT_SEND_TIMEOUT\<rparr>, replies)
     | Some (Inr (SoupPacket.LoginRejected why)) \<Rightarrow> Inl (SoupError.LoginRejected why)
     | Some (Inr (Debug _)) \<Rightarrow> await_reply timeout req_session replies
     | Some (Inr other) \<Rightarrow> Inl (UnexpectedHandshakePacket (SoupPacket_tag other)))"

definition login_with_timeout ::
  "(SoupError + unit) option \<Rightarrow> timed_item list \<Rightarrow> bytes \<Rightarrow> nat \<Rightarrow> SoupError + SoupConnection \<times> timed_item list" where
  "login_with_timeout sent replies req_session timeout =
    (case sent of
       None \<Rightarrow> Inl (LoginTimeout timeout)
     | Some (Inl e) \<Rightarrow> Inl e
     | Some (Inr _) \<Rightarrow> await_reply timeout req_session replies)"

definition login :: "(SoupError + unit) option \<Rightarrow> timed_item list \<Rightarrow> bytes \<Rightarrow> SoupError + SoupConnection \<times> timed_item list" where
  "login sent replies req_session = login_with_timeout sent replies req_session DEFAULT_LOGIN_TIMEOUT"

subsection \<open>Heartbeat timers\<close>

record HeartbeatConfig =
  outbound_interval :: nat
  dead_link_timeout :: nat

definition HeartbeatConfig_default :: HeartbeatConfig where
  "HeartbeatConfig_default = \<lparr>outbound_interval = 1 * 10 ^ 9, dead_link_timeout = 15 * 10 ^ 9\<rparr>"

text \<open>A tokio interval is its period and the time of its next tick; the first tick is immediate.\<close>

record OutboundHeartbeat =
  config :: HeartbeatConfig
  next_tick :: nat

definition OutboundHeartbeat_new :: "HeartbeatConfig \<Rightarrow> nat \<Rightarrow> OutboundHeartbeat" where
  "OutboundHeartbeat_new cfg now = \<lparr>config = cfg, next_tick = now\<rparr>"

definition OutboundHeartbeat_wait_next :: "OutboundHeartbeat \<Rightarrow> nat \<Rightarrow> nat \<times> OutboundHeartbeat" where
  "OutboundHeartbeat_wait_next self now =
    (max now (next_tick self), self\<lparr>next_tick := next_tick self + outbound_interval (config self)\<rparr>)"

definition OutboundHeartbeat_reset :: "OutboundHeartbeat \<Rightarrow> nat \<Rightarrow> OutboundHeartbeat" where
  "OutboundHeartbeat_reset self now = self\<lparr>next_tick := now + outbound_interval (config self)\<rparr>"

record InboundHeartbeat =
  config :: HeartbeatConfig
  check_interval :: nat
  last_packet_received :: nat

definition InboundHeartbeat_new :: "HeartbeatConfig \<Rightarrow> nat \<Rightarrow> InboundHeartbeat" where
  "InboundHeartbeat_new cfg now =
    \<lparr>config = cfg, check_interval = max (dead_link_timeout cfg div 2) (1 * 10 ^ 6), last_packet_received = now\<rparr>"

definition on_packet_received :: "InboundHeartbeat \<Rightarrow> nat \<Rightarrow> InboundHeartbeat" where
  "on_packet_received self now = self\<lparr>last_packet_received := now\<rparr>"

definition check_dead_link :: "InboundHeartbeat \<Rightarrow> nat \<Rightarrow> nat option" where
  "check_dead_link self now =
    (let elapsed = now - last_packet_received self
     in if elapsed \<ge> dead_link_timeout (InboundHeartbeat.config self) then Some elapsed else None)"

section \<open>What a session delivers\<close>

text \<open>Several polls in a row.\<close>

fun polls ::
  "nat \<Rightarrow> framed_item list \<Rightarrow> SoupConnection \<Rightarrow> (SoupError + Message) option Poll list \<times> framed_item list \<times> SoupConnection" where
  "polls 0 framed self = ([], framed, self)"
| "polls (Suc n) framed self =
    (case SoupConnection_poll_next framed self of (r, framed, self) \<Rightarrow>
       case polls n framed self of (rs, framed, self) \<Rightarrow> (r # rs, framed, self))"

lemma polls_add:
  "polls (m + n) framed self =
    (case polls m framed self of (rs, framed, self) \<Rightarrow>
       case polls n framed self of (rs', framed, self) \<Rightarrow> (rs @ rs', framed, self))"
  by (induction m arbitrary: framed self) (auto split: prod.splits)

lemma route_debug_keeps [simp]:
  "expected_sequence (route_debug p self) = expected_sequence self"
  "session_ended (route_debug p self) = session_ended self"
  "SoupConnection.session (route_debug p self) = SoupConnection.session self"
  "send_timeout (route_debug p self) = send_timeout self"
  by (simp_all add: route_debug_def split: option.split)

fun is_message :: "(SoupError + Message) option \<Rightarrow> bool" where
  "is_message (Some (Inr _)) = True"
| "is_message _ = False"

fun handed :: "(SoupError + Message) option Poll \<Rightarrow> bool" where
  "handed (Ready r) = is_message r"
| "handed Pending = False"

text \<open>The counter of a connection moves exactly when a message is handed out.\<close>

lemma poll_advances:
  "poll_framed framed self = (r, framed', self') \<Longrightarrow>
    expected_sequence self'
      = (if handed r then saturating_add (expected_sequence self) 1 else expected_sequence self)
    \<and> SoupConnection.session self' = SoupConnection.session self"
proof (induction framed self rule: poll_framed.induct)
  case (4 packet framed self)
  then show ?case
    by (cases packet) (auto simp: deliver_sequenced_def split: sum.splits)
qed auto

text \<open>What a connection makes of one item of the socket; \<open>None\<close> when it passes over it.\<close>

fun item_result :: "framed_item \<Rightarrow> (SoupError + Message) option option" where
  "item_result None = Some None"
| "item_result (Some (Inl e)) = Some (Some (Inl e))"
| "item_result (Some (Inr packet)) =
    (case packet of
       SequencedData payload \<Rightarrow> Some (Some (map_sum Protocol id (Message_decode payload)))
     | EndOfSession \<Rightarrow> Some (Some (Inl SessionEnded))
     | ServerHeartbeat \<Rightarrow> None
     | Debug _ \<Rightarrow> None
     | LoginAccepted _ \<Rightarrow> Some (Some (Inl (UnexpectedHandshakePacket LOGIN_ACCEPTED)))
     | SoupPacket.LoginRejected _ \<Rightarrow> Some (Some (Inl (UnexpectedHandshakePacket LOGIN_REJECTED)))
     | _ \<Rightarrow> Some (Some (Inl (SoupFraming ''client-direction packet on a server stream''))))"

definition item_results :: "framed_item list \<Rightarrow> (SoupError + Message) option list" where
  "item_results framed = List.map_filter item_result framed"

lemma item_results_simps [simp]:
  "item_results [] = []"
  "item_results (i # framed) = (case item_result i of None \<Rightarrow> item_results framed | Some r \<Rightarrow> r # item_results framed)"
  by (auto simp: item_results_def List.map_filter_simps split: option.split)

definition messages_in :: "(SoupError + Message) option list \<Rightarrow> nat" where
  "messages_in rs = length (filter is_message rs)"

abbreviation ends_session :: "framed_item \<Rightarrow> bool" where
  "ends_session i \<equiv> i = Some (Inr EndOfSession)"

text \<open>One poll gives the first result of the items, end of session or not.\<close>

lemma poll_framed_first:
  "poll_framed framed self = (r, framed', self') \<Longrightarrow>
    (case item_results framed of [] \<Rightarrow> r = Pending | x # xs \<Rightarrow> r = Ready x \<and> item_results framed' = xs)
    \<and> (handed r \<longrightarrow> session_ended self' = session_ended self)"
proof (induction framed self rule: poll_framed.induct)
  case (4 packet framed self)
  then show ?case by (cases packet) (auto simp: deliver_sequenced_def split: sum.splits list.splits)
qed auto

text \<open>One poll takes the items up to the first that gives a result.\<close>

lemma poll_framed_item:
  "poll_framed framed self = (r, framed', self') \<Longrightarrow> \<forall>i \<in> set framed. \<not> ends_session i \<Longrightarrow> \<not> session_ended self \<Longrightarrow>
    \<not> session_ended self' \<and> (\<forall>i \<in> set framed'. \<not> ends_session i)
    \<and> (case item_results framed of
         [] \<Rightarrow> r = Pending \<and> framed' = []
       | x # xs \<Rightarrow> r = Ready x \<and> item_results framed' = xs)"
proof (induction framed self rule: poll_framed.induct)
  case (4 packet framed self)
  then show ?case by (cases packet) (auto simp: deliver_sequenced_def split: sum.splits)
qed auto

lemma polls_open:
  assumes "\<forall>i \<in> set framed. \<not> ends_session i" "\<not> session_ended self" "polls n framed self = (rs, framed', self')"
  shows "rs = map Ready (take n (item_results framed)) @ replicate (n - length (item_results framed)) Pending
    \<and> unat (expected_sequence self')
       = min (unat (expected_sequence self) + messages_in (take n (item_results framed))) (2 ^ 64 - 1)
    \<and> \<not> session_ended self' \<and> item_results framed' = drop n (item_results framed)"
  using assms
proof (induction n arbitrary: framed self rs)
  case 0
  have "unat (expected_sequence self) \<le> 2 ^ 64 - 1" using unat_u64_less [of "expected_sequence self"] by simp
  then show ?case using 0 by (auto simp: messages_in_def)
next
  case (Suc n)
  obtain r framed1 self1 where 1: "poll_framed framed self = (r, framed1, self1)" by (metis prod_cases3)
  obtain rs1 where 2: "polls n framed1 self1 = (rs1, framed', self')" "rs = r # rs1"
    using Suc.prems 1 by (auto simp: SoupConnection_poll_next_def split: prod.splits)
  note item = poll_framed_item [OF 1 Suc.prems(1,2)] and seq = poll_advances [OF 1]
  show ?case
  proof (cases "item_results framed")
    case Nil
    then have "r = Pending" "framed1 = []" using item by auto
    then show ?thesis using Suc.IH [OF _ _ 2(1)] item seq Nil 2(2) by (simp add: messages_in_def)
  next
    case (Cons x xs)
    then have r: "r = Ready x" "item_results framed1 = xs" using item by auto
    have "unat (expected_sequence self1) = min (unat (expected_sequence self) + messages_in [x]) (2 ^ 64 - 1)"
      using seq r(1) unat_u64_less [of "expected_sequence self"]
      by (cases x rule: is_message.cases) (auto simp: messages_in_def unat_saturating_add)
    moreover have "messages_in (x # take n xs) = messages_in [x] + messages_in (take n xs)"
      by (simp add: messages_in_def)
    ultimately show ?thesis using Suc.IH [OF _ _ 2(1)] item r Cons 2(2) by simp
  qed
qed

lemma polls_ended: "session_ended self \<Longrightarrow> polls n framed self = (replicate n (Ready None), framed, self)"
  by (induction n) (simp_all add: SoupConnection_poll_next_def)

lemma poll_framed_append:
  "poll_framed framed self = (r, framed', self') \<Longrightarrow>
    poll_framed (framed @ tail) self = (if r = Pending then poll_framed tail self' else (r, framed' @ tail, self'))"
proof (induction framed self rule: poll_framed.induct)
  case (4 packet framed self)
  then show ?case by (cases packet) (auto split: prod.splits)
qed auto

lemma polls_append:
  assumes "\<forall>i \<in> set framed. \<not> ends_session i" "\<not> session_ended self" "n \<le> length (item_results framed)"
    and "polls n framed self = (rs, framed', self')"
  shows "polls n (framed @ tail) self = (rs, framed' @ tail, self')"
  using assms
proof (induction n arbitrary: framed self rs)
  case (Suc n)
  obtain r framed1 self1 where 1: "poll_framed framed self = (r, framed1, self1)" by (metis prod_cases3)
  obtain rs1 where 2: "polls n framed1 self1 = (rs1, framed', self')" "rs = r # rs1"
    using Suc.prems 1 by (auto simp: SoupConnection_poll_next_def split: prod.splits)
  note item = poll_framed_item [OF 1 Suc.prems(1,2)]
  then obtain x xs where x: "r = Ready x" "item_results framed1 = xs" "item_results framed = x # xs"
    using Suc.prems(3) by (cases "item_results framed") auto
  have "polls n (framed1 @ tail) self1 = (rs1, framed' @ tail, self')"
    using Suc.IH [OF _ _ _ 2(1)] item x Suc.prems(3) by simp
  moreover have "SoupConnection_poll_next (framed @ tail) self = (r, framed1 @ tail, self1)"
    using poll_framed_append [OF 1, of tail] x(1) Suc.prems(2) by (simp add: SoupConnection_poll_next_def)
  ultimately show ?case using 2(2) by simp
qed simp

lemma polls_keep_open:
  assumes "\<forall>i \<in> set framed. \<not> ends_session i" "\<not> session_ended self" "polls n framed self = (rs, framed', self')"
  shows "\<forall>i \<in> set framed'. \<not> ends_session i"
  using assms
proof (induction n arbitrary: framed self rs)
  case (Suc n)
  obtain r framed1 self1 where 1: "poll_framed framed self = (r, framed1, self1)" by (metis prod_cases3)
  then show ?case using Suc poll_framed_item [OF 1 Suc.prems(1,2)]
    by (auto simp: SoupConnection_poll_next_def split: prod.splits)
qed simp

section \<open>The handshake\<close>

definition accepted_connection :: "LoginAccepted \<Rightarrow> SoupConnection" where
  "accepted_connection a = \<lparr>session = LoginAccepted.session a, expected_sequence = sequence a, session_ended = False,
     debug_tx = None, send_timeout = DEFAULT_SEND_TIMEOUT\<rparr>"

fun late_debug :: "nat \<Rightarrow> timed_item \<Rightarrow> bool" where
  "late_debug timeout (w, Some (Inr (Debug _))) \<longleftrightarrow> w \<le> timeout"
| "late_debug timeout _ \<longleftrightarrow> False"

lemma await_reply_debugs:
  "list_all (late_debug timeout) dbg \<Longrightarrow> await_reply timeout req (dbg @ replies) = await_reply timeout req replies"
proof (induction dbg)
  case (Cons d dbg)
  then show ?case by (cases "(timeout, d)" rule: late_debug.cases) auto
qed simp

lemma await_reply_accepted:
  "await_reply timeout req replies = Inr (conn, rest) \<Longrightarrow>
    \<exists>dbg w a. replies = dbg @ (w, Some (Inr (LoginAccepted a))) # rest
      \<and> list_all (late_debug timeout) dbg \<and> w \<le> timeout
      \<and> (req = [] \<or> str_trim (LoginAccepted.session a) = str_trim req) \<and> conn = accepted_connection a"
proof (induction timeout req replies rule: await_reply.induct)
  case (2 timeout req wait item replies)
  then have wait: "\<not> wait > timeout" by auto
  then consider (dbg) p where "item = Some (Inr (Debug p))" | (acc) a where "item = Some (Inr (LoginAccepted a))"
    using "2.prems" by (auto split: option.splits sum.splits SoupPacket.splits)
  then show ?case
  proof cases
    case (dbg p)
    have "await_reply timeout req replies = Inr (conn, rest)" using "2.prems" dbg wait by simp
    from "2.IH" [OF wait dbg refl refl this] obtain dbg' w a where "replies = dbg' @ (w, Some (Inr (LoginAccepted a))) # rest
      \<and> list_all (late_debug timeout) dbg' \<and> w \<le> timeout
      \<and> (req = [] \<or> str_trim (LoginAccepted.session a) = str_trim req) \<and> conn = accepted_connection a"
      by blast
    then show ?thesis using dbg wait by (intro exI [of _ "(wait, item) # dbg'"] exI [of _ w] exI [of _ a]) simp
  next
    case (acc a)
    then show ?thesis using "2.prems" wait
      by (intro exI [of _ "[]"] exI [of _ wait] exI [of _ a]) (auto simp: accepted_connection_def split: if_splits)
  qed
qed simp

lemma login_accepts_iff:
  "login_with_timeout sent replies req timeout = Inr (conn, rest)
     \<longleftrightarrow> sent = Some (Inr ())
       \<and> (\<exists>dbg w a. replies = dbg @ (w, Some (Inr (LoginAccepted a))) # rest
            \<and> list_all (late_debug timeout) dbg \<and> w \<le> timeout
            \<and> (req = [] \<or> str_trim (LoginAccepted.session a) = str_trim req)
            \<and> conn = accepted_connection a)"
  (is "?l \<longleftrightarrow> sent = Some (Inr ()) \<and> (\<exists>dbg w a. ?r dbg w a)")
proof
  assume ?l
  then have "sent = Some (Inr ()) \<and> await_reply timeout req replies = Inr (conn, rest)"
    unfolding login_with_timeout_def by (cases sent) (simp_all split: sum.splits)
  then show "sent = Some (Inr ()) \<and> (\<exists>dbg w a. ?r dbg w a)" using await_reply_accepted by blast
next
  assume "sent = Some (Inr ()) \<and> (\<exists>dbg w a. ?r dbg w a)"
  then obtain dbg w a where sent: "sent = Some (Inr ())" and r: "?r dbg w a" by blast
  from r have "await_reply timeout req replies = await_reply timeout req ((w, Some (Inr (LoginAccepted a))) # rest)"
    using await_reply_debugs by simp
  also have "\<dots> = Inr (accepted_connection a, rest)" using r by (simp add: accepted_connection_def)
  finally show ?l using sent r by (simp add: login_with_timeout_def)
qed

lemma login_unbounded:
  "\<exists>replies conn. bound < sum_list (map fst replies)
    \<and> login_with_timeout (Some (Inr ())) replies [] (Suc t) = Inr (conn, [])"
proof -
  define dbg :: "timed_item list" where "dbg = replicate (Suc bound) (Suc t, Some (Inr (Debug [])))"
  define a where "a = \<lparr>LoginAccepted.session = [], sequence = 1 :: u64\<rparr>"
  have "list_all (late_debug (Suc t)) dbg" by (simp add: dbg_def list_all_iff)
  then have "login_with_timeout (Some (Inr ())) (dbg @ [(0, Some (Inr (LoginAccepted a)))]) [] (Suc t)
      = Inr (accepted_connection a, [])"
    unfolding login_accepts_iff by blast
  moreover have "bound < sum_list (map fst (dbg @ [(0, Some (Inr (LoginAccepted a)))]))"
    by (simp add: dbg_def sum_list_replicate)
  ultimately show ?thesis by blast
qed

lemma session_stream:
  assumes "\<forall>i \<in> set framed. \<not> ends_session i" "\<not> session_ended self"
  defines "rs \<equiv> item_results framed"
  shows "\<exists>self'. polls (length rs + Suc k) (framed @ Some (Inr EndOfSession) # later) self
      = (map Ready rs @ Ready (Some (Inl SessionEnded)) # replicate k (Ready None), later, self')
    \<and> unat (expected_sequence self') = min (unat (expected_sequence self) + messages_in rs) (2 ^ 64 - 1)
    \<and> session_ended self'"
proof -
  let ?z = "Some (Inr EndOfSession) # later"
  obtain xs framed1 self1 where 1: "polls (length rs) framed self = (xs, framed1, self1)" by (metis prod_cases3)
  note o = polls_open [OF assms(1,2) 1] and a = polls_append [OF assms(1,2) _ 1, of ?z]
  have all: "polls (length rs) (framed @ ?z) self = (map Ready rs, framed1 @ ?z, self1)"
    using o a by (simp add: rs_def)
  have "item_results framed1 = []" using o by (simp add: rs_def)
  moreover obtain r framed2 self2 where "poll_framed framed1 self1 = (r, framed2, self2)" by (metis prod_cases3)
  ultimately have 2: "poll_framed framed1 self1 = (Pending, [], self2)"
    using poll_framed_item [of framed1 self1 r framed2 self2] polls_keep_open [OF assms(1,2) 1] o by simp
  define self' where "self' = self2\<lparr>session_ended := True\<rparr>"
  have "SoupConnection_poll_next (framed1 @ ?z) self1 = (Ready (Some (Inl SessionEnded)), later, self')"
    using o poll_framed_append [OF 2, of ?z] by (simp add: SoupConnection_poll_next_def self'_def)
  then have zs: "polls (Suc k) (framed1 @ ?z) self1 = (Ready (Some (Inl SessionEnded)) # replicate k (Ready None), later, self')"
    by (simp add: polls_ended self'_def)
  have "polls (length rs + Suc k) (framed @ ?z) self
      = (map Ready rs @ Ready (Some (Inl SessionEnded)) # replicate k (Ready None), later, self')"
    unfolding polls_add all prod.case zs by (rule refl)
  moreover have "expected_sequence self' = expected_sequence self1" "session_ended self'"
    using poll_advances [OF 2] by (simp_all add: self'_def)
  moreover have "unat (expected_sequence self1) = min (unat (expected_sequence self) + messages_in rs) (2 ^ 64 - 1)"
    using o by (simp add: rs_def)
  ultimately show ?thesis by metis
qed

section \<open>Properties\<close>

text \<open>C25: The stream of a session: every packet gives one item, in order, heartbeats and debug packets
  none; the end-of-session packet is reported once as an error and every later poll gives the end
  of the stream, whatever still arrives.  The counter the client resumes from has moved by the number
  of messages handed out, up to the largest number, and by nothing else.\<close>

theorem soup_session_stream:
  assumes "\<forall>i \<in> set framed. \<not> ends_session i" "\<not> session_ended self"
  defines "rs \<equiv> item_results framed"
  shows "\<exists>self'. polls (length rs + Suc k) (framed @ Some (Inr EndOfSession) # later) self
      = (map Ready rs @ Ready (Some (Inl SessionEnded)) # replicate k (Ready None), later, self')
    \<and> unat (expected_sequence self') = min (unat (expected_sequence self) + messages_in rs) (2 ^ 64 - 1)
    \<and> session_ended self'"
  unfolding rs_def using assms(1,2) by (rule session_stream)

theorem soup_session_stream_witness:
  "\<exists>self'. polls (1 + Suc 1) [Some (Inr ServerHeartbeat), Some (Inr (SequencedData (Message_wire sample_add))),
        Some (Inr EndOfSession)] \<lparr>session = [], expected_sequence = 7, session_ended = False, debug_tx = None, send_timeout = 0\<rparr>
      = ([Ready (Some (Inr sample_add)), Ready (Some (Inl SessionEnded)), Ready None], [], self')
    \<and> unat (expected_sequence self') = 8 \<and> session_ended self'"
  using soup_session_stream [of "[Some (Inr ServerHeartbeat), Some (Inr (SequencedData (Message_wire sample_add)))]"
      "\<lparr>session = [], expected_sequence = 7, session_ended = False, debug_tx = None, send_timeout = 0\<rparr>" 1 "[]"]
    Message_decode_wire [OF sample_add_ok(1), of "[]"]
  by (simp add: messages_in_def)

text \<open>C26: The handshake succeeds exactly when, after debug packets, the server accepts the login for the
  session asked for, and every reply came within the timeout; the connection then expects the sequence
  number of the server.  The timeout holds for each reply, not for the handshake: with debug packets
  in between it can take longer than any bound and still succeed.\<close>

theorem soup_login_accepts:
  "(login_with_timeout sent replies req timeout = Inr (conn, rest)
     \<longleftrightarrow> sent = Some (Inr ())
       \<and> (\<exists>dbg w a. replies = dbg @ (w, Some (Inr (LoginAccepted a))) # rest
            \<and> list_all (late_debug timeout) dbg \<and> w \<le> timeout
            \<and> (req = [] \<or> str_trim (LoginAccepted.session a) = str_trim req)
            \<and> conn = accepted_connection a))
   \<and> (\<exists>replies conn. bound < sum_list (map fst replies)
        \<and> login_with_timeout (Some (Inr ())) replies [] (Suc t) = Inr (conn, []))"
  by (rule conjI [OF login_accepts_iff login_unbounded])

end
