(* ===== verification/Itch_Soup_Resilient.thy ===== *)
theory Itch_Soup_Resilient
  imports Itch_Soup_Session
begin

text \<open>
  The reconnecting SoupBinTCP client of \<open>resilient.rs\<close>.  The network is the argument \<open>connects\<close>: what
  the \<open>k\<close>-th connection attempt finds at an address, an error or a server that answers the login
  request with timed items; \<open>random\<close> is the random number generator.  The loops need not end, so
  they are partial functions; \<open>tries\<close> and \<open>slept\<close> record the attempts and the delays of a client.
\<close>

section \<open>Definitions\<close>

abbreviation SOUP_BACKOFF_MIN :: nat where "SOUP_BACKOFF_MIN \<equiv> 100 * 10 ^ 6"
abbreviation SOUP_BACKOFF_MAX :: nat where "SOUP_BACKOFF_MAX \<equiv> 30 * 10 ^ 9"
abbreviation DEFAULT_RESILIENT_LOGIN_TIMEOUT :: nat where "DEFAULT_RESILIENT_LOGIN_TIMEOUT \<equiv> 5 * 10 ^ 9"

record ResilientSoupConfig =
  addrs :: "string list"
  credentials :: SoupCredentials
  pinned_session :: "bytes option"
  initial_sequence :: u64
  max_attempts :: "u32 option"
  backoff_min :: nat
  backoff_max :: nat
  login_timeout :: nat

definition ResilientSoupConfig_new :: "string list \<Rightarrow> SoupCredentials \<Rightarrow> ResilientSoupConfig" where
  "ResilientSoupConfig_new a c =
    \<lparr>addrs = a, credentials = c, pinned_session = None, initial_sequence = 0, max_attempts = None,
     backoff_min = SOUP_BACKOFF_MIN, backoff_max = SOUP_BACKOFF_MAX,
     login_timeout = DEFAULT_RESILIENT_LOGIN_TIMEOUT\<rparr>"

record ResilientSoupClient =
  config :: ResilientSoupConfig
  next_addr :: nat
  attempt :: u32
  last_session :: "bytes option"
  next_sequence :: u64
  conn :: "(SoupConnection \<times> framed_item list) option"
  terminated :: bool
  tries :: nat
  slept :: "nat list"

text \<open>\<open>None\<close> is the panic on an empty address list.\<close>

definition ResilientSoupClient_new :: "ResilientSoupConfig \<Rightarrow> ResilientSoupClient option" where
  "ResilientSoupClient_new cfg =
    (if addrs cfg = [] then None
     else Some \<lparr>config = cfg, next_addr = 0, attempt = 0, last_session = None,
            next_sequence = initial_sequence cfg, conn = None, terminated = False, tries = 0, slept = []\<rparr>)"

fun is_fatal :: "SoupError \<Rightarrow> bool" where
  "is_fatal (SoupError.LoginRejected _) = True"
| "is_fatal (SessionMismatch _ _) = True"
| "is_fatal _ = False"

fun is_protocol :: "SoupError \<Rightarrow> bool" where
  "is_protocol (Protocol _) = True"
| "is_protocol _ = False"

definition as_millis_u64 :: "nat \<Rightarrow> u64" where
  "as_millis_u64 ms = (if ms < 2 ^ 64 then of_nat ms else - 1)"

definition checked_shl :: "u64 \<Rightarrow> u32 \<Rightarrow> u64 option" where
  "checked_shl v n = (if unat n < 64 then Some (push_bit (unat n) v) else None)"

definition backoff_delay :: "(u64 \<Rightarrow> u64 \<Rightarrow> u64) \<Rightarrow> ResilientSoupClient \<Rightarrow> nat" where
  "backoff_delay random_range self =
    (let cfg = config self;
         min_ms = as_millis_u64 (max (backoff_min cfg div 10 ^ 6) 1);
         max_ms = max (as_millis_u64 (backoff_max cfg div 10 ^ 6)) min_ms;
         exp = min (attempt self) 30;
         upper_ms = min (case checked_shl min_ms exp of Some v \<Rightarrow> v | None \<Rightarrow> - 1) max_ms;
         chosen = (if upper_ms \<le> min_ms then min_ms else random_range min_ms upper_ms)
     in unat chosen * 10 ^ 6)"

type_synonym server = "SoupPacket \<Rightarrow> (SoupError + unit) option \<times> timed_item list"

definition try_connect_once ::
  "(nat \<Rightarrow> string \<Rightarrow> SoupError + server) \<Rightarrow> ResilientSoupClient
    \<Rightarrow> (SoupError + SoupConnection \<times> framed_item list) \<times> ResilientSoupClient" where
  "try_connect_once connects self =
    (let cfg = config self;
         addr = addrs cfg ! next_addr self;
         k = tries self;
         self = self\<lparr>next_addr := (next_addr self + 1) mod length (addrs cfg), tries := k + 1\<rparr>
     in case connects k addr of
          Inl e \<Rightarrow> (Inl e, self)
        | Inr server \<Rightarrow>
            let req_session = (case pinned_session cfg of None \<Rightarrow> [] | Some s \<Rightarrow> s) in
            (case server (login_request (credentials cfg) req_session (next_sequence self)) of (sent, replies) \<Rightarrow>
               (case login_with_timeout sent replies req_session (login_timeout cfg) of
                  Inl e \<Rightarrow> (Inl e, self)
                | Inr (c, rest) \<Rightarrow>
                    (Inr (c, map snd rest),
                     self\<lparr>last_session := Some (SoupConnection.session c), next_sequence := expected_sequence c,
                          attempt := 0\<rparr>))))"

partial_function (option) try_connect_with_backoff ::
  "(nat \<Rightarrow> string \<Rightarrow> SoupError + server) \<Rightarrow> (nat \<Rightarrow> u64 \<Rightarrow> u64 \<Rightarrow> u64) \<Rightarrow> ResilientSoupClient
    \<Rightarrow> ((SoupError + SoupConnection \<times> framed_item list) \<times> ResilientSoupClient) option" where
  "try_connect_with_backoff connects random self =
    (case try_connect_once connects self of
       (Inr c, self) \<Rightarrow> Some (Inr c, self)
     | (Inl err, self) \<Rightarrow>
         let self = self\<lparr>attempt := saturating_add (attempt self) 1\<rparr> in
         if is_fatal err then Some (Inl err, self)
         else if (case max_attempts (config self) of Some m \<Rightarrow> attempt self \<ge> m | None \<Rightarrow> False)
         then Some (Inl err, self)
         else try_connect_with_backoff connects random
                (self\<lparr>slept := slept self @ [backoff_delay (random (tries self)) self]\<rparr>))"

text \<open>What a read makes of the result of a poll; \<open>again\<close> is the next round of its loop.\<close>

definition handle_poll ::
  "(ResilientSoupClient \<Rightarrow> ((SoupError + Message) option \<times> ResilientSoupClient) option)
    \<Rightarrow> (SoupError + Message) option \<Rightarrow> framed_item list \<Rightarrow> SoupConnection \<Rightarrow> ResilientSoupClient
    \<Rightarrow> ((SoupError + Message) option \<times> ResilientSoupClient) option" where
  "handle_poll again r framed c self =
    (let self = self\<lparr>next_sequence := expected_sequence c\<rparr> in
     (case r of
        None \<Rightarrow> again (self\<lparr>conn := None\<rparr>)
      | Some (Inl err) \<Rightarrow>
          if is_protocol err then Some (Some (Inl err), self\<lparr>conn := Some (c, framed)\<rparr>)
          else if is_fatal err then Some (Some (Inl err), self\<lparr>terminated := True, conn := None\<rparr>)
          else Some (Some (Inl err), self\<lparr>conn := None\<rparr>)
      | Some (Inr msg) \<Rightarrow> Some (Some (Inr msg), self\<lparr>conn := Some (c, framed)\<rparr>)))"

lemma handle_poll_mono [partial_function_mono]:
  assumes "\<And>s. mono_option (\<lambda>f. again f s)"
  shows "mono_option (\<lambda>f. handle_poll (again f) r framed c self)"
proof (cases r)
  case None
  then show ?thesis using assms by (simp add: handle_poll_def)
next
  case (Some x)
  then have "handle_poll f r framed c self = handle_poll g r framed c self" for f g
    by (simp add: handle_poll_def)
  then have "(\<lambda>f. handle_poll (again f) r framed c self) = (\<lambda>f. handle_poll Map.empty r framed c self)" by blast
  then show ?thesis by (simp only: option.const_mono)
qed

partial_function (option) ResilientSoupClient_next_message ::
  "(nat \<Rightarrow> string \<Rightarrow> SoupError + server) \<Rightarrow> (nat \<Rightarrow> u64 \<Rightarrow> u64 \<Rightarrow> u64) \<Rightarrow> ResilientSoupClient
    \<Rightarrow> ((SoupError + Message) option \<times> ResilientSoupClient) option" where
  "ResilientSoupClient_next_message connects random self =
    (if terminated self then Some (None, self)
     else
       case (case conn self of
               Some c \<Rightarrow> Some (Inr c, self)
             | None \<Rightarrow> try_connect_with_backoff connects random self) of
         None \<Rightarrow> None
       | Some (Inl err, self) \<Rightarrow> Some (Some (Inl err), self\<lparr>terminated := True\<rparr>)
       | Some (Inr (c, framed), self) \<Rightarrow>
           (case SoupConnection_poll_next framed c of
              (Pending, framed, c) \<Rightarrow> None
            | (Ready r, framed, c) \<Rightarrow>
                handle_poll (ResilientSoupClient_next_message connects random) r framed c self))"

section \<open>Backoff\<close>

lemma unat_push_bit_le: "unat (push_bit n v) \<le> unat v * 2 ^ n" for v :: u64
  by (simp add: unsigned_push_bit_eq take_bit_nat_less_eq_self flip: push_bit_eq_mult)

definition floor_ms :: "ResilientSoupConfig \<Rightarrow> u64" where
  "floor_ms cfg = as_millis_u64 (max (backoff_min cfg div 10 ^ 6) 1)"

definition cap_ms :: "ResilientSoupConfig \<Rightarrow> u64" where
  "cap_ms cfg = max (as_millis_u64 (backoff_max cfg div 10 ^ 6)) (floor_ms cfg)"

text \<open>The delay lies between the floor and the cap, and at most doubles with every failed attempt.\<close>

lemma backoff_bounds:
  assumes "\<And>lo hi. lo \<le> hi \<Longrightarrow> lo \<le> rnd lo hi \<and> rnd lo hi \<le> hi"
  shows "unat (floor_ms (config self)) * 10 ^ 6 \<le> backoff_delay rnd self"
    and "backoff_delay rnd self \<le> unat (cap_ms (config self)) * 10 ^ 6"
    and "backoff_delay rnd self \<le> unat (floor_ms (config self)) * 2 ^ unat (attempt self) * 10 ^ 6"
proof -
  define lo where "lo = floor_ms (config self)"
  define hi where "hi = min (case checked_shl lo (min (attempt self) 30) of Some v \<Rightarrow> v | None \<Rightarrow> - 1) (cap_ms (config self))"
  define chosen where "chosen = (if hi \<le> lo then lo else rnd lo hi)"
  have delay: "backoff_delay rnd self = unat chosen * 10 ^ 6"
    by (simp add: backoff_delay_def Let_def chosen_def hi_def lo_def floor_ms_def cap_ms_def)
  have chosen: "lo \<le> chosen" "chosen \<le> max lo hi"
    using assms [of lo hi] by (auto simp: chosen_def)
  have exp: "unat (min (attempt self) 30) = min (unat (attempt self)) 30"
    by (simp add: min_def word_le_nat_alt)
  have "lo \<le> cap_ms (config self)" by (simp add: cap_ms_def lo_def)
  moreover have "hi \<le> cap_ms (config self)" by (simp add: hi_def)
  ultimately have "chosen \<le> cap_ms (config self)" using order_trans [OF chosen(2)] by simp
  have "hi \<le> push_bit (min (unat (attempt self)) 30) lo" by (simp add: hi_def checked_shl_def exp)
  then have "unat hi \<le> unat lo * 2 ^ min (unat (attempt self)) 30"
    using unat_push_bit_le [of "min (unat (attempt self)) 30" lo] by (simp add: word_le_nat_alt)
  also have "\<dots> \<le> unat lo * 2 ^ unat (attempt self)" by (intro mult_left_mono power_increasing) simp_all
  finally have "unat (max lo hi) \<le> unat lo * 2 ^ unat (attempt self)" by (simp add: max_def)
  then have "unat chosen \<le> unat lo * 2 ^ unat (attempt self)"
    using chosen(2) by (simp add: word_le_nat_alt)
  with chosen(1) \<open>chosen \<le> cap_ms (config self)\<close>
  show "unat (floor_ms (config self)) * 10 ^ 6 \<le> backoff_delay rnd self"
    "backoff_delay rnd self \<le> unat (cap_ms (config self)) * 10 ^ 6"
    "backoff_delay rnd self \<le> unat (floor_ms (config self)) * 2 ^ unat (attempt self) * 10 ^ 6"
    by (simp_all add: delay lo_def word_le_nat_alt)
qed

lemma try_once_fields:
  assumes "try_connect_once connects self = (r, self')"
  shows "config self' = config self" "tries self' = Suc (tries self)" "slept self' = slept self"
    "terminated self' = terminated self" "conn self' = conn self"
    "r = Inl e \<Longrightarrow> attempt self' = attempt self \<and> next_sequence self' = next_sequence self"
  using assms by (auto simp: try_connect_once_def Let_def split: sum.splits prod.splits)

lemma connect_budget:
  assumes "max_attempts (config self) = Some m"
    and "\<And>k lo hi. lo \<le> hi \<Longrightarrow> lo \<le> random k lo hi \<and> random k lo hi \<le> hi"
  shows "\<exists>r self' ds. try_connect_with_backoff connects random self = Some (r, self')
    \<and> tries self' \<le> tries self + max 1 (unat m - unat (attempt self))
    \<and> slept self' = slept self @ ds
    \<and> (\<forall>d \<in> set ds. unat (floor_ms (config self)) * 10 ^ 6 \<le> d \<and> d \<le> unat (cap_ms (config self)) * 10 ^ 6)"
  using assms(1)
proof (induction "unat m - unat (attempt self)" arbitrary: self rule: less_induct)
  case less
  obtain r self1 where once: "try_connect_once connects self = (r, self1)" by force
  note f = try_once_fields [OF once]
  show ?case
  proof (cases r)
    case (Inr c)
    then show ?thesis using once f by (subst try_connect_with_backoff.simps) (auto split: prod.splits)
  next
    case (Inl err)
    define self2 where "self2 = self1\<lparr>attempt := saturating_add (attempt self1) 1\<rparr>"
    define self3 where "self3 = self2\<lparr>slept := slept self2 @ [backoff_delay (random (tries self2)) self2]\<rparr>"
    have a: "attempt self1 = attempt self" using f(6) Inl by simp
    show ?thesis
    proof (cases "is_fatal err \<or> m \<le> attempt self2")
      case True
      then have "try_connect_with_backoff connects random self = Some (Inl err, self2)"
        using once Inl f less.prems by (subst try_connect_with_backoff.simps) (auto simp: self2_def Let_def)
      then show ?thesis using f by (auto simp: self2_def)
    next
      case False
      then have step: "try_connect_with_backoff connects random self = try_connect_with_backoff connects random self3"
        using once Inl f less.prems
        by (subst try_connect_with_backoff.simps) (simp add: self2_def self3_def Let_def)
      have grow: "unat (attempt self3) = Suc (unat (attempt self))" "unat (attempt self3) < unat m"
        using False unat_saturating_add [of "attempt self" 1] unsigned_less [of m, where ?'a = nat]
        by (auto simp: self3_def self2_def a word_le_nat_alt)
      have "unat m - unat (attempt self3) < unat m - unat (attempt self)" using grow by simp
      from less.hyps [OF this] obtain r self' ds where
        *: "try_connect_with_backoff connects random self3 = Some (r, self')"
        "tries self' \<le> tries self3 + max 1 (unat m - unat (attempt self3))"
        "slept self' = slept self3 @ ds"
        "\<forall>d \<in> set ds. unat (floor_ms (config self3)) * 10 ^ 6 \<le> d \<and> d \<le> unat (cap_ms (config self3)) * 10 ^ 6"
        using less.prems f by (auto simp: self3_def self2_def)
      have "config self3 = config self" "slept self3 = slept self @ [backoff_delay (random (tries self2)) self2]"
        "tries self3 = Suc (tries self)" "config self2 = config self"
        using f by (simp_all add: self3_def self2_def)
      with * step grow backoff_bounds(1,2) [of "random (tries self2)" self2] assms(2) show ?thesis
        by (intro exI [of _ r] exI [of _ self'] exI [of _ "backoff_delay (random (tries self2)) self2 # ds"]) auto
    qed
  qed
qed

section \<open>Resuming\<close>

text \<open>Items that continue a journal at a number, up to whatever ends the connection.\<close>

fun serves :: "(u64 \<Rightarrow> Message) \<Rightarrow> u64 \<Rightarrow> (SoupError + Message) option list \<Rightarrow> bool" where
  "serves journal n [] \<longleftrightarrow> True"
| "serves journal n (Some (Inr m) # rs) \<longleftrightarrow> m = journal n \<and> n \<noteq> - 1 \<and> serves journal (n + 1) rs"
| "serves journal n (Some (Inl (Protocol _)) # rs) \<longleftrightarrow> False"
| "serves journal n (_ # rs) \<longleftrightarrow> True"

text \<open>Servers that resume the journal at the number a login asks for.\<close>

definition resuming :: "(u64 \<Rightarrow> Message) \<Rightarrow> (nat \<Rightarrow> string \<Rightarrow> SoupError + server) \<Rightarrow> bool" where
  "resuming journal connects \<longleftrightarrow>
    (\<forall>k addr server creds sess n timeout sent replies c rest.
       connects k addr = Inr server \<longrightarrow> n \<noteq> 0
       \<longrightarrow> server (login_request creds sess n) = (sent, replies)
       \<longrightarrow> login_with_timeout sent replies sess timeout = Inr (c, rest)
       \<longrightarrow> expected_sequence c = n \<and> serves journal n (item_results (map snd rest)))"

definition at_feed :: "(u64 \<Rightarrow> Message) \<Rightarrow> u64 \<Rightarrow> SoupConnection \<times> framed_item list \<Rightarrow> bool" where
  "at_feed journal n cf \<longleftrightarrow> expected_sequence (fst cf) = n \<and> \<not> session_ended (fst cf) \<and> serves journal n (item_results (snd cf))"

definition resume_inv :: "(u64 \<Rightarrow> Message) \<Rightarrow> ResilientSoupClient \<Rightarrow> bool" where
  "resume_inv journal self \<longleftrightarrow> next_sequence self \<noteq> 0 \<and> (\<forall>cf. conn self = Some cf \<longrightarrow> at_feed journal (next_sequence self) cf)"

lemma login_opens: "login_with_timeout sent replies s timeout = Inr (c, rest) \<Longrightarrow> \<not> session_ended c"
  unfolding login_accepts_iff by (auto simp: accepted_connection_def)

lemma try_once_resumes:
  assumes "resuming journal connects" "next_sequence self \<noteq> 0" "try_connect_once connects self = (r, self')"
  shows "next_sequence self' = next_sequence self" "r = Inr cf \<Longrightarrow> at_feed journal (next_sequence self) cf"
proof -
  have *: "next_sequence self' = next_sequence self \<and> (\<forall>cf. r = Inr cf \<longrightarrow> at_feed journal (next_sequence self) cf)"
    using assms(3) assms(1) [unfolded resuming_def, rule_format, OF _ assms(2)]
    by (auto simp: try_connect_once_def Let_def at_feed_def login_opens split: sum.splits prod.splits)
  then show "next_sequence self' = next_sequence self" "r = Inr cf \<Longrightarrow> at_feed journal (next_sequence self) cf" by auto
qed

lemma connect_resumes:
  assumes "resuming journal connects" "next_sequence self \<noteq> 0"
    and "try_connect_with_backoff connects random self = Some (r, self')"
  shows "next_sequence self' = next_sequence self \<and> conn self' = conn self
    \<and> (\<forall>cf. r = Inr cf \<longrightarrow> at_feed journal (next_sequence self) cf)"
proof -
  let ?P = "\<lambda>connects random self y. resuming journal connects \<longrightarrow> next_sequence self \<noteq> 0 \<longrightarrow>
    next_sequence (snd y) = next_sequence self \<and> conn (snd y) = conn self
    \<and> (\<forall>cf. fst y = Inr cf \<longrightarrow> at_feed journal (next_sequence self) cf)"
  have "?P connects random self (r, self')"
  proof (rule try_connect_with_backoff.raw_induct [of ?P, OF _ assms(3)])
    fix f connects random self y
    assume IH: "\<And>connects random self y. f connects random self = Some y \<Longrightarrow> ?P connects random self y"
      and body: "(case try_connect_once connects self of
         (Inl err, self) \<Rightarrow>
           let self = self\<lparr>attempt := saturating_add (attempt self) 1\<rparr> in
           if is_fatal err then Some (Inl err, self)
           else if (case max_attempts (config self) of None \<Rightarrow> False | Some m \<Rightarrow> attempt self \<ge> m)
           then Some (Inl err, self)
           else f connects random (self\<lparr>slept := slept self @ [backoff_delay (random (tries self)) self]\<rparr>)
       | (Inr c, self) \<Rightarrow> Some (Inr c, self)) = Some y"
    obtain r1 self1 where once: "try_connect_once connects self = (r1, self1)" by force
    note keep = try_once_fields(5) [OF once] and res = try_once_resumes [OF _ _ once]
    show "?P connects random self y"
    proof (intro impI)
      assume honest: "resuming journal connects" "next_sequence self \<noteq> 0"
      note n = res(1) [OF honest]
      show "next_sequence (snd y) = next_sequence self \<and> conn (snd y) = conn self
        \<and> (\<forall>cf. fst y = Inr cf \<longrightarrow> at_feed journal (next_sequence self) cf)"
      proof (cases r1)
        case (Inr c)
        then show ?thesis using body once keep n res(2) [OF honest] by auto
      next
        case (Inl err)
        then show ?thesis using body once keep n honest by (auto simp: Let_def dest!: IH split: if_splits)
      qed
    qed
  qed
  then show ?thesis using assms by simp
qed

text \<open>What one read does to a client that stands at a number of the journal.\<close>

definition reads_on :: "(u64 \<Rightarrow> Message) \<Rightarrow> ResilientSoupClient \<Rightarrow> (SoupError + Message) option \<times> ResilientSoupClient \<Rightarrow> bool" where
  "reads_on journal self y \<longleftrightarrow> resume_inv journal (snd y)
    \<and> (case fst y of
         Some (Inr m) \<Rightarrow> m = journal (next_sequence self) \<and> next_sequence self \<noteq> - 1
           \<and> next_sequence (snd y) = next_sequence self + 1
       | _ \<Rightarrow> next_sequence (snd y) = next_sequence self)"

lemma reads_on_cong: "next_sequence a = next_sequence b \<Longrightarrow> reads_on journal a y = reads_on journal b y"
  unfolding reads_on_def by (erule subst) (rule refl)

text \<open>Reading from an open connection: the result and the connection left, and what the client keeps.\<close>

lemma poll_at_feed:
  assumes "at_feed journal n (c, framed)" "SoupConnection_poll_next framed c = (Ready r, framed', c')"
  shows "r = None \<Longrightarrow> expected_sequence c' = n"
    and "r = Some (Inl e) \<Longrightarrow> \<not> is_protocol e \<and> expected_sequence c' = n"
    and "r = Some (Inr m) \<Longrightarrow> m = journal n \<and> n \<noteq> - 1 \<and> at_feed journal (n + 1) (c', framed')"
proof -
  have poll: "poll_framed framed c = (Ready r, framed', c')" and n: "expected_sequence c = n" "\<not> session_ended c"
    using assms by (auto simp: SoupConnection_poll_next_def at_feed_def)
  note first = poll_framed_first [OF poll] and adv = poll_advances [OF poll]
  obtain rs where rs: "item_results framed = r # rs" "item_results framed' = rs"
    using first by (cases "item_results framed") auto
  have "serves journal n (r # rs)" using assms(1) rs by (simp add: at_feed_def)
  then show "r = None \<Longrightarrow> expected_sequence c' = n"
    and "r = Some (Inl e) \<Longrightarrow> \<not> is_protocol e \<and> expected_sequence c' = n"
    and "r = Some (Inr m) \<Longrightarrow> m = journal n \<and> n \<noteq> - 1 \<and> at_feed journal (n + 1) (c', framed')"
    using first adv n rs by (auto simp: at_feed_def saturating_Suc_u64 elim: is_protocol.elims)
qed

lemma u64_next: "n \<noteq> - 1 \<Longrightarrow> unat (n + 1) = Suc (unat n) \<and> n + 1 \<noteq> 0" for n :: u64
  using not_max_u64 [of n] unat_Suc_u64 [of n] by (auto simp: unat_eq_zero [symmetric] simp del: unat_eq_zero)

lemma handle_poll_reads_on:
  assumes "at_feed journal n (c, framed)" "SoupConnection_poll_next framed c = (Ready r, framed', c')"
    and "n \<noteq> 0" "next_sequence self = n" "next_sequence self1 = n"
    and again: "\<And>self y. again self = Some y \<Longrightarrow> resume_inv journal self \<Longrightarrow> reads_on journal self y"
    and read: "handle_poll again r framed' c' self1 = Some y"
  shows "reads_on journal self y"
proof -
  note at = poll_at_feed [OF assms(1,2)]
  define self2 where "self2 = self1\<lparr>next_sequence := expected_sequence c'\<rparr>"
  consider "r = None" | e where "r = Some (Inl e)" | m where "r = Some (Inr m)"
    by (cases r) (auto elim: sumE)
  then show ?thesis
  proof cases
    case 1
    then have "again (self2\<lparr>conn := None\<rparr>) = Some y" using read by (simp add: handle_poll_def self2_def)
    moreover have "resume_inv journal (self2\<lparr>conn := None\<rparr>)" "next_sequence (self2\<lparr>conn := None\<rparr>) = next_sequence self"
      using at(1) [OF 1] assms(3-5) by (simp_all add: resume_inv_def self2_def)
    ultimately show ?thesis using again reads_on_cong by blast
  next
    case (2 e)
    then show ?thesis using read at(2) [OF 2] assms(3-5)
      by (auto simp: handle_poll_def Let_def reads_on_def resume_inv_def split: if_splits)
  next
    case (3 m)
    then show ?thesis using read at(3) [OF 3] assms(3-5) u64_next [of n]
      by (auto simp: handle_poll_def Let_def reads_on_def resume_inv_def at_feed_def)
  qed
qed

lemma next_message_reads_on:
  assumes "resuming journal connects" "resume_inv journal self"
    and "ResilientSoupClient_next_message connects random self = Some y"
  shows "reads_on journal self y"
proof -
  let ?P = "\<lambda>connects random self y. resuming journal connects \<longrightarrow> resume_inv journal self \<longrightarrow> reads_on journal self y"
  have "?P connects random self y"
  proof (rule ResilientSoupClient_next_message.raw_induct [of ?P, OF _ assms(3)], intro impI)
    fix f connects random self y
    assume IH: "\<And>connects random self y. f connects random self = Some y \<Longrightarrow> ?P connects random self y"
      and honest: "resuming journal connects" and inv: "resume_inv journal self"
      and body: "(if terminated self then Some (None, self)
       else case (case conn self of None \<Rightarrow> try_connect_with_backoff connects random self | Some c \<Rightarrow> Some (Inr c, self)) of
           None \<Rightarrow> None
         | Some (Inl err, self) \<Rightarrow> Some (Some (Inl err), self\<lparr>terminated := True\<rparr>)
         | Some (Inr (c, framed), self) \<Rightarrow>
             (case SoupConnection_poll_next framed c of
                (Ready r, framed, c) \<Rightarrow> handle_poll (f connects random) r framed c self
              | (Pending, framed, c) \<Rightarrow> None)) = Some y"
    show "reads_on journal self y"
    proof (cases "terminated self")
      case True
      then show ?thesis using body inv by (auto simp: reads_on_def)
    next
      case False
      define opened where "opened = (case conn self of None \<Rightarrow> try_connect_with_backoff connects random self
        | Some c \<Rightarrow> Some (Inr c, self))"
      obtain r0 self1 where opened: "opened = Some (r0, self1)"
        using body False by (cases opened) (auto simp: opened_def split: prod.splits)
      have start: "next_sequence self1 = next_sequence self" "next_sequence self \<noteq> 0"
        "conn self1 = conn self" "\<And>cf. r0 = Inr cf \<Longrightarrow> at_feed journal (next_sequence self) cf"
        using opened inv connect_resumes [OF honest, of self random r0 self1]
        by (auto simp: opened_def resume_inv_def split: option.splits)
      show ?thesis
      proof (cases r0)
        case (Inl err)
        then have "y = (Some (Inl err), self1\<lparr>terminated := True\<rparr>)"
          using body False opened by (simp add: opened_def)
        then show ?thesis using start inv by (simp add: reads_on_def resume_inv_def)
      next
        case (Inr cf)
        obtain c framed where cf: "cf = (c, framed)" by force
        obtain p framed' c' where poll: "SoupConnection_poll_next framed c = (p, framed', c')" by (metis prod_cases3)
        show ?thesis
        proof (cases p)
          case Pending
          then show ?thesis using body False opened Inr cf poll by (simp add: opened_def)
        next
          case (Ready r)
          have "handle_poll (f connects random) r framed' c' self1 = Some y"
            using body False opened Inr cf poll Ready by (simp add: opened_def)
          then show ?thesis
            using handle_poll_reads_on [OF start(4) [OF Inr, unfolded cf] poll [unfolded Ready]] start IH honest by blast
        qed
      qed
    qed
  qed
  then show ?thesis using assms by simp
qed

text \<open>Several reads in a row, and the messages among their results.\<close>

fun next_messages ::
  "nat \<Rightarrow> (nat \<Rightarrow> string \<Rightarrow> SoupError + server) \<Rightarrow> (nat \<Rightarrow> u64 \<Rightarrow> u64 \<Rightarrow> u64) \<Rightarrow> ResilientSoupClient
    \<Rightarrow> ((SoupError + Message) option list \<times> ResilientSoupClient) option" where
  "next_messages 0 connects random self = Some ([], self)"
| "next_messages (Suc n) connects random self =
    (case ResilientSoupClient_next_message connects random self of
       None \<Rightarrow> None
     | Some (r, self) \<Rightarrow>
         (case next_messages n connects random self of
            None \<Rightarrow> None
          | Some (rs, self) \<Rightarrow> Some (r # rs, self)))"

fun messages_of :: "(SoupError + Message) option list \<Rightarrow> Message list" where
  "messages_of [] = []"
| "messages_of (Some (Inr m) # rs) = m # messages_of rs"
| "messages_of (_ # rs) = messages_of rs"

lemma next_messages_resume:
  assumes "resuming journal connects" "resume_inv journal self"
    and "next_messages n connects random self = Some (rs, self')"
  shows "messages_of rs = map (\<lambda>i. journal (next_sequence self + of_nat i)) [0..<length (messages_of rs)]
    \<and> unat (next_sequence self') = unat (next_sequence self) + length (messages_of rs)"
  using assms(2,3)
proof (induction n arbitrary: self rs)
  case (Suc n)
  obtain r self1 rs1 where 1: "ResilientSoupClient_next_message connects random self = Some (r, self1)"
    "next_messages n connects random self1 = Some (rs1, self')" "rs = r # rs1"
    using Suc.prems(2) by (auto split: option.splits)
  note on = next_message_reads_on [OF assms(1) Suc.prems(1) 1(1)]
  then have "resume_inv journal self1" by (simp add: reads_on_def)
  note IH = Suc.IH [OF this 1(2)]
  show ?case
  proof (cases "\<exists>m. r = Some (Inr m)")
    case True
    then obtain m where r: "r = Some (Inr m)" by blast
    then have m: "m = journal (next_sequence self)" "next_sequence self1 = next_sequence self + 1"
      "unat (next_sequence self1) = Suc (unat (next_sequence self))"
      using on u64_next [of "next_sequence self"] by (auto simp: reads_on_def)
    have "map (\<lambda>i. journal (next_sequence self + of_nat i)) [0..<Suc k]
        = journal (next_sequence self) # map (\<lambda>i. journal (next_sequence self1 + of_nat i)) [0..<k]" for k
      by (simp add: map_upt_Suc m ac_simps del: upt_Suc)
    then show ?thesis using IH r m 1(3) by simp
  next
    case False
    then have "next_sequence self1 = next_sequence self" "messages_of rs = messages_of rs1"
      using on 1(3) by (auto simp: reads_on_def split: option.splits sum.splits)
    then show ?thesis using IH by simp
  qed
qed simp

section \<open>Progress\<close>

text \<open>What an attempt finds at an address: an error, or an accepted connection with what it will yield.\<close>

definition opened ::
  "(nat \<Rightarrow> string \<Rightarrow> SoupError + server) \<Rightarrow> ResilientSoupConfig \<Rightarrow> nat \<Rightarrow> string \<Rightarrow> u64
    \<Rightarrow> SoupError + SoupConnection \<times> framed_item list" where
  "opened connects cfg k addr n = and_then (connects k addr) (\<lambda>server.
    let req_session = (case pinned_session cfg of None \<Rightarrow> [] | Some s \<Rightarrow> s);
        (sent, replies) = server (login_request (credentials cfg) req_session n)
    in map_sum id (map_prod id (map snd)) (login_with_timeout sent replies req_session (login_timeout cfg)))"

text \<open>Results that end, be it by a lost connection, and not with a fatal error.\<close>

fun closes :: "(SoupError + Message) option list \<Rightarrow> bool" where
  "closes [] \<longleftrightarrow> False"
| "closes (Some (Inr m) # rs) \<longleftrightarrow> closes rs"
| "closes (Some (Inl e) # rs) \<longleftrightarrow> \<not> is_fatal e \<and> (is_protocol e \<longrightarrow> closes rs)"
| "closes (None # rs) \<longleftrightarrow> True"

text \<open>The attempt \<open>j\<close> hands out a message wherever the client has got to and whatever address it tries.\<close>

definition good_attempt :: "(nat \<Rightarrow> string \<Rightarrow> SoupError + server) \<Rightarrow> ResilientSoupConfig \<Rightarrow> nat \<Rightarrow> bool" where
  "good_attempt connects cfg j \<longleftrightarrow> (\<forall>n. \<forall>addr \<in> set (addrs cfg). n \<noteq> - 1 \<longrightarrow>
    (\<exists>c items m rs. opened connects cfg j addr n = Inr (c, items) \<and> item_results items = Some (Inr m) # rs))"

text \<open>Servers that fail as they like, but never for good: no failure is fatal, every connection yields
  something or closes, and time and again an attempt succeeds and hands out a message.\<close>

definition lively :: "(nat \<Rightarrow> string \<Rightarrow> SoupError + server) \<Rightarrow> ResilientSoupConfig \<Rightarrow> bool" where
  "lively connects cfg \<longleftrightarrow>
    (\<forall>k n. \<forall>addr \<in> set (addrs cfg). case opened connects cfg k addr n of
       Inl e \<Rightarrow> \<not> is_fatal e | Inr (c, items) \<Rightarrow> closes (item_results items))
    \<and> (\<forall>k. \<exists>j \<ge> k. good_attempt connects cfg j)"

lemma lively_attempt:
  assumes "lively connects cfg" "addr \<in> set (addrs cfg)"
  shows "opened connects cfg k addr n = Inl e \<Longrightarrow> \<not> is_fatal e"
    and "opened connects cfg k addr n = Inr (c, items) \<Longrightarrow> closes (item_results items)"
proof -
  have "case opened connects cfg k addr n of Inl e \<Rightarrow> \<not> is_fatal e | Inr (c, items) \<Rightarrow> closes (item_results items)"
    using assms unfolding lively_def by blast
  then show "opened connects cfg k addr n = Inl e \<Longrightarrow> \<not> is_fatal e"
    and "opened connects cfg k addr n = Inr (c, items) \<Longrightarrow> closes (item_results items)" by simp_all
qed

lemma try_once_opened:
  "try_connect_once connects self
    = (let cfg = config self;
           self' = self\<lparr>next_addr := (next_addr self + 1) mod length (addrs cfg), tries := tries self + 1\<rparr>
       in case opened connects cfg (tries self) (addrs cfg ! next_addr self) (next_sequence self) of
            Inl e \<Rightarrow> (Inl e, self')
          | Inr (c, items) \<Rightarrow> (Inr (c, items),
              self'\<lparr>last_session := Some (SoupConnection.session c), next_sequence := expected_sequence c, attempt := 0\<rparr>))"
  by (auto simp: try_connect_once_def opened_def Let_def split: sum.splits prod.splits)

definition live_inv :: "(u64 \<Rightarrow> Message) \<Rightarrow> ResilientSoupConfig \<Rightarrow> ResilientSoupClient \<Rightarrow> bool" where
  "live_inv journal cfg self \<longleftrightarrow> resume_inv journal self \<and> config self = cfg \<and> \<not> terminated self
    \<and> next_addr self < length (addrs cfg) \<and> (\<forall>c items. conn self = Some (c, items) \<longrightarrow> closes (item_results items))"

lemma connect_live:
  assumes "resuming journal connects" "lively connects cfg" "max_attempts cfg = None" "good_attempt connects cfg j"
    and "live_inv journal cfg self" "conn self = None" "tries self \<le> j" "next_sequence self \<noteq> - 1"
  shows "\<exists>c items self'. try_connect_with_backoff connects random self = Some (Inr (c, items), self')
    \<and> live_inv journal cfg self' \<and> conn self' = None \<and> next_sequence self' = next_sequence self
    \<and> at_feed journal (next_sequence self) (c, items) \<and> closes (item_results items)
    \<and> tries self < tries self' \<and> (tries self' \<le> j \<or> (\<exists>m rs. item_results items = Some (Inr m) # rs))"
  using assms(5-8)
proof (induction "j - tries self" arbitrary: self rule: less_induct)
  case less
  let ?addr = "addrs cfg ! next_addr self" and ?n = "next_sequence self"
  obtain r self1 where once: "try_connect_once connects self = (r, self1)" by force
  note res = try_once_resumes [OF assms(1) _ once] and f = try_once_fields [OF once]
  have cfg: "config self = cfg" "?n \<noteq> 0" "?addr \<in> set (addrs cfg)"
    using less.prems(1) by (auto simp: live_inv_def resume_inv_def)
  have "0 < length (addrs cfg)" using cfg(3) by auto
  then have "next_addr self1 < length (addrs cfg)"
    using once cfg(1) by (auto simp: try_once_opened Let_def split: sum.splits prod.splits)
  then have inv1: "live_inv journal cfg self1" "conn self1 = None" "next_sequence self1 = ?n"
    using less.prems(1,2) f res(1) [OF cfg(2)] by (auto simp: live_inv_def resume_inv_def)
  have good: "\<exists>c items m rs. opened connects cfg j ?addr ?n = Inr (c, items) \<and> item_results items = Some (Inr m) # rs"
    using assms(4) cfg(3) less.prems(4) unfolding good_attempt_def by blast
  show ?case
  proof (cases r)
    case (Inr cf)
    obtain c items where cf: "cf = (c, items)" by force
    have op: "opened connects cfg (tries self) ?addr ?n = Inr (c, items)"
      using once Inr cf cfg(1) by (auto simp: try_once_opened Let_def split: sum.splits prod.splits)
    then have "closes (item_results items)" by (rule lively_attempt(2) [OF assms(2) cfg(3)])
    moreover have "tries self1 \<le> j \<or> (\<exists>m rs. item_results items = Some (Inr m) # rs)"
      using good op f(2) less.prems(3) by (cases "tries self = j") auto
    moreover have "try_connect_with_backoff connects random self = Some (Inr (c, items), self1)"
      using once Inr cf by (subst try_connect_with_backoff.simps) simp
    ultimately show ?thesis using inv1 res(2) [OF cfg(2), of "(c, items)"] Inr cf f(2) by simp
  next
    case (Inl err)
    have op: "opened connects cfg (tries self) ?addr ?n = Inl err"
      using once Inl cfg(1) by (auto simp: try_once_opened Let_def split: sum.splits prod.splits)
    then have fatal: "\<not> is_fatal err" by (rule lively_attempt(1) [OF assms(2) cfg(3)])
    have "tries self \<noteq> j" using good op by auto
    with less.prems(3) have less_j: "tries self < j" by simp
    define self2 where "self2 = self1\<lparr>attempt := saturating_add (attempt self1) 1\<rparr>"
    define self3 where "self3 = self2\<lparr>slept := slept self2 @ [backoff_delay (random (tries self2)) self2]\<rparr>"
    have step: "try_connect_with_backoff connects random self = try_connect_with_backoff connects random self3"
      using once Inl f(1) cfg(1) assms(3) fatal
      by (subst try_connect_with_backoff.simps) (simp add: self2_def self3_def Let_def)
    have self3: "live_inv journal cfg self3" "conn self3 = None" "next_sequence self3 = ?n" "tries self3 = Suc (tries self)"
      using inv1 f by (simp_all add: self3_def self2_def live_inv_def resume_inv_def)
    with less_j have "j - tries self3 < j - tries self" "tries self3 \<le> j" by simp_all
    from less.hyps [OF this(1) self3(1,2) this(2)] self3 less.prems(4) step show ?thesis by auto
  qed
qed

text \<open>A client without a connection that asks for \<open>n\<close> next and has made \<open>t\<close> attempts.\<close>

definition down :: "(u64 \<Rightarrow> Message) \<Rightarrow> ResilientSoupConfig \<Rightarrow> u64 \<Rightarrow> nat \<Rightarrow> ResilientSoupClient \<Rightarrow> bool" where
  "down journal cfg n t self \<longleftrightarrow> live_inv journal cfg self \<and> conn self = None \<and> next_sequence self = n \<and> tries self = t"

lemma poll_live:
  assumes "at_feed journal n (c, items)" "closes (item_results items)" "live_inv journal cfg self" "next_sequence self = n"
  shows "\<exists>x xs items' c' self'. item_results items = x # xs \<and> SoupConnection_poll_next items c = (Ready x, items', c')
    \<and> tries self' = tries self
    \<and> (if \<exists>m. x = Some (Inr m) then live_inv journal cfg self' else down journal cfg n (tries self) self')
    \<and> (\<forall>again. handle_poll again x items' c' self = (if x = None then again self' else Some (x, self')))"
proof -
  obtain p items' c' where poll: "SoupConnection_poll_next items c = (p, items', c')" by (metis prod_cases3)
  obtain x xs where x: "item_results items = x # xs" using assms(2) by (cases "item_results items") auto
  have "poll_framed items c = (p, items', c')" using poll assms(1) by (simp add: SoupConnection_poll_next_def at_feed_def)
  from poll_framed_first [OF this] x have p: "p = Ready x" "item_results items' = xs" by simp_all
  note at = poll_at_feed [OF assms(1) poll [unfolded p]]
  define self1 where "self1 = self\<lparr>next_sequence := expected_sequence c'\<rparr>"
  consider "x = None" | e where "x = Some (Inl e)" | m where "x = Some (Inr m)" by (cases x) (auto elim: sumE)
  then show ?thesis
  proof cases
    case 1
    then have "down journal cfg n (tries self) (self1\<lparr>conn := None\<rparr>)"
      using at(1) assms(3,4) by (auto simp: down_def live_inv_def resume_inv_def self1_def)
    then show ?thesis using x poll p 1
      by (intro exI [of _ x], intro exI [of _ xs], intro exI [of _ items'], intro exI [of _ c'],
          intro exI [of _ "self1\<lparr>conn := None\<rparr>"]) (simp add: handle_poll_def self1_def)
  next
    case (2 e)
    then have "\<not> is_fatal e" "\<not> is_protocol e" using at(2) [OF 2] assms(2) x by auto
    moreover have "down journal cfg n (tries self) (self1\<lparr>conn := None\<rparr>)"
      using at(2) [OF 2] assms(3,4) by (auto simp: down_def live_inv_def resume_inv_def self1_def)
    ultimately show ?thesis using x poll p 2 by (auto simp: handle_poll_def self1_def down_def)
  next
    case (3 m)
    then have "live_inv journal cfg (self1\<lparr>conn := Some (c', items')\<rparr>)"
      using at(3) [OF 3] assms(2-4) x p u64_next [of n] by (auto simp: live_inv_def resume_inv_def self1_def at_feed_def)
    then show ?thesis using x poll p 3 by (auto simp: handle_poll_def self1_def)
  qed
qed

text \<open>A read returns with a message, or with an error and the connection down, before or at the next good attempt.\<close>

definition read_returns ::
  "(u64 \<Rightarrow> Message) \<Rightarrow> ResilientSoupConfig \<Rightarrow> nat \<Rightarrow> ResilientSoupClient
    \<Rightarrow> ((SoupError + Message) option \<times> ResilientSoupClient) option \<Rightarrow> bool" where
  "read_returns journal cfg j self y \<longleftrightarrow> (\<exists>m self'. y = Some (Some (Inr m), self') \<and> live_inv journal cfg self')
    \<or> (\<exists>e self'. y = Some (Some (Inl e), self') \<and> down journal cfg (next_sequence self) (tries self') self'
        \<and> tries self' \<le> j \<and> tries self \<le> tries self' \<and> (conn self = None \<longrightarrow> tries self < tries self'))"

lemma read_open:
  assumes "live_inv journal cfg self" "conn self = Some (c, items)" "tries self \<le> j"
    and "\<And>self1. down journal cfg (next_sequence self) (tries self) self1
      \<Longrightarrow> read_returns journal cfg j self1 (ResilientSoupClient_next_message connects random self1)"
  shows "read_returns journal cfg j self (ResilientSoupClient_next_message connects random self)"
proof -
  have "at_feed journal (next_sequence self) (c, items)" "closes (item_results items)" "\<not> terminated self"
    using assms(1,2) by (auto simp: live_inv_def resume_inv_def)
  then obtain x xs items' c' self' where x: "SoupConnection_poll_next items c = (Ready x, items', c')" "tries self' = tries self"
    "if \<exists>m. x = Some (Inr m) then live_inv journal cfg self' else down journal cfg (next_sequence self) (tries self) self'"
    "\<And>again. handle_poll again x items' c' self = (if x = None then again self' else Some (x, self'))"
    and "\<not> terminated self"
    using poll_live [OF _ _ assms(1) refl] by blast
  then have read: "ResilientSoupClient_next_message connects random self
      = (if x = None then ResilientSoupClient_next_message connects random self' else Some (x, self'))"
    using assms(2) by (subst ResilientSoupClient_next_message.simps) simp
  consider "x = None" | e where "x = Some (Inl e)" | m where "x = Some (Inr m)" by (cases x) (auto elim: sumE)
  then show ?thesis
  proof cases
    case 1
    then have d: "down journal cfg (next_sequence self) (tries self) self'" using x(3) by simp
    from assms(4) [OF this] read 1 d assms(2) show ?thesis by (auto simp: read_returns_def down_def)
  qed (use x read assms(2,3) in \<open>auto simp: read_returns_def down_def\<close>)
qed

lemma read_down:
  assumes "resuming journal connects" "lively connects cfg" "max_attempts cfg = None" "good_attempt connects cfg j"
    and "down journal cfg n t self" "t \<le> j" "n \<noteq> - 1"
  shows "read_returns journal cfg j self (ResilientSoupClient_next_message connects random self)"
  using assms(5,6)
proof (induction "j - t" arbitrary: self t rule: less_induct)
  case less
  have self: "live_inv journal cfg self" "conn self = None" "next_sequence self = n" "tries self = t" "\<not> terminated self"
    using less.prems(1) by (auto simp: down_def live_inv_def)
  obtain c items self1 where con: "try_connect_with_backoff connects random self = Some (Inr (c, items), self1)"
    and self1: "live_inv journal cfg self1" "conn self1 = None" "next_sequence self1 = n"
      "at_feed journal n (c, items)" "closes (item_results items)" "t < tries self1"
      "tries self1 \<le> j \<or> (\<exists>m rs. item_results items = Some (Inr m) # rs)"
    using connect_live [OF assms(1-4) self(1,2), of random] self less.prems(2) assms(7) by auto
  obtain x xs items' c' self' where x: "item_results items = x # xs"
    "SoupConnection_poll_next items c = (Ready x, items', c')" "tries self' = tries self1"
    "if \<exists>m. x = Some (Inr m) then live_inv journal cfg self' else down journal cfg n (tries self1) self'"
    "\<And>again. handle_poll again x items' c' self1 = (if x = None then again self' else Some (x, self'))"
    using poll_live [OF self1(4,5,1,3)] by blast
  then have read: "ResilientSoupClient_next_message connects random self
      = (if x = None then ResilientSoupClient_next_message connects random self' else Some (x, self'))"
    using con self(2,5) by (subst ResilientSoupClient_next_message.simps) simp
  consider "x = None" | e where "x = Some (Inl e)" | m where "x = Some (Inr m)" by (cases x) (auto elim: sumE)
  then show ?case
  proof cases
    case 1
    then have d: "down journal cfg n (tries self1) self'" "tries self1 \<le> j" using x(1,4) self1(7) by auto
    have "j - tries self1 < j - t" using self1(6) d(2) by simp
    from less.hyps [OF this d] read 1 d self self1(6) show ?thesis by (auto simp: read_returns_def down_def)
  qed (use x self self1 read in \<open>auto simp: read_returns_def down_def\<close>)
qed

lemma message_comes:
  assumes "resuming journal connects" "lively connects cfg" "max_attempts cfg = None" "good_attempt connects cfg j"
    and "live_inv journal cfg self" "tries self \<le> j" "next_sequence self \<noteq> - 1"
  shows "\<exists>k rs m self'. next_messages k connects random self = Some (rs, self') \<and> messages_of rs = [m] \<and> live_inv journal cfg self'"
  using assms(5-7)
proof (induction "2 * (j - tries self) + (if conn self = None then 0 else 1)" arbitrary: self rule: less_induct)
  case less
  have "read_returns journal cfg j self (ResilientSoupClient_next_message connects random self)"
  proof (cases "conn self")
    case None
    then show ?thesis using read_down [OF assms(1-4) _ less.prems(2,3)] less.prems(1) by (simp add: down_def)
  next
    case (Some ci)
    obtain c items where "ci = (c, items)" by force
    with Some read_open [OF less.prems(1) _ less.prems(2)] read_down [OF assms(1-4) _ less.prems(2,3)] show ?thesis by blast
  qed
  then consider m self' where "ResilientSoupClient_next_message connects random self = Some (Some (Inr m), self')"
      "live_inv journal cfg self'"
    | e self' where "ResilientSoupClient_next_message connects random self = Some (Some (Inl e), self')"
      "down journal cfg (next_sequence self) (tries self') self'" "tries self' \<le> j" "tries self \<le> tries self'"
      "conn self = None \<longrightarrow> tries self < tries self'"
    unfolding read_returns_def by (elim disjE exE conjE) simp_all
  then show ?case
  proof cases
    case (1 m self')
    then have "next_messages (Suc 0) connects random self = Some ([Some (Inr m)], self')" by simp
    with 1(2) show ?thesis by (metis messages_of.simps(1,2))
  next
    case (2 e self')
    then have *: "live_inv journal cfg self'" "next_sequence self' = next_sequence self" "conn self' = None"
      by (simp_all add: down_def)
    have "2 * (j - tries self') + (if conn self' = None then 0 else 1) < 2 * (j - tries self) + (if conn self = None then 0 else 1)"
      using 2(3-5) \<open>conn self' = None\<close> by (cases "conn self") auto
    from less.hyps [OF this] * 2(3) less.prems(3) obtain k rs m self'' where
      "next_messages k connects random self' = Some (rs, self'')" "messages_of rs = [m]" "live_inv journal cfg self''" by auto
    with 2(1) have "next_messages (Suc k) connects random self = Some (Some (Inl e) # rs, self'')"
      "messages_of (Some (Inl e) # rs) = [m]" "live_inv journal cfg self''" by simp_all
    then show ?thesis by blast
  qed
qed

lemma next_messages_add:
  "next_messages k connects random self = Some (rs, self1) \<Longrightarrow> next_messages l connects random self1 = Some (rs', self2)
    \<Longrightarrow> next_messages (k + l) connects random self = Some (rs @ rs', self2)"
  by (induction k arbitrary: self rs) (auto split: option.splits prod.splits)

lemma messages_of_append: "messages_of (rs @ rs') = messages_of rs @ messages_of rs'"
  by (induction rs rule: messages_of.induct) simp_all

lemma journal_comes:
  assumes "resuming journal connects" "lively connects cfg" "max_attempts cfg = None"
    and "live_inv journal cfg self" "unat (next_sequence self) + l < 2 ^ 64"
  shows "\<exists>k rs self'. next_messages k connects random self = Some (rs, self') \<and> length (messages_of rs) = l \<and> live_inv journal cfg self'"
  using assms(4,5)
proof (induction l arbitrary: self)
  case 0
  then show ?case by (intro exI [of _ 0]) simp
next
  case (Suc l)
  have "next_sequence self \<noteq> - 1" using Suc.prems(2) unat_max_u64 by auto
  moreover obtain j where "tries self \<le> j" "good_attempt connects cfg j"
    using assms(2) unfolding lively_def by blast
  ultimately obtain k rs m self1 where 1: "next_messages k connects random self = Some (rs, self1)" "messages_of rs = [m]"
    "live_inv journal cfg self1"
    using message_comes [OF assms(1-3) _ Suc.prems(1), of j random] by blast
  have "resume_inv journal self" using Suc.prems(1) by (simp add: live_inv_def)
  from next_messages_resume [OF assms(1) this 1(1)] 1(2) Suc.prems(2) have "unat (next_sequence self1) + l < 2 ^ 64" by simp
  from Suc.IH [OF 1(3) this] obtain k' rs' self2 where "next_messages k' connects random self1 = Some (rs', self2)"
    "length (messages_of rs') = l" "live_inv journal cfg self2" by blast
  with next_messages_add [OF 1(1) this(1)] 1(2) show ?case
    by (intro exI [of _ "k + k'"], intro exI [of _ "rs @ rs'"]) (simp add: messages_of_append)
qed

text \<open>Servers that send one message and close, and a client with two addresses.\<close>

definition sample_server :: server where
  "sample_server req = (case req of
     LoginRequest r \<Rightarrow> (Some (Inr ()),
       (0, Some (Inr (LoginAccepted \<lparr>LoginAccepted.session = [], sequence = requested_sequence r\<rparr>)))
       # (if requested_sequence r = - 1 then [(1, None)] else [(1, Some (Inr (SequencedData (Message_wire sample_add)))), (2, None)]))
   | _ \<Rightarrow> (None, []))"

definition sample_config :: ResilientSoupConfig where
  "sample_config = (ResilientSoupConfig_new [''a'', ''b''] \<lparr>SoupCredentials.username = [], password = []\<rparr>)
     \<lparr>initial_sequence := 5\<rparr>"

definition sample_client :: ResilientSoupClient where
  "sample_client = \<lparr>config = sample_config, next_addr = 0, attempt = 0, last_session = None,
     next_sequence = 5, conn = None, terminated = False, tries = 0, slept = []\<rparr>"

lemma sample_wire_decodes: "Message_decode (Message_wire sample_add) = Inr sample_add"
  using Message_decode_wire [OF sample_add_ok(1), of "[]"] by simp

lemma sample_server_resumes: "resuming (\<lambda>_. sample_add) (\<lambda>k addr. Inr sample_server)"
  by (auto simp: resuming_def sample_server_def login_request_def login_with_timeout_def
      sample_wire_decodes split: if_splits)

lemma sample_opened:
  "\<exists>c. opened (\<lambda>k addr. Inr sample_server) sample_config k addr n
    = Inr (c, if n = - 1 then [None] else [Some (Inr (SequencedData (Message_wire sample_add))), None])"
  by (simp add: opened_def sample_server_def sample_config_def ResilientSoupConfig_new_def login_request_def
      login_with_timeout_def)

lemma sample_server_lively: "lively (\<lambda>k addr. Inr sample_server) sample_config"
proof -
  have "case opened (\<lambda>k addr. Inr sample_server) sample_config k addr n of
      Inl e \<Rightarrow> \<not> is_fatal e | Inr (c, items) \<Rightarrow> closes (item_results items)" for k addr n
    using sample_opened [of k addr n] by (auto simp: sample_wire_decodes)
  moreover have "good_attempt (\<lambda>k addr. Inr sample_server) sample_config k" for k
    unfolding good_attempt_def
  proof (intro allI ballI impI)
    fix n :: u64 and addr assume "n \<noteq> - 1"
    with sample_opened [of k addr n]
    show "\<exists>c items m rs. opened (\<lambda>k addr. Inr sample_server) sample_config k addr n = Inr (c, items)
      \<and> item_results items = Some (Inr m) # rs"
      by (auto simp: sample_wire_decodes)
  qed
  ultimately show ?thesis unfolding lively_def by blast
qed

section \<open>Properties\<close>

text \<open>C30: Reconnecting loses and repeats nothing: if the servers resume the journal at the number a login
  asks for, then the messages of any number of reads, over any number of reconnects to any servers,
  are the journal from the initial number on, each once and in order, and the number of the next
  login is the one behind them.  And the feed goes on: if no failure is fatal, no bound is set on
  the attempts and time and again an attempt succeeds and hands out a message, then for every length
  there are so many reads that return and hand out that much of the journal, whatever connections are
  lost in between.\<close>

theorem resilient_resume:
  assumes "resuming journal connects" "initial_sequence cfg \<noteq> 0" "ResilientSoupClient_new cfg = Some client"
  shows "(\<forall>n rs client'. next_messages n connects random client = Some (rs, client') \<longrightarrow>
      messages_of rs = map (\<lambda>i. journal (initial_sequence cfg + of_nat i)) [0..<length (messages_of rs)]
      \<and> unat (next_sequence client') = unat (initial_sequence cfg) + length (messages_of rs))
    \<and> (lively connects cfg \<and> max_attempts cfg = None \<and> unat (initial_sequence cfg) + l < 2 ^ 64 \<longrightarrow>
      (\<exists>n rs client'. next_messages n connects random client = Some (rs, client')
        \<and> messages_of rs = map (\<lambda>i. journal (initial_sequence cfg + of_nat i)) [0..<l]))"
proof -
  have client: "next_sequence client = initial_sequence cfg" "resume_inv journal client" "live_inv journal cfg client"
    using assms(2,3) by (auto simp: ResilientSoupClient_new_def resume_inv_def live_inv_def split: if_splits)
  note safe = next_messages_resume [OF assms(1) client(2), unfolded client(1)]
  have "\<exists>n rs client'. next_messages n connects random client = Some (rs, client')
      \<and> messages_of rs = map (\<lambda>i. journal (initial_sequence cfg + of_nat i)) [0..<l]"
    if "lively connects cfg" "max_attempts cfg = None" "unat (initial_sequence cfg) + l < 2 ^ 64"
    using journal_comes [OF assms(1) that(1,2) client(3), of l random] that(3) safe by (metis client(1))
  with safe show ?thesis by blast
qed

theorem resilient_resume_witness:
  "\<exists>n rs client'. next_messages n (\<lambda>k addr. Inr sample_server) (\<lambda>k lo hi. lo) sample_client
      = Some (rs, client') \<and> messages_of rs = [sample_add, sample_add, sample_add]"
proof -
  have new: "ResilientSoupClient_new sample_config = Some sample_client" and first: "initial_sequence sample_config = 5"
    "max_attempts sample_config = None"
    by (simp_all add: ResilientSoupClient_new_def sample_config_def sample_client_def ResilientSoupConfig_new_def)
  obtain n rs client' where "next_messages n (\<lambda>k addr. Inr sample_server) (\<lambda>k lo hi. lo) sample_client = Some (rs, client')"
    "messages_of rs = map (\<lambda>i. sample_add) [0..<3]"
    using resilient_resume [OF sample_server_resumes _ new, where random = "\<lambda>k lo hi. lo" and l = 3] sample_server_lively first
    by fastforce
  then show ?thesis by (auto simp: upt_rec numeral_3_eq_3)
qed

text \<open>With a bound on the attempts the connect loop returns, after at most that many attempts, and
  every delay lies between the configured bounds.\<close>

lemma resilient_connect_budget:
  assumes "max_attempts (config self) = Some m"
    and "\<forall>k lo hi. lo \<le> hi \<longrightarrow> lo \<le> random k lo hi \<and> random k lo hi \<le> hi"
  shows "\<exists>r self' ds. try_connect_with_backoff connects random self = Some (r, self')
    \<and> tries self' \<le> tries self + max 1 (unat m - unat (attempt self))
    \<and> slept self' = slept self @ ds
    \<and> (\<forall>d \<in> set ds. unat (floor_ms (config self)) * 10 ^ 6 \<le> d \<and> d \<le> unat (cap_ms (config self)) * 10 ^ 6)"
  using connect_budget [OF assms(1)] assms(2) by blast

end
