(* ===== verification/Itch_Ingest.thy ===== *)
theory Itch_Ingest
  imports Itch_Source
begin

text \<open>
  The ingest task both servers run (\<open>itch-soup/src/server.rs\<close>, \<open>itch-tcp/src/server.rs\<close>): it numbers the
  messages of the source, puts each into the store and then broadcasts it.  The task is the same for
  every store, so it takes the operations of the store as arguments and its lemmas are proved
  under the store contract.
\<close>

section \<open>Definitions\<close>

text \<open>\<open>items\<close> is what the source yields until it ends; the result is what was broadcast, the next
  number and the store.\<close>

fun ingest_loop ::
  "('s \<Rightarrow> u64 \<Rightarrow> Message \<Rightarrow> ('e + unit) \<times> 's) \<Rightarrow> (SourceError + Message) list \<Rightarrow> u64 \<Rightarrow> 's
    \<Rightarrow> (u64 \<times> Message) list \<times> u64 \<times> 's" where
  "ingest_loop store [] next_seq s = ([], next_seq, s)"
| "ingest_loop store (Inl _ # items) next_seq s = ([], next_seq, s)"
| "ingest_loop store (Inr msg # items) next_seq s =
    (case store s next_seq msg of
       (Inl _, s) \<Rightarrow> ingest_loop store items next_seq s
     | (Inr _, s) \<Rightarrow>
         (case ingest_loop store items (saturating_add next_seq 1) s of (out, rest) \<Rightarrow> ((next_seq, msg) # out, rest)))"

definition ingest_start :: "('s \<Rightarrow> 'e + u64) \<Rightarrow> u64 \<Rightarrow> 's \<Rightarrow> u64" where
  "ingest_start latest start s =
    (case latest s of Inr l \<Rightarrow> max (saturating_add l 1) start | Inl _ \<Rightarrow> start)"

definition soup_ingest ::
  "('s \<Rightarrow> 'e + u64) \<Rightarrow> ('s \<Rightarrow> u64 \<Rightarrow> Message \<Rightarrow> ('e + unit) \<times> 's) \<Rightarrow> u64 \<Rightarrow> (SourceError + Message) list \<Rightarrow> 's
    \<Rightarrow> (u64 \<times> Message) list \<times> u64 \<times> 's" where
  "soup_ingest latest store start_sequence items s =
    ingest_loop store items (ingest_start latest start_sequence s) s"

definition tcp_ingest ::
  "('s \<Rightarrow> 'e + u64) \<Rightarrow> ('s \<Rightarrow> u64 \<Rightarrow> Message \<Rightarrow> ('e + unit) \<times> 's) \<Rightarrow> (SourceError + Message) list \<Rightarrow> 's
    \<Rightarrow> Message list \<times> u64 \<times> 's" where
  "tcp_ingest latest store items s =
    (case ingest_loop store items (ingest_start latest 1 s) s of (out, rest) \<Rightarrow> (map snd out, rest))"

section \<open>Under the store contract\<close>

text \<open>The messages of a source up to its first error.\<close>

fun source_messages :: "(SourceError + Message) list \<Rightarrow> Message list" where
  "source_messages (Inr m # items) = m # source_messages items"
| "source_messages _ = []"

text \<open>Putting a list of entries into a store, one after the other.\<close>

definition store_run :: "('s \<Rightarrow> u64 \<Rightarrow> Message \<Rightarrow> ('e + unit) \<times> 's) \<Rightarrow> (u64 \<times> Message) list \<Rightarrow> 's \<Rightarrow> 's" where
  "store_run store es s = fold (\<lambda>(q, m) s. snd (store s q m)) es s"

context seq_store
begin

text \<open>A number above everything in the store can always be stored.\<close>

lemma store_fresh:
  assumes "ok s" "latest s = Inr l" "l < q"
  shows "\<exists>s'. store s q m = (Inr (), s') \<and> ok s' \<and> latest s' = Inr q"
proof -
  obtain r s' where st: "store s q m = (r, s')" by force
  have "q \<notin> dom (contents s)" using latest_bound [OF assms(1)] assms(2,3) by (metis Inr_inject linorder_not_le)
  then have "contents s q = None" by (simp add: domIff)
  then have "r = Inr ()" using store_conflict [OF assms(1), of q m] st by simp
  then show ?thesis using st store_ok [OF assms(1), of q m] store_latest [OF assms(1), of q m s' l] assms(2,3)
    by (auto simp: max_def)
qed

text \<open>From a fresh number on, every message of the source is stored and broadcast under consecutive
  numbers.\<close>

lemma ingest_fresh:
  assumes "ok s" "latest s = Inr l" "unat l < n" "n + length (source_messages items) < 2 ^ 64"
  shows "ingest_loop store items (of_nat n) s
    = (numbered_from n (source_messages items), of_nat (n + length (source_messages items)),
       store_run store (numbered_from n (source_messages items)) s)"
  using assms
proof (induction items arbitrary: n l s)
  case Nil
  then show ?case by (simp add: store_run_def)
next
  case (Cons item items)
  show ?case
  proof (cases item)
    case (Inl e)
    then show ?thesis by (simp add: store_run_def)
  next
    case (Inr m)
    have n: "unat (of_nat n :: u64) = n" using Cons.prems(4) Inr by (simp add: unat_of_nat)
    then have "l < of_nat n" using Cons.prems(3) by (simp add: word_less_nat_alt)
    then obtain s' where s': "store s (of_nat n) m = (Inr (), s')" "ok s'" "latest s' = Inr (of_nat n)"
      using store_fresh [OF Cons.prems(1,2)] by blast
    have "(of_nat n :: u64) \<noteq> - 1" using n unat_max_u64 Cons.prems(4) Inr by auto
    then have "saturating_add (of_nat n :: u64) 1 = of_nat (Suc n)" by (simp add: saturating_Suc_u64 add.commute)
    then show ?thesis using Cons.IH [OF s'(2,3), of "Suc n"] n Cons.prems(4) s'(1) Inr
      by (simp add: numbered_from_Cons store_run_def)
  qed
qed

text \<open>Whatever the store answers, the numbers broadcast are consecutive, a message that could not be
  stored takes no number, and under a number that was broadcast the store holds that message or,
  once it was evicted, nothing.\<close>

lemma ingest_numbers:
  assumes "ok s" "unat q + length items < 2 ^ 64" "ingest_loop store items q s = (out, q', s')"
  shows "map fst out = map (\<lambda>i. q + of_nat i) [0..<length out] \<and> unat q' = unat q + length out \<and> ok s'
    \<and> (\<forall>p x. unat p < unat q \<longrightarrow> contents s' p = Some x \<longrightarrow> contents s p = Some x)
    \<and> (\<forall>(p, m) \<in> set out. unat q \<le> unat p \<and> contents s' p \<in> {None, Some m})"
  using assms
proof (induction items arbitrary: q s out)
  case (Cons item items)
  show ?case
  proof (cases item)
    case (Inl e)
    then show ?thesis using Cons.prems by auto
  next
    case (Inr m)
    obtain r s1 where st: "store s q m = (r, s1)" by force
    have ok1: "ok s1" using store_ok [OF Cons.prems(1), of q m] st by simp
    show ?thesis
    proof (cases r)
      case (Inl e)
      have "s1 = s" using store_fails [OF Cons.prems(1), of q m] st Inl by simp
      then show ?thesis using Cons.IH [of s q out] Cons.prems st Inl \<open>item = Inr m\<close> by simp
    next
      case (Inr u)
      have q1: "unat (q + 1) = Suc (unat q)" "saturating_add q 1 = q + 1"
        using Cons.prems(2) unat_Suc_u64 [of q] unat_max_u64 by (auto simp: saturating_Suc_u64)
      obtain out1 where out: "ingest_loop store items (q + 1) s1 = (out1, q', s')" "out = (q, m) # out1"
        using Cons.prems(3) st Inr \<open>item = Inr m\<close> q1(2) by (auto split: prod.splits)
      note IH = Cons.IH [OF ok1 _ out(1), unfolded q1(1)]
      have here: "contents s1 q = Some m" using store_holds [OF Cons.prems(1), of q m s1] st Inr by simp
      have old: "contents s1 p = Some x \<Longrightarrow> unat p < unat q \<Longrightarrow> contents s p = Some x" for p x
        using store_keeps [OF Cons.prems(1), of p q m x] st by auto
      have "contents s' q \<in> {None, Some m}"
        using IH Cons.prems(2) here by (cases "contents s' q") auto
      moreover have "map fst out = map (\<lambda>i. q + of_nat i) [0..<length out]"
        using IH Cons.prems(2) out(2) by (simp add: map_upt_Suc ac_simps del: upt_Suc)
      ultimately show ?thesis using IH Cons.prems(2) out(2) old by fastforce
    qed
  qed
qed auto

end

text \<open>Over the ring buffer.\<close>

lemma source_messages_length: "length (source_messages items) \<le> length items"
  by (induction items rule: source_messages.induct) simp_all

lemma ring_ingest_start:
  assumes "unat (max_seen s) + 1 + unat start + length items < 2 ^ 64"
  defines "ms \<equiv> source_messages items" and "n \<equiv> max (unat (max_seen s) + 1) (unat start)"
  shows "ingest_start RingSeqStore_latest start s = of_nat n" "unat (max_seen s) < n"
    "n + length ms < 2 ^ 64" "n + length items < 2 ^ 64"
proof -
  have "max_seen s \<noteq> - 1" using assms(1) unat_max_u64 by auto
  then have "unat (saturating_add (max_seen s) 1) = unat (max_seen s) + 1"
    using not_max_u64 [of "max_seen s"] unat_Suc_u64 [of "max_seen s"] by (simp add: saturating_Suc_u64)
  then have "unat (ingest_start RingSeqStore_latest start s) = n"
    by (simp add: ingest_start_def RingSeqStore_latest_def n_def max_def word_le_nat_alt)
  then show "ingest_start RingSeqStore_latest start s = of_nat n" by (metis of_nat_unat ucast_id)
  show "unat (max_seen s) < n" "n + length ms < 2 ^ 64" "n + length items < 2 ^ 64"
    using assms(1) source_messages_length [of items] by (simp_all add: n_def ms_def)
qed

lemma ring_ingest:
  assumes "ring_ok s" "unat (max_seen s) + 1 + unat start + length items < 2 ^ 64"
  defines "ms \<equiv> source_messages items" and "n \<equiv> max (unat (max_seen s) + 1) (unat start)"
  shows "ingest_loop RingSeqStore_store items (ingest_start RingSeqStore_latest start s) s
    = (numbered_from n ms, of_nat (n + length ms), store_run RingSeqStore_store (numbered_from n ms) s)"
  using ring.ingest_fresh [OF assms(1), of "max_seen s" n items] ring_ingest_start [OF assms(2), folded ms_def n_def]
  by (simp add: RingSeqStore_latest_def ms_def)

section \<open>Properties\<close>

text \<open>The ingest task over the ring buffer: whatever was in the store, the messages of the source up to
  its first error are broadcast in order under consecutive numbers that start above everything
  stored before, and no lower than the configured start; every one of them was stored, so the store
  holds it under its number until it is evicted, and never another one.\<close>

lemma soup_ingest_numbers:
  assumes "ring_ok s" "unat (max_seen s) + 1 + unat start + length items < 2 ^ 64"
  defines "ms \<equiv> source_messages items" and "n \<equiv> max (unat (max_seen s) + 1) (unat start)"
  shows "\<exists>s'. soup_ingest RingSeqStore_latest RingSeqStore_store start items s
      = (numbered_from n ms, of_nat (n + length ms), s')
    \<and> (\<forall>(p, m) \<in> set (numbered_from n ms). ring_contents s' p \<in> {None, Some m})"
proof -
  note start = ring_ingest_start [OF assms(2), folded ms_def n_def]
  define s' where "s' = store_run RingSeqStore_store (numbered_from n ms) s"
  have run: "ingest_loop RingSeqStore_store items (of_nat n) s = (numbered_from n ms, of_nat (n + length ms), s')"
    using ring_ingest [OF assms(1,2), folded ms_def n_def] start(1) by (simp add: s'_def)
  moreover have "\<forall>(p, m) \<in> set (numbered_from n ms). ring_contents s' p \<in> {None, Some m}"
    using ring.ingest_numbers [OF assms(1) _ run] start by (auto simp: unat_of_nat)
  ultimately show ?thesis using start(1) by (auto simp: soup_ingest_def)
qed

end
