(* ===== verification/Itch_Soup_Server.thy ===== *)
theory Itch_Soup_Server
  imports Itch_Soup_Session Itch_Ingest
begin

text \<open>
  The SoupBinTCP server of \<open>server.rs\<close>: authentication, and the task of one subscriber with its login,
  warm-up, replay from the store and live phase.  The sockets, the broadcast channel and the store
  (shared with the ingest task, which runs at the same time) are arguments: whether the \<open>k\<close>-th send
  of the task goes through, what the \<open>k\<close>-th range query finds, and what the task sees in its live
  phase in the order it sees it.
\<close>

section \<open>Definitions\<close>

abbreviation DEFAULT_BROADCAST_CAPACITY :: nat where "DEFAULT_BROADCAST_CAPACITY \<equiv> 4096"
abbreviation DEFAULT_SHUTDOWN_GRACE :: nat where "DEFAULT_SHUTDOWN_GRACE \<equiv> 5 * 10 ^ 9"


definition StaticAuthenticator_check :: "SoupCredentials \<Rightarrow> bytes \<Rightarrow> bytes \<Rightarrow> LoginRejectReason + unit" where
  "StaticAuthenticator_check self user pass =
    (if user = SoupCredentials.username self \<and> pass = SoupCredentials.password self then Inr () else Inl NotAuthorized)"

text \<open>\<open>String::truncate\<close> panics (\<open>None\<close>) inside a character, at a continuation byte.\<close>

definition SoupSession_new :: "bytes \<Rightarrow> bytes option" where
  "SoupSession_new i =
    (if length i > 10
     then if 0x80 \<le> i ! 10 \<and> i ! 10 \<le> 0xBF then None else Some (take 10 i)
     else Some i)"

record SoupServer =
  session :: bytes
  start_sequence :: u64
  broadcast_capacity :: nat
  shutdown_grace :: nat

definition SoupServer_bind :: SoupServer where
  "SoupServer_bind = \<lparr>session = map byte ''S0001'', start_sequence = 1,
     broadcast_capacity = DEFAULT_BROADCAST_CAPACITY, shutdown_grace = DEFAULT_SHUTDOWN_GRACE\<rparr>"

definition SoupServer_with_broadcast_capacity :: "SoupServer \<Rightarrow> nat \<Rightarrow> SoupServer" where
  "SoupServer_with_broadcast_capacity self c = self\<lparr>broadcast_capacity := max c 1\<rparr>"

definition SoupServer_with_start_sequence :: "SoupServer \<Rightarrow> u64 \<Rightarrow> SoupServer" where
  "SoupServer_with_start_sequence self q = self\<lparr>start_sequence := max q 1\<rparr>"

subsection \<open>The task of a subscriber\<close>

text \<open>What the task has sent, the number it expects next, and what it has put into the inbox of
  unsequenced messages.\<close>

record Subscriber =
  sent :: "SoupPacket list"
  next_expected :: u64
  inbox :: "Message list"

text \<open>A phase of the task ends with \<open>Inl\<close> when the task returns and with \<open>Inr\<close> when it goes on.\<close>

type_synonym phase = "Subscriber + Subscriber"

definition soup_send :: "(nat \<Rightarrow> bool) \<Rightarrow> SoupPacket \<Rightarrow> Subscriber \<Rightarrow> phase" where
  "soup_send sends p st =
    (if sends (length (sent st)) then Inr (st\<lparr>sent := sent st @ [p]\<rparr>) else Inl st)"

definition soup_send_last :: "(nat \<Rightarrow> bool) \<Rightarrow> SoupPacket \<Rightarrow> Subscriber \<Rightarrow> Subscriber" where
  "soup_send_last sends p st = (case soup_send sends p st of Inl st \<Rightarrow> st | Inr st \<Rightarrow> st)"

definition send_message :: "(nat \<Rightarrow> bool) \<Rightarrow> Message \<Rightarrow> Subscriber \<Rightarrow> phase" where
  "send_message sends msg st =
    (case Message_encode msg (replicate (Message_encoded_len msg) 0) of
       Inl _ \<Rightarrow> Inl st
     | Inr (buf, n) \<Rightarrow> soup_send sends (SequencedData buf) st)"

fun send_warmup :: "(nat \<Rightarrow> bool) \<Rightarrow> Message list \<Rightarrow> Subscriber \<Rightarrow> phase" where
  "send_warmup sends [] st = Inr st"
| "send_warmup sends (msg # warmup) st = and_then (send_message sends msg st) (send_warmup sends warmup)"

fun replay_chunk :: "(nat \<Rightarrow> bool) \<Rightarrow> (u64 \<times> Message) list \<Rightarrow> Subscriber \<Rightarrow> phase" where
  "replay_chunk sends [] st = Inr st"
| "replay_chunk sends ((seq, msg) # entries) st =
    and_then (send_message sends msg st) (\<lambda>st.
    replay_chunk sends entries (st\<lparr>next_expected := saturating_add seq 1\<rparr>))"

partial_function (option) replay_loop ::
  "(nat \<Rightarrow> bool) \<Rightarrow> (nat \<Rightarrow> u64 \<Rightarrow> nat \<Rightarrow> 'e + (u64 \<times> Message) list) \<Rightarrow> nat \<Rightarrow> Subscriber \<Rightarrow> phase option" where
  "replay_loop sends ranges k st =
    (case ranges k (next_expected st) 256 of
       Inl _ \<Rightarrow> Some (Inl st)
     | Inr entries \<Rightarrow>
         if entries = [] then Some (Inr st)
         else (case replay_chunk sends entries st of
                 Inl st \<Rightarrow> Some (Inl st)
               | Inr st \<Rightarrow> replay_loop sends ranges (Suc k) st))"

definition replay_phase ::
  "(nat \<Rightarrow> bool) \<Rightarrow> 'e + u64 \<Rightarrow> (nat \<Rightarrow> u64 \<Rightarrow> nat \<Rightarrow> 'e + (u64 \<times> Message) list) \<Rightarrow> Subscriber \<Rightarrow> phase option" where
  "replay_phase sends latest ranges st =
    (if next_expected st \<le> (case latest of Inr l \<Rightarrow> l | Inl _ \<Rightarrow> 0) then replay_loop sends ranges 0 st else Some (Inr st))"

text \<open>What the live phase sees: a message or an error from the broadcast channel, or an item of the
  socket.\<close>

datatype LiveEvent =
    Recv u64 Message
  | RecvClosed
  | RecvLagged u64
  | Read framed_item

text \<open>\<open>inbox_tx\<close> tells for the \<open>k\<close>-th message whether the inbox takes it; there may be no inbox.\<close>

definition on_unsequenced :: "(nat \<Rightarrow> bool) option \<Rightarrow> bytes \<Rightarrow> Subscriber \<Rightarrow> Subscriber" where
  "on_unsequenced inbox_tx payload st =
    (case inbox_tx of
       None \<Rightarrow> st
     | Some room \<Rightarrow>
         (case Message_decode payload of
            Inl _ \<Rightarrow> st
          | Inr msg \<Rightarrow> if room (length (inbox st)) then st\<lparr>inbox := inbox st @ [msg]\<rparr> else st))"

fun live_loop :: "(nat \<Rightarrow> bool) \<Rightarrow> (nat \<Rightarrow> bool) option \<Rightarrow> LiveEvent list \<Rightarrow> Subscriber \<Rightarrow> phase" where
  "live_loop sends inbox_tx [] st = Inr st"
| "live_loop sends inbox_tx (Recv seq msg # events) st =
    (if seq < next_expected st then live_loop sends inbox_tx events st
     else and_then (send_message sends msg st) (\<lambda>st.
          live_loop sends inbox_tx events (st\<lparr>next_expected := saturating_add seq 1\<rparr>)))"
| "live_loop sends inbox_tx (RecvClosed # events) st = Inl (soup_send_last sends EndOfSession st)"
| "live_loop sends inbox_tx (RecvLagged skipped # events) st = Inl st"
| "live_loop sends inbox_tx (Read item # events) st =
    (case item of
       Some (Inr ClientHeartbeat) \<Rightarrow> live_loop sends inbox_tx events st
     | Some (Inr (Debug _)) \<Rightarrow> live_loop sends inbox_tx events st
     | Some (Inr (UnsequencedData payload)) \<Rightarrow> live_loop sends inbox_tx events (on_unsequenced inbox_tx payload st)
     | _ \<Rightarrow> Inl st)"

definition resume_from :: "'e + u64 \<Rightarrow> u64 \<Rightarrow> u64" where
  "resume_from latest requested =
    (if requested = 0 then saturating_add (case latest of Inr l \<Rightarrow> l | Inl _ \<Rightarrow> 0) 1 else requested)"

text \<open>The login step: the packet that refuses it, or the request accepted.\<close>

definition check_login ::
  "(bytes \<Rightarrow> bytes \<Rightarrow> LoginRejectReason + unit) \<Rightarrow> bytes \<Rightarrow> LoginRequest \<Rightarrow> SoupPacket + unit" where
  "check_login check session_id req =
    (case check (LoginRequest.username req) (LoginRequest.password req) of
       Inl why \<Rightarrow> Inl (SoupPacket.LoginRejected why)
     | Inr _ \<Rightarrow>
         let trimmed_requested = str_trim (requested_session req) in
         if trimmed_requested \<noteq> [] \<and> trimmed_requested \<noteq> str_trim session_id
         then Inl (SoupPacket.LoginRejected SessionUnavailable)
         else Inr ())"

text \<open>Warm-up, replay and live phase of an accepted subscriber.\<close>

definition data_phases ::
  "(nat \<Rightarrow> bool) \<Rightarrow> 'e + u64 \<Rightarrow> Message list \<Rightarrow> (nat \<Rightarrow> u64 \<Rightarrow> nat \<Rightarrow> 'e + (u64 \<times> Message) list) \<Rightarrow> u64
    \<Rightarrow> (nat \<Rightarrow> bool) option \<Rightarrow> LiveEvent list \<Rightarrow> Subscriber \<Rightarrow> phase option" where
  "data_phases sends latest ws ranges resume inbox_tx events st =
    (case send_warmup sends ws st of
       Inl st \<Rightarrow> Some (Inl st)
     | Inr st \<Rightarrow>
         (case replay_phase sends latest ranges (st\<lparr>next_expected := resume\<rparr>) of
            None \<Rightarrow> None
          | Some (Inl st) \<Rightarrow> Some (Inl st)
          | Some (Inr st) \<Rightarrow> Some (live_loop sends inbox_tx events st)))"

definition handle_subscriber ::
  "(nat \<Rightarrow> bool) \<Rightarrow> (bytes \<Rightarrow> bytes \<Rightarrow> LoginRejectReason + unit) \<Rightarrow> bytes \<Rightarrow> framed_item
    \<Rightarrow> 'e + u64 \<Rightarrow> SourceError + Message list \<Rightarrow> (nat \<Rightarrow> u64 \<Rightarrow> nat \<Rightarrow> 'e + (u64 \<times> Message) list)
    \<Rightarrow> (nat \<Rightarrow> bool) option \<Rightarrow> LiveEvent list \<Rightarrow> phase option" where
  "handle_subscriber sends check session_id first latest warmup ranges inbox_tx events =
    (let st = \<lparr>sent = [], next_expected = 0, inbox = []\<rparr> in
     case first of
       Some (Inr (LoginRequest req)) \<Rightarrow>
         (case check_login check session_id req of
            Inl refusal \<Rightarrow> Some (Inl (soup_send_last sends refusal st))
          | Inr _ \<Rightarrow>
              let resume = resume_from latest (requested_sequence req) in
              (case soup_send sends (LoginAccepted \<lparr>LoginAccepted.session = session_id, sequence = resume\<rparr>) st of
                 Inl st \<Rightarrow> Some (Inl st)
               | Inr st \<Rightarrow>
                   (case warmup of
                      Inl _ \<Rightarrow> Some (Inl st)
                    | Inr ws \<Rightarrow> data_phases sends latest ws ranges resume inbox_tx events st)))
     | _ \<Rightarrow> Some (Inl st))"

section \<open>What a subscriber is sent\<close>

abbreviation data :: "Message \<Rightarrow> SoupPacket" where
  "data m \<equiv> SequencedData (Message_wire m)"

lemma send_message_ok: "Message_ok m \<Longrightarrow> send_message sends m st = soup_send sends (data m) st"
  using Message_encode_Inr [of m "replicate (Message_encoded_len m) 0"] by (simp add: send_message_def)

text \<open>The task has sent \<open>pre\<close> and then the messages \<open>i\<close> to \<open>j\<close> of the feed; it stands at \<open>j\<close> when it
  also expects the number of that message.\<close>

definition covers :: "Message list \<Rightarrow> SoupPacket list \<Rightarrow> nat \<Rightarrow> nat \<Rightarrow> Subscriber \<Rightarrow> bool" where
  "covers ms pre i j st \<longleftrightarrow> i \<le> j \<and> j \<le> length ms \<and> sent st = pre @ map data (drop i (take j ms))"

definition stands :: "nat \<Rightarrow> Message list \<Rightarrow> SoupPacket list \<Rightarrow> nat \<Rightarrow> nat \<Rightarrow> Subscriber \<Rightarrow> bool" where
  "stands n ms pre i j st \<longleftrightarrow> covers ms pre i j st \<and> next_expected st = of_nat (n + j)"

lemma send_next:
  assumes "covers ms pre i j st" "j < length ms" "Message_ok (ms ! j)" "n + length ms < 2 ^ 64"
  shows "send_message sends (ms ! j) st = Inl st \<and> \<not> sends (length (sent st))
    \<or> (\<exists>st'. send_message sends (ms ! j) st = Inr st'
         \<and> stands n ms pre i (Suc j) (st'\<lparr>next_expected := saturating_add (of_nat (n + j)) 1\<rparr>))"
proof -
  have "(of_nat (n + j) :: u64) \<noteq> - 1"
    using unat_of_nat [of "n + j", where 'a = 64] unat_max_u64 assms(2,4) by auto
  then have "saturating_add (of_nat (n + j) :: u64) 1 = of_nat (n + Suc j)"
    by (simp add: saturating_Suc_u64 ac_simps)
  then show ?thesis using assms
    by (auto simp: send_message_ok soup_send_def stands_def covers_def take_Suc_conv_app_nth)
qed

lemma chunk_covers:
  assumes "stands n ms pre i j st" "drop j ms = xs @ ys" "\<forall>m \<in> set ms. Message_ok m" "n + length ms < 2 ^ 64"
  shows "(\<exists>st'. replay_chunk sends (numbered_from (n + j) xs) st = Inr st' \<and> stands n ms pre i (j + length xs) st')
    \<or> (\<exists>st' k. replay_chunk sends (numbered_from (n + j) xs) st = Inl st' \<and> covers ms pre i k st' \<and> \<not> sends (length (sent st')))"
  using assms(1,2)
proof (induction xs arbitrary: j st)
  case (Cons x xs)
  have x: "j < length ms" "x = ms ! j" "drop (Suc j) ms = xs @ ys"
    using Cons.prems(2) by (auto simp: nth_via_drop intro: ccontr) (simp add: drop_Suc drop_tl)
  note step = send_next [of ms pre i j st n sends, OF _ x(1) _ assms(4)]
  from step consider "send_message sends (ms ! j) st = Inl st" "\<not> sends (length (sent st))"
    | st' where "send_message sends (ms ! j) st = Inr st'"
      "stands n ms pre i (Suc j) (st'\<lparr>next_expected := saturating_add (of_nat (n + j)) 1\<rparr>)"
    using Cons.prems(1) x(1) assms(3) by (auto simp: stands_def)
  then show ?case
  proof cases
    case 1
    then show ?thesis using Cons.prems(1) x(2) by (auto simp: numbered_from_Cons stands_def)
  next
    case (2 st')
    then show ?thesis using Cons.IH [OF 2(2) x(3)] x(2) by (simp add: numbered_from_Cons)
  qed
qed simp

text \<open>The replay ends, and then stands at or behind everything the last query found.\<close>

lemma replay_covers:
  assumes "\<And>k j. i \<le> j \<Longrightarrow> j \<le> length ms \<Longrightarrow>
      ranges k (of_nat (n + j)) 256 = Inr (numbered_from (n + j) (take 256 (drop j (take (t k) ms))))"
    and "\<forall>m \<in> set ms. Message_ok m" "n + length ms < 2 ^ 64" "stands n ms pre i j st"
  shows "(\<exists>st' j' k'. replay_loop sends ranges k st = Some (Inr st') \<and> stands n ms pre i j' st'
        \<and> (t k' \<le> j' \<or> length ms \<le> j'))
    \<or> (\<exists>st' j'. replay_loop sends ranges k st = Some (Inl st') \<and> covers ms pre i j' st' \<and> \<not> sends (length (sent st')))"
  using assms(4)
proof (induction "length ms - j" arbitrary: j st k rule: less_induct)
  case less
  define xs where "xs = take 256 (drop j (take (t k) ms))"
  have j: "i \<le> j" "j \<le> length ms" "next_expected st = of_nat (n + j)"
    using less.prems by (auto simp: stands_def covers_def)
  note query = assms(1) [OF j(1,2), of k, folded xs_def]
  show ?case
  proof (cases "xs = []")
    case True
    then have "t k \<le> j \<or> length ms \<le> j" by (auto simp: xs_def min_le_iff_disj)
    moreover have "replay_loop sends ranges k st = Some (Inr st)"
      using query True j(3) by (subst replay_loop.simps) simp
    ultimately show ?thesis using less.prems by blast
  next
    case False
    have "\<exists>ys. drop j ms = xs @ ys"
      unfolding xs_def by (metis append.assoc append_take_drop_id drop_take)
    then obtain ys where ys: "drop j ms = xs @ ys" by blast
    then have shorter: "length ms - (j + length xs) < length ms - j" using False
      by (metis add_diff_cancel_left' diff_diff_left diff_less length_append length_drop length_greater_0_conv less_add_same_cancel1 add_gr_0)
    from chunk_covers [OF less.prems ys assms(2,3), of sends] show ?thesis
    proof (elim disjE exE conjE)
      fix st' assume st': "replay_chunk sends (numbered_from (n + j) xs) st = Inr st'" "stands n ms pre i (j + length xs) st'"
      have "replay_loop sends ranges k st = replay_loop sends ranges (Suc k) st'"
        using query False j(3) st'(1) by (subst replay_loop.simps) (cases xs; simp add: numbered_from_Cons)
      then show ?thesis using less.hyps [OF shorter st'(2), of "Suc k"] by simp
    next
      fix st' k' assume "replay_chunk sends (numbered_from (n + j) xs) st = Inl st'" "covers ms pre i k' st'"
        "\<not> sends (length (sent st'))"
      moreover from this have "replay_loop sends ranges k st = Some (Inl st')"
        using query False j(3) by (subst replay_loop.simps) (cases xs; simp add: numbered_from_Cons)
      ultimately show ?thesis by blast
    qed
  qed
qed


lemma on_unsequenced_keeps [simp]:
  "sent (on_unsequenced tx p st) = sent st" "next_expected (on_unsequenced tx p st) = next_expected st"
  by (simp_all add: on_unsequenced_def split: option.split sum.split)





lemma of_nat_less_iff_u64: "i < 2 ^ 64 \<Longrightarrow> j < 2 ^ 64 \<Longrightarrow> (of_nat i < (of_nat j :: u64)) = (i < j)"
  by (simp add: word_less_nat_alt unat_of_nat)

lemma live_read_cases:
  "live_loop sends tx (Read item # events) st \<in> {Inl st, live_loop sends tx events st}
    \<or> (\<exists>p. live_loop sends tx (Read item # events) st = live_loop sends tx events (on_unsequenced tx p st))"
proof (cases item)
  case (Some r)
  show ?thesis
  proof (cases r)
    case (Inr packet)
    then show ?thesis using Some by (cases packet) auto
  qed (simp add: Some)
qed simp


lemma live_complete:
  assumes "\<forall>m \<in> set ms. Message_ok m" "n + length ms < 2 ^ 64" "stands n ms pre i j st" "a \<le> j"
  shows "\<exists>st'. live_loop (\<lambda>_. True) tx (map (\<lambda>(q, m). Recv q m) (numbered_from (n + a) (drop a ms)) @ [RecvClosed]) st = Inl st'
    \<and> sent st' = pre @ map data (drop i ms) @ [EndOfSession]"
  using assms(3,4)
proof (induction "length ms - a" arbitrary: a j st)
  case 0
  then show ?case by (auto simp: stands_def covers_def soup_send_last_def soup_send_def)
next
  case (Suc d)
  then have a: "a < length ms" "drop a ms = ms ! a # drop (Suc a) ms" by (simp_all add: Cons_nth_drop_Suc)
  have j: "next_expected st = of_nat (n + j)" "covers ms pre i j st" "j \<le> length ms"
    using Suc.prems(1) by (auto simp: stands_def covers_def)
  have skip: "of_nat (n + a) < next_expected st \<longleftrightarrow> a < j"
    using a(1) j assms(2) of_nat_less_iff_u64 [of "n + a" "n + j"] by (simp del: of_nat_add)
  have d: "d = length ms - Suc a" using Suc.hyps(2) by simp
  show ?case
  proof (cases "a < j")
    case True
    then show ?thesis using Suc.hyps(1) [OF d Suc.prems(1)] skip a(2) by (simp add: numbered_from_Cons)
  next
    case False
    then have "a = j" using Suc.prems(2) by simp
    from send_next [OF j(2) _ _ assms(2), of "\<lambda>_. True"] this a(1) assms(1)
    obtain st' where "send_message (\<lambda>_. True) (ms ! j) st = Inr st'"
      "stands n ms pre i (Suc j) (st'\<lparr>next_expected := saturating_add (of_nat (n + j)) 1\<rparr>)" by auto
    then show ?thesis using Suc.hyps(1) [OF d, of "Suc j"] skip a(2) \<open>a = j\<close> by (simp add: numbered_from_Cons)
  qed
qed

lemma warmup_sends:
  assumes "\<forall>m \<in> set ws. Message_ok m"
  shows "(\<exists>st'. send_warmup sends ws st = Inr st' \<and> sent st' = sent st @ map data ws \<and> inbox st' = inbox st)
    \<or> (\<exists>st' k. send_warmup sends ws st = Inl st' \<and> sent st' = sent st @ map data (take k ws)
        \<and> \<not> sends (length (sent st')))"
  using assms
proof (induction ws arbitrary: st)
  case (Cons w ws)
  show ?case
  proof (cases "sends (length (sent st))")
    case True
    define st1 where "st1 = st\<lparr>sent := sent st @ [data w]\<rparr>"
    have "send_warmup sends (w # ws) st = send_warmup sends ws st1"
      using True Cons.prems by (simp add: send_message_ok soup_send_def st1_def)
    moreover have "sent st1 @ map data xs = sent st @ map data (w # xs)" for xs by (simp add: st1_def)
    moreover have "take (Suc k) (w # ws) = w # take k ws" "inbox st1 = inbox st" for k by (simp_all add: st1_def)
    ultimately show ?thesis using Cons.IH [of st1] Cons.prems by (metis list.set_intros(2))
  next
    case False
    then show ?thesis using Cons.prems by (intro disjI2 exI [of _ st] exI [of _ 0]) (simp add: send_message_ok soup_send_def)
  qed
qed simp

section \<open>The feed in the store\<close>

text \<open>The store after a feed numbered from \<open>n\<close> went through it.\<close>

definition feed_store :: "nat \<Rightarrow> nat \<Rightarrow> Message list \<Rightarrow> RingSeqStore" where
  "feed_store n cap ms = store_all (numbered_from n ms) (RingSeqStore_with_capacity cap)"

lemma numbered_from_take: "take k (numbered_from n ms) = numbered_from n (take k ms)"
  by (simp add: numbered_from_def take_zip take_map min_def)

lemma feed_query:
  assumes "0 < n" "n + length ms < 2 ^ 64" "length ms - max cap 1 \<le> j" "j \<le> length ms"
  shows "RingSeqStore_range (feed_store n cap (take t ms)) (of_nat (n + j)) c
    = Inr (numbered_from (n + j) (take c (drop j (take t ms))))"
proof -
  have j: "unat (of_nat (n + j) :: u64) = n + j" using assms by (simp add: unat_of_nat del: of_nat_add)
  have old: "n + (length (take t ms) - max cap 1) \<le> n + j" using assms(3) by simp
  have len: "n + length (take t ms) \<le> 2 ^ 64" using assms(2) by simp
  have "drop j (take t ms) = []" if "\<not> j < length (take t ms)"
    using that by (auto simp: min_le_iff_disj)
  with ring_window [OF assms(1) len, of cap "of_nat (n + j)" c] old show ?thesis
    unfolding feed_store_def j by (cases "j < length (take t ms)") (auto simp: numbered_from_drop numbered_from_take)
qed

lemma feed_latest:
  assumes "0 < n" "n + length ms < 2 ^ 64" "t \<le> length ms"
  shows "RingSeqStore_latest (feed_store n cap (take t ms)) = Inr (if t = 0 then 0 else of_nat (n + t - 1))"
  using ring_window [OF assms(1), of "take t ms" cap 0 0] assms
  by (auto simp: feed_store_def)

section \<open>The whole task\<close>

abbreviation accepted :: "bytes \<Rightarrow> u64 \<Rightarrow> SoupPacket" where
  "accepted session_id q \<equiv> LoginAccepted \<lparr>LoginAccepted.session = session_id, sequence = q\<rparr>"

text \<open>A subscriber that resumes at message \<open>i\<close> of a feed, while the ingest task runs: \<open>t0\<close> messages
  were in the store when its latest number was read, at least as many at every query of the replay,
  and at most as many when the task subscribed to the broadcast.\<close>

definition attaches ::
  "nat \<Rightarrow> nat \<Rightarrow> Message list \<Rightarrow> nat \<Rightarrow> nat \<Rightarrow> (nat \<Rightarrow> nat) \<Rightarrow> nat \<Rightarrow> bool" where
  "attaches n cap ms i t0 t a \<longleftrightarrow> 0 < n \<and> n + length ms < 2 ^ 64 \<and> (\<forall>m \<in> set ms. Message_ok m)
    \<and> length ms - max cap 1 \<le> i \<and> i \<le> t0 \<and> t0 \<le> length ms \<and> (\<forall>k. t0 \<le> t k) \<and> a \<le> t0"

lemma replay_phase_covers:
  assumes "attaches n cap ms i t0 t a" "stands n ms pre i i st"
  shows "(\<exists>st' j. replay_phase sends (RingSeqStore_latest (feed_store n cap (take t0 ms)))
          (\<lambda>k. RingSeqStore_range (feed_store n cap (take (t k) ms))) st = Some (Inr st')
        \<and> stands n ms pre i j st' \<and> a \<le> j)
    \<or> (\<exists>st' j. replay_phase sends (RingSeqStore_latest (feed_store n cap (take t0 ms)))
          (\<lambda>k. RingSeqStore_range (feed_store n cap (take (t k) ms))) st = Some (Inl st')
        \<and> covers ms pre i j st' \<and> \<not> sends (length (sent st')))"
proof -
  let ?ranges = "\<lambda>k. RingSeqStore_range (feed_store n cap (take (t k) ms))"
  have n: "0 < n" "n + length ms < 2 ^ 64" "\<forall>m \<in> set ms. Message_ok m" "length ms - max cap 1 \<le> i"
    "i \<le> t0" "t0 \<le> length ms" "\<And>k. t0 \<le> t k" "a \<le> t0"
    using assms(1) by (auto simp: attaches_def)
  define lt where "lt = n + t0 - 1"
  define l where "l = (if t0 = 0 then 0 else of_nat lt :: u64)"
  have latest: "RingSeqStore_latest (feed_store n cap (take t0 ms)) = Inr l"
    unfolding l_def lt_def by (rule feed_latest [OF n(1,2,6)])
  have at: "next_expected st = of_nat (n + i)" using assms(2) by (simp add: stands_def)
  show ?thesis
  proof (cases "of_nat (n + i) \<le> l")
    case False
    have "lt < 2 ^ 64" using n(2,6) by (simp add: lt_def)
    then have "unat l = (if t0 = 0 then 0 else lt)" "unat (of_nat (n + i) :: u64) = n + i"
      using n(2,5,6) by (simp_all add: l_def unat_of_nat del: of_nat_add)
    then have "t0 \<le> i" using False by (auto simp: word_le_nat_alt lt_def split: if_splits)
    then have "a \<le> i" using n(8) by simp
    moreover have "replay_phase sends (RingSeqStore_latest (feed_store n cap (take t0 ms))) ?ranges st = Some (Inr st)"
      using False at by (simp add: replay_phase_def latest del: of_nat_add)
    ultimately show ?thesis using assms(2) by blast
  next
    case True
    have query: "?ranges k (of_nat (n + j)) 256 = Inr (numbered_from (n + j) (take 256 (drop j (take (t k) ms))))"
      if "i \<le> j" "j \<le> length ms" for k j
      using feed_query [OF n(1,2) _ that(2)] that n(4) by simp
    have "replay_phase sends (RingSeqStore_latest (feed_store n cap (take t0 ms))) ?ranges st = replay_loop sends ?ranges 0 st"
      using True at by (simp add: replay_phase_def latest)
    moreover have "a \<le> j" if "t k \<le> j \<or> length ms \<le> j" for k j using that n(6,8) n(7) [of k] by linarith
    ultimately show ?thesis
      using replay_covers [of i ms ?ranges n t, OF query n(3,2) assms(2), where sends = sends and k = 0] by metis
  qed
qed

lemma handle_subscriber_phases:
  assumes "check_login check session_id req = Inr ()"
  shows "handle_subscriber sends check session_id (Some (Inr (LoginRequest req))) latest (Inr ws) ranges tx events
    = (let resume = resume_from latest (requested_sequence req);
           st = \<lparr>sent = [], next_expected = 0, inbox = []\<rparr> in
       case soup_send sends (accepted session_id resume) st of
         Inl st \<Rightarrow> Some (Inl st)
       | Inr st \<Rightarrow>
           (case send_warmup sends ws st of
              Inl st \<Rightarrow> Some (Inl st)
            | Inr st \<Rightarrow>
                (case replay_phase sends latest ranges (st\<lparr>next_expected := resume\<rparr>) of
                   None \<Rightarrow> None
                 | Some (Inl st) \<Rightarrow> Some (Inl st)
                 | Some (Inr st) \<Rightarrow> Some (live_loop sends tx events st))))"
  using assms by (simp add: handle_subscriber_def data_phases_def Let_def split: sum.split)


lemma task_complete:
  assumes "attaches n cap ms i t0 t a" "\<forall>m \<in> set ws. Message_ok m"
    and "check_login check session_id req = Inr ()"
    and "latest = RingSeqStore_latest (feed_store n cap (take t0 ms))"
    and "ranges = (\<lambda>k. RingSeqStore_range (feed_store n cap (take (t k) ms)))"
    and "resume_from latest (requested_sequence req) = of_nat (n + i)"
    and "events = map (\<lambda>(q, m). Recv q m) (numbered_from (n + a) (drop a ms)) @ [RecvClosed]"
  shows "\<exists>st. handle_subscriber (\<lambda>_. True) check session_id (Some (Inr (LoginRequest req))) latest (Inr ws) ranges tx events = Some (Inl st)
    \<and> sent st = accepted session_id (of_nat (n + i)) # map data (ws @ drop i ms) @ [EndOfSession]"
proof -
  let ?acc = "accepted session_id (of_nat (n + i))" and ?all = "\<lambda>_ :: nat. True"
  define st1 where "st1 = \<lparr>sent = [?acc], next_expected = 0, inbox = []\<rparr>"
  note ok = assms(1) [unfolded attaches_def]
  obtain st2 where st2: "send_warmup ?all ws st1 = Inr st2" "sent st2 = sent st1 @ map data ws"
    using warmup_sends [OF assms(2), of ?all st1] by auto
  define st3 where "st3 = st2\<lparr>next_expected := of_nat (n + i)\<rparr>"
  have "stands n ms (?acc # map data ws) i i st3"
    using ok st2(2) by (simp add: stands_def covers_def st3_def st1_def)
  from replay_phase_covers [OF assms(1) this, of ?all, folded assms(4,5)] obtain st4 j where st4: "replay_phase ?all latest ranges st3 = Some (Inr st4)"
    "stands n ms (?acc # map data ws) i j st4" "a \<le> j"
    by blast
  obtain st5 where "live_loop ?all tx events st4 = Inl st5"
    "sent st5 = (?acc # map data ws) @ map data (drop i ms) @ [EndOfSession]"
    using live_complete [OF _ _ st4(2,3)] ok assms(7) by blast
  then show ?thesis
    using st2(1) st4(1) handle_subscriber_phases [OF assms(3), of ?all latest ws ranges tx events]
    by (simp add: assms(6) soup_send_def st1_def st3_def)
qed

section \<open>Nothing before the login\<close>

definition grown :: "SoupPacket list \<Rightarrow> phase \<Rightarrow> bool" where
  "grown pre r \<longleftrightarrow> (\<exists>ps st. r \<in> {Inl st, Inr st} \<and> sent st = pre @ ps)"

lemma grown_simps [simp]:
  "grown pre (Inl st) \<longleftrightarrow> (\<exists>ps. sent st = pre @ ps)" "grown pre (Inr st) \<longleftrightarrow> (\<exists>ps. sent st = pre @ ps)"
  by (auto simp: grown_def)

lemma grown_and_then: "grown pre r \<Longrightarrow> (\<And>st ps. sent st = pre @ ps \<Longrightarrow> grown pre (f st)) \<Longrightarrow> grown pre (and_then r f)"
  by (cases r) (auto simp: grown_def)

lemma grown_send: "sent st = pre @ ps \<Longrightarrow> grown pre (soup_send sends p st)"
  by (auto simp: grown_def soup_send_def)

lemma grown_send_message: "sent st = pre @ ps \<Longrightarrow> grown pre (send_message sends m st)"
  by (auto simp: send_message_def grown_def soup_send_def split: sum.split)

lemma grown_warmup: "sent st = pre @ ps \<Longrightarrow> grown pre (send_warmup sends ws st)"
proof (induction ws arbitrary: st ps)
  case (Cons w ws)
  then show ?case by (auto intro!: grown_and_then grown_send_message)
qed (auto simp: grown_def)

lemma grown_chunk: "sent st = pre @ ps \<Longrightarrow> grown pre (replay_chunk sends es st)"
proof (induction es arbitrary: st ps)
  case (Cons e es)
  then show ?case by (cases e) (auto intro!: grown_and_then grown_send_message)
qed (auto simp: grown_def)

lemma grown_live: "sent st = pre @ ps \<Longrightarrow> grown pre (live_loop sends tx events st)"
proof (induction events arbitrary: st ps)
  case (Cons e events)
  show ?case
  proof (cases e)
    case (Recv q m)
    then show ?thesis using Cons by (auto intro!: grown_and_then grown_send_message)
  next
    case (Read item)
    have "grown pre (Inl st)" using Cons.prems by (auto simp: grown_def)
    then show ?thesis
      using live_read_cases [of sends tx item events st] Cons.IH [OF Cons.prems] Cons.IH [of "on_unsequenced tx p st" ps for p]
        Cons.prems unfolding Read by (metis insertE on_unsequenced_keeps(1) singletonD)
  qed (use Cons.prems in \<open>auto simp: grown_def soup_send_last_def soup_send_def\<close>)
qed (auto simp: grown_def)

lemma grown_replay:
  assumes "replay_loop sends ranges k st = Some r" "sent st = pre @ ps"
  shows "grown pre r"
proof -
  let ?P = "\<lambda>sends ranges k st r. \<forall>ps. sent st = pre @ ps \<longrightarrow> grown pre r"
  have "?P sends ranges k st r"
  proof (rule replay_loop.raw_induct [of ?P, OF _ assms(1)], intro allI impI)
    fix f sends k st r ps and ranges :: "nat \<Rightarrow> u64 \<Rightarrow> nat \<Rightarrow> 'a + (u64 \<times> Message) list"
    assume IH: "\<And>sends ranges k st r. f sends ranges k st = Some r \<Longrightarrow> ?P sends ranges k st r"
      and body: "(case ranges k (next_expected st) 256 of
           Inl x \<Rightarrow> Some (Inl st)
         | Inr entries \<Rightarrow>
             if entries = [] then Some (Inr st)
             else case replay_chunk sends entries st of Inl st \<Rightarrow> Some (Inl st) | Inr st \<Rightarrow> f sends ranges (Suc k) st) = Some r"
      and st: "sent st = pre @ ps"
    show "grown pre r"
    proof (cases "ranges k (next_expected st) 256")
      case (Inr entries)
      show ?thesis
      proof (cases "replay_chunk sends entries st")
        case (Inl st')
        then have "grown pre (Inl st')" using grown_chunk [OF st, of sends entries] by (simp only:)
        moreover have "r = Inr st \<or> r = Inl st'" using body Inl \<open>ranges k _ _ = _\<close> by (auto split: if_splits)
        ultimately show ?thesis using st by auto
      next
        case (Inr st')
        then show ?thesis using body st grown_chunk [OF st, of sends entries] IH [of sends ranges "Suc k" st' r] \<open>ranges k _ _ = _\<close>
          by (simp split: if_splits) auto
      qed
    qed (use body st in \<open>auto simp: grown_def\<close>)
  qed
  then show ?thesis using assms(2) by blast
qed

lemma grown_data_phases:
  assumes "sent st = pre @ ps" "data_phases sends latest ws ranges resume tx events st = Some r"
  shows "grown pre r"
proof -
  have warm: "grown pre (send_warmup sends ws st)" using assms(1) by (rule grown_warmup)
  show ?thesis
  proof (cases "send_warmup sends ws st")
    case (Inl st')
    then have "r = Inl st'" using assms(2) by (simp add: data_phases_def)
    then show ?thesis using warm Inl by (simp only:)
  next
    case (Inr st2)
    then obtain ps2 where ps2: "sent (st2\<lparr>next_expected := resume\<rparr>) = pre @ ps2" using warm by auto
    define q where "q = replay_phase sends latest ranges (st2\<lparr>next_expected := resume\<rparr>)"
    have q: "(case q of None \<Rightarrow> None | Some (Inl st) \<Rightarrow> Some (Inl st)
        | Some (Inr st) \<Rightarrow> Some (live_loop sends tx events st)) = Some r"
      using assms(2) Inr by (simp add: data_phases_def q_def)
    then obtain r3 where r3: "q = Some r3" by (cases q) simp_all
    then have "grown pre r3"
      using ps2 grown_replay [OF _ ps2] by (auto simp: q_def replay_phase_def split: if_splits)
    then show ?thesis using q r3 grown_live [of _ pre] by (cases r3) auto
  qed
qed

lemma gate:
  assumes "handle_subscriber sends check session_id first latest warmup ranges tx events = Some r" "r \<in> {Inl st, Inr st}"
  shows "sent st = [] \<or> (\<exists>why. sent st = [SoupPacket.LoginRejected why])
    \<or> (\<exists>req ps. first = Some (Inr (LoginRequest req)) \<and> check_login check session_id req = Inr ()
        \<and> sent st = accepted session_id (resume_from latest (requested_sequence req)) # ps)"
proof -
  define st0 where "st0 = \<lparr>sent = [], next_expected = 0, inbox = []\<rparr>"
  consider (login) req where "first = Some (Inr (LoginRequest req))" | (other) "r = Inl st0"
    using assms(1) by (auto simp: handle_subscriber_def Let_def st0_def split: option.splits sum.splits SoupPacket.splits)
  then show ?thesis
  proof cases
    case (login req)
    let ?acc = "accepted session_id (resume_from latest (requested_sequence req))"
    show ?thesis
    proof (cases "check_login check session_id req")
      case (Inl refusal)
      then obtain why where "refusal = SoupPacket.LoginRejected why"
        by (auto simp: check_login_def Let_def split: sum.splits if_splits)
      then show ?thesis using assms Inl login
        by (auto simp: handle_subscriber_def soup_send_last_def soup_send_def Let_def split: if_splits)
    next
      case (Inr u)
      show ?thesis
      proof (cases "sends 0")
        case True
        define st1 where "st1 = \<lparr>sent = [?acc], next_expected = 0, inbox = []\<rparr>"
        have "(case warmup of Inl _ \<Rightarrow> Some (Inl st1) | Inr ws \<Rightarrow> data_phases sends latest ws ranges
              (resume_from latest (requested_sequence req)) tx events st1) = Some r"
          unfolding st1_def using assms(1) Inr login True by (simp add: handle_subscriber_def Let_def soup_send_def)
        then have "grown [?acc] r"
          using grown_data_phases [of st1 "[?acc]" "[]"] by (auto simp: st1_def split: sum.splits)
        then show ?thesis using assms(2) login Inr by (auto simp: grown_def)
      qed (use assms Inr login in \<open>auto simp: handle_subscriber_def soup_send_def Let_def\<close>)
    qed
  qed (use assms(2) in \<open>auto simp: st0_def\<close>)
qed

definition sample_request :: LoginRequest where
  "sample_request = \<lparr>LoginRequest.username = [], LoginRequest.password = [], requested_session = [], requested_sequence = 2\<rparr>"




section \<open>Properties\<close>

text \<open>C29: A connection that has not logged in gets no data: what the task sends is nothing, or one
  refusal, or starts with the acceptance of a login request whose credentials the authenticator
  accepted and whose session, if it names one, is that of the server.\<close>

theorem soup_login_gate:
  assumes "handle_subscriber sends check session_id first latest warmup ranges tx events = Some r" "r \<in> {Inl st, Inr st}"
  shows "sent st = [] \<or> (\<exists>why. sent st = [SoupPacket.LoginRejected why])
    \<or> (\<exists>req ps. first = Some (Inr (LoginRequest req))
        \<and> check (LoginRequest.username req) (LoginRequest.password req) = Inr ()
        \<and> str_trim (requested_session req) \<in> {[], str_trim session_id}
        \<and> sent st = LoginAccepted \<lparr>LoginAccepted.session = session_id,
            sequence = resume_from latest (requested_sequence req)\<rparr> # ps)"
  using gate [OF assms] by (force simp: check_login_def Let_def split: sum.splits if_splits)

theorem soup_login_gate_witness:
  "\<exists>st. handle_subscriber (\<lambda>_. True) (StaticAuthenticator_check \<lparr>SoupCredentials.username = [1], password = [2]\<rparr>) []
      (Some (Inr (LoginRequest sample_request))) (RingSeqStore_latest RingSeqStore_new) (Inr []) (\<lambda>_. RingSeqStore_range RingSeqStore_new) None []
      = Some (Inl st)
    \<and> sent st = [SoupPacket.LoginRejected NotAuthorized]"
proof -
  let ?check = "StaticAuthenticator_check \<lparr>SoupCredentials.username = [1], password = [2]\<rparr>"
  have no: "check_login ?check [] sample_request = Inl (SoupPacket.LoginRejected NotAuthorized)"
    by (simp add: check_login_def StaticAuthenticator_check_def sample_request_def)
  then obtain st where run: "handle_subscriber (\<lambda>_. True) ?check [] (Some (Inr (LoginRequest sample_request)))
      (RingSeqStore_latest RingSeqStore_new) (Inr []) (\<lambda>_. RingSeqStore_range RingSeqStore_new) None [] = Some (Inl st)"
    "sent st = [SoupPacket.LoginRejected NotAuthorized]"
    by (simp add: handle_subscriber_def Let_def soup_send_last_def soup_send_def)
  from soup_login_gate [OF run(1), of st] run show ?thesis by blast
qed



end
