(* ===== verification/Itch_Soup_System.thy ===== *)
theory Itch_Soup_System
  imports Itch_Soup_Server
begin

text \<open>
  SoupBinTCP from end to end: the login request of the client on the wire, the task of the server with
  the store and the broadcast behind it, its packets on the wire, and the session of the client.
\<close>

section \<open>The packets of a task on the wire\<close>







section \<open>Properties\<close>



end
