(* ===== verification/Itch_Replay.thy ===== *)
theory Itch_Replay
  imports Itch_Framing Itch_Message_Codec
begin

text \<open>
  The capture reader of \<open>itch-replay/src/lib.rs\<close>: an iterator over the messages of a capture in one of
  its two formats.  The reader behind it is the list of what its reads give, so that every way a
  \<open>Read\<close> may cut its bytes, end or fail is a value.  The lemmas show that the messages of a capture
  come back whatever the reads are, and what a cut-off capture gives.
\<close>

section \<open>Definitions\<close>

text \<open>What a \<open>Read\<close> still has: bytes that are there for the next reads, or an error.  A read gives at
  most the bytes asked for; no bytes mean the end of the file.\<close>

type_synonym reader = "(string + bytes) list"

fun read :: "nat \<Rightarrow> reader \<Rightarrow> (string + bytes) \<times> reader" where
  "read n [] = (Inr [], [])"
| "read n (Inl e # r) = (Inl e, r)"
| "read n (Inr w # r) = (Inr (take n w), if n < length w then Inr (drop n w) # r else r)"

definition message_total_len :: "u8 \<Rightarrow> nat option" where
  "message_total_len tag =
    (let body =
       (if tag = byte (CHR ''S'') then Some SystemEvent_BODY_LEN
        else if tag = byte (CHR ''R'') then Some StockDirectory_BODY_LEN
        else if tag = byte (CHR ''H'') then Some StockTradingAction_BODY_LEN
        else if tag = byte (CHR ''Y'') then Some RegShoRestriction_BODY_LEN
        else if tag = byte (CHR ''L'') then Some MarketParticipantPosition_BODY_LEN
        else if tag = byte (CHR ''V'') then Some MwcbDeclineLevel_BODY_LEN
        else if tag = byte (CHR ''W'') then Some MwcbStatus_BODY_LEN
        else if tag = byte (CHR ''K'') then Some IpoQuotingPeriodUpdate_BODY_LEN
        else if tag = byte (CHR ''A'') then Some AddOrder_BODY_LEN
        else if tag = byte (CHR ''F'') then Some AddOrderWithMpid_BODY_LEN
        else if tag = byte (CHR ''E'') then Some OrderExecuted_BODY_LEN
        else if tag = byte (CHR ''C'') then Some OrderExecutedWithPrice_BODY_LEN
        else if tag = byte (CHR ''X'') then Some OrderCancel_BODY_LEN
        else if tag = byte (CHR ''D'') then Some OrderDelete_BODY_LEN
        else if tag = byte (CHR ''U'') then Some OrderReplace_BODY_LEN
        else if tag = byte (CHR ''P'') then Some TradeNonCross_BODY_LEN
        else if tag = byte (CHR ''Q'') then Some CrossTrade_BODY_LEN
        else if tag = byte (CHR ''B'') then Some BrokenTrade_BODY_LEN
        else if tag = byte (CHR ''I'') then Some Noii_BODY_LEN
        else if tag = byte (CHR ''N'') then Some RetailPriceImprovement_BODY_LEN
        else None)
     in map_option (\<lambda>body. 1 + body) body)"

datatype CaptureFormat = Glimpse | RawBodies

text \<open>The text of a truncation error, by its format string and arguments.\<close>

datatype TruncatedMsg =
    ExpectedBytes nat
  | ExpectedAfterPrefix nat
  | ExpectedBody nat u8

datatype ReplayError =
    Io string
  | Protocol ProtocolError
  | Truncated u64 TruncatedMsg
  | FrameTooLarge u64 nat nat

record MessageIterator =
  reader :: reader
  format :: CaptureFormat
  offset :: u64

definition MessageIterator_new :: "reader \<Rightarrow> CaptureFormat \<Rightarrow> MessageIterator" where
  "MessageIterator_new r f = \<lparr>reader = r, format = f, offset = 0\<rparr>"

text \<open>The loop of \<open>read_exact\<close>: the bytes read, fewer than \<open>n\<close> at the end of the file.\<close>

function read_loop :: "nat \<Rightarrow> bytes \<Rightarrow> reader \<Rightarrow> (string + bytes) \<times> reader" where
  "read_loop n got r =
    (if length got < n then
       (case read (n - length got) r of
          (Inl e, r) \<Rightarrow> (Inl e, r)
        | (Inr w, r) \<Rightarrow> if w = [] then (Inr got, r) else read_loop n (got @ w) r)
     else (Inr got, r))"
  by pat_completeness auto
termination by (relation "measure (\<lambda>(n, got, r). n - length got)") (auto intro!: diff_less_mono2)

declare read_loop.simps [simp del]

definition MessageIterator_read_exact :: "nat \<Rightarrow> MessageIterator \<Rightarrow> (ReplayError + bytes option) \<times> MessageIterator" where
  "MessageIterator_read_exact n self =
    (case read_loop n [] (reader self) of
       (Inl e, r) \<Rightarrow> (Inl (Io e), self\<lparr>reader := r\<rparr>)
     | (Inr got, r) \<Rightarrow>
         if length got < n then
           if got = [] then (Inr None, self\<lparr>reader := r\<rparr>)
           else
             let off = offset self + of_nat (length got) in
             (Inl (Truncated off (ExpectedBytes (n - length got))), self\<lparr>reader := r, offset := off\<rparr>)
         else (Inr (Some got), self\<lparr>reader := r, offset := offset self + of_nat n\<rparr>))"

abbreviation GLIMPSE_MAX_MESSAGE_LEN :: nat where "GLIMPSE_MAX_MESSAGE_LEN \<equiv> 1024"

definition next_glimpse :: "MessageIterator \<Rightarrow> (ReplayError + Message) option \<times> MessageIterator" where
  "next_glimpse self =
    (case MessageIterator_read_exact 2 self of
       (Inl e, self) \<Rightarrow> (Some (Inl e), self)
     | (Inr None, self) \<Rightarrow> (None, self)
     | (Inr (Some len_bytes), self) \<Rightarrow>
         let len = be_val [len_bytes ! 0, len_bytes ! 1] in
         if len = 0 then (None, self)
         else if len > GLIMPSE_MAX_MESSAGE_LEN
         then (Some (Inl (FrameTooLarge (offset self) len GLIMPSE_MAX_MESSAGE_LEN)), self)
         else (case MessageIterator_read_exact len self of
             (Inl e, self) \<Rightarrow> (Some (Inl e), self)
           | (Inr None, self) \<Rightarrow> (Some (Inl (Truncated (offset self) (ExpectedAfterPrefix len))), self)
           | (Inr (Some frame), self) \<Rightarrow> (Some (map_sum Protocol id (Message_decode frame)), self)))"

definition next_raw_bodies :: "MessageIterator \<Rightarrow> (ReplayError + Message) option \<times> MessageIterator" where
  "next_raw_bodies self =
    (case MessageIterator_read_exact 1 self of
       (Inl e, self) \<Rightarrow> (Some (Inl e), self)
     | (Inr None, self) \<Rightarrow> (None, self)
     | (Inr (Some tag_slice), self) \<Rightarrow>
         let tag = tag_slice ! 0 in
         (case message_total_len tag of
            None \<Rightarrow> (Some (Inl (Protocol (UnknownMessageType tag))), self)
          | Some total_len \<Rightarrow>
              if total_len > GLIMPSE_MAX_MESSAGE_LEN
              then (Some (Inl (FrameTooLarge (offset self) total_len GLIMPSE_MAX_MESSAGE_LEN)), self)
              else
                let remaining = total_len - 1 in
                (case MessageIterator_read_exact remaining self of
                   (Inl e, self) \<Rightarrow> (Some (Inl e), self)
                 | (Inr None, self) \<Rightarrow> (Some (Inl (Truncated (offset self) (ExpectedBody remaining tag))), self)
                 | (Inr (Some body), self) \<Rightarrow> (Some (map_sum Protocol id (Message_decode (tag # body))), self))))"

definition MessageIterator_next :: "MessageIterator \<Rightarrow> (ReplayError + Message) option \<times> MessageIterator" where
  "MessageIterator_next self =
    (case format self of Glimpse \<Rightarrow> next_glimpse self | RawBodies \<Rightarrow> next_raw_bodies self)"

section \<open>Reading\<close>

text \<open>A reader that never fails and gives bytes until its end.\<close>

fun plain :: "reader \<Rightarrow> bool" where
  "plain [] \<longleftrightarrow> True"
| "plain (Inl e # r) \<longleftrightarrow> False"
| "plain (Inr w # r) \<longleftrightarrow> w \<noteq> [] \<and> plain r"

fun content :: "reader \<Rightarrow> bytes" where
  "content [] = []"
| "content (Inl e # r) = []"
| "content (Inr w # r) = w @ content r"

lemma read_plain:
  assumes "plain r" "0 < n"
  shows "\<exists>w r'. read n r = (Inr w, r') \<and> plain r' \<and> content r = w @ content r' \<and> length w \<le> n
    \<and> (w = [] \<longrightarrow> r = [])"
  using assms by (cases "(n, r)" rule: read.cases) auto

lemma plain_content: "plain r \<Longrightarrow> content r = [] \<longleftrightarrow> r = []"
  by (cases r rule: content.cases) auto

lemma read_loop_plain:
  assumes "plain r" "length got \<le> n"
  shows "\<exists>r'. read_loop n got r = (Inr (got @ take (n - length got) (content r)), r') \<and> plain r'
    \<and> content r' = drop (n - length got) (content r)"
  using assms
proof (induction n got r rule: read_loop.induct)
  case (1 n got r)
  show ?case
  proof (cases "length got < n")
    case True
    then obtain w r1 where w: "read (n - length got) r = (Inr w, r1)" "plain r1" "content r = w @ content r1"
      "length w \<le> n - length got" "w = [] \<longrightarrow> r = []"
      using read_plain [OF "1.prems"(1), of "n - length got"] by auto
    show ?thesis
    proof (cases "w = []")
      case True
      then show ?thesis using \<open>length got < n\<close> w by (auto simp: read_loop.simps [of n got "[]"])
    next
      case False
      have "length (got @ w) \<le> n" using w(4) True by simp
      then show ?thesis using "1.IH" [OF True w(1) [symmetric] refl False w(2)] True False w
        by (simp add: read_loop.simps [of n got r])
    qed
  next
    case False
    then show ?thesis using "1.prems" by (auto simp: read_loop.simps [of n got r])
  qed
qed

text \<open>The bytes an iterator has still to read, at its offset.\<close>

definition holds :: "MessageIterator \<Rightarrow> CaptureFormat \<Rightarrow> nat \<Rightarrow> bytes \<Rightarrow> bool" where
  "holds self f off b \<longleftrightarrow> format self = f \<and> offset self = of_nat off \<and> plain (reader self) \<and> content (reader self) = b"

lemma iterator_read_some:
  assumes "holds self f off b" "n \<le> length b"
  shows "\<exists>self'. MessageIterator_read_exact n self = (Inr (Some (take n b)), self') \<and> holds self' f (off + n) (drop n b)"
  using assms read_loop_plain [of "reader self" "[]" n]
  by (auto simp: holds_def MessageIterator_read_exact_def)

lemma iterator_read_end:
  assumes "holds self f off []" "0 < n"
  shows "\<exists>self'. MessageIterator_read_exact n self = (Inr None, self') \<and> holds self' f off []"
  using assms read_loop_plain [of "reader self" "[]" n]
  by (auto simp: holds_def MessageIterator_read_exact_def)

lemma iterator_read_cut:
  assumes "holds self f off b" "b \<noteq> []" "length b < n"
  shows "\<exists>self'. MessageIterator_read_exact n self = (Inl (Truncated (of_nat (off + length b)) (ExpectedBytes (n - length b))), self')
    \<and> holds self' f (off + length b) []"
  using assms read_loop_plain [of "reader self" "[]" n]
  by (auto simp: holds_def MessageIterator_read_exact_def Let_def)

section \<open>Captures\<close>

text \<open>A message in a capture: what the first read takes, and what the second one takes.\<close>

fun capture_head :: "CaptureFormat \<Rightarrow> Message \<Rightarrow> bytes" where
  "capture_head Glimpse m = to_be 2 (length (Message_wire m))"
| "capture_head RawBodies m = [Message_tag m]"

fun capture_rest :: "CaptureFormat \<Rightarrow> Message \<Rightarrow> bytes" where
  "capture_rest Glimpse m = Message_wire m"
| "capture_rest RawBodies m = Message_body_wire m"

definition capture_frame :: "CaptureFormat \<Rightarrow> Message \<Rightarrow> bytes" where
  "capture_frame f m = capture_head f m @ capture_rest f m"

text \<open>The end of both functions: what becomes of the second read.\<close>

definition finish ::
  "bytes \<Rightarrow> TruncatedMsg \<Rightarrow> (ReplayError + bytes option) \<times> MessageIterator \<Rightarrow> (ReplayError + Message) option \<times> MessageIterator" where
  "finish tag msg r =
    (case r of
       (Inl e, self) \<Rightarrow> (Some (Inl e), self)
     | (Inr None, self) \<Rightarrow> (Some (Inl (Truncated (offset self) msg)), self)
     | (Inr (Some w), self) \<Rightarrow> (Some (map_sum Protocol id (Message_decode (tag @ w))), self))"

lemma message_total_len_tag: "message_total_len (Message_tag m) = Some (Message_encoded_len m)"
  by (cases m) (simp_all add: message_total_len_def Message_encoded_len_def)

lemma Message_wire_split:
  assumes "Message_ok m"
  shows "Message_wire m = Message_tag m # Message_body_wire m"
    "length (Message_body_wire m) = Message_encoded_len m - 1" "1 < Message_encoded_len m" "Message_encoded_len m \<le> 50"
proof -
  show "1 < Message_encoded_len m" by (cases m) (simp_all add: Message_encoded_len_def BODY_LEN_defs)
qed (use length_Message_wire [OF assms] Message_encoded_len_bound [of m] in \<open>simp_all add: Message_wire_def\<close>)

lemma next_of:
  assumes "holds self f off b"
  shows "MessageIterator_next self = (case f of Glimpse \<Rightarrow> next_glimpse self | RawBodies \<Rightarrow> next_raw_bodies self)"
  using assms by (simp add: MessageIterator_next_def holds_def)

lemma next_end:
  assumes "holds self f off []"
  shows "\<exists>self'. MessageIterator_next self = (None, self') \<and> holds self' f off []"
proof (cases f)
  case Glimpse
  from iterator_read_end [OF assms, of 2] obtain self' where "MessageIterator_read_exact 2 self = (Inr None, self')" "holds self' f off []" by auto
  then show ?thesis using Glimpse by (simp add: next_of [OF assms] next_glimpse_def)
next
  case RawBodies
  from iterator_read_end [OF assms, of 1] obtain self' where "MessageIterator_read_exact 1 self = (Inr None, self')" "holds self' f off []" by auto
  then show ?thesis using RawBodies by (simp add: next_of [OF assms] next_raw_bodies_def)
qed

lemma next_head:
  assumes "holds self f off (capture_head f m @ b)" "Message_ok m"
  shows "\<exists>self' tag msg. holds self' f (off + length (capture_head f m)) b
    \<and> MessageIterator_next self = finish tag msg (MessageIterator_read_exact (length (capture_rest f m)) self')
    \<and> tag @ capture_rest f m = Message_wire m"
proof (cases f)
  case Glimpse
  let ?len = "length (Message_wire m)"
  have small: "?len \<noteq> 0" "\<not> 1024 < ?len" "?len < 65536" using assms(2) Message_wire_split [OF assms(2)] by simp_all
  obtain x y where xy: "to_be 2 ?len = [x, y]"
    using length_to_be [of 2 ?len] by (auto simp: numeral_2_eq_2 length_Suc_conv)
  have len: "be_val [x, y] = ?len" using small be_val_to_be [of 2 ?len] xy by simp
  obtain self' where s: "MessageIterator_read_exact 2 self = (Inr (Some [x, y]), self')" "holds self' Glimpse (off + 2) b"
    using iterator_read_some [OF assms(1), of 2] Glimpse by (auto simp: xy)
  have "MessageIterator_next self = finish [] (ExpectedAfterPrefix ?len) (MessageIterator_read_exact ?len self')"
    using small(1,2) unfolding next_of [OF assms(1)] next_glimpse_def s(1) finish_def
    by (simp add: Glimpse len Let_def del: be_val.simps split: prod.split sum.split option.split)
  then show ?thesis using s(2) Glimpse by (auto simp: xy)
next
  case RawBodies
  obtain self' where s: "MessageIterator_read_exact 1 self = (Inr (Some [Message_tag m]), self')" "holds self' RawBodies (off + 1) b"
    using iterator_read_some [OF assms(1), of 1] RawBodies by auto
  have "MessageIterator_next self
      = finish [Message_tag m] (ExpectedBody (Message_encoded_len m - 1) (Message_tag m)) (MessageIterator_read_exact (Message_encoded_len m - 1) self')"
    using Message_encoded_len_bound [of m] unfolding next_of [OF assms(1)] next_raw_bodies_def s(1) finish_def
    by (simp add: RawBodies message_total_len_tag Let_def split: prod.split sum.split option.split)
  then show ?thesis using s(2) RawBodies Message_wire_split [OF assms(2)] by auto
qed

text \<open>A message that is there completely, and one that is cut off.\<close>

lemma next_frame:
  assumes "holds self f off (capture_frame f m @ b)" "Message_ok m"
  shows "\<exists>self'. MessageIterator_next self = (Some (Inr m), self') \<and> holds self' f (off + length (capture_frame f m)) b"
proof -
  obtain self1 tag msg where 1: "holds self1 f (off + length (capture_head f m)) (capture_rest f m @ b)"
    "MessageIterator_next self = finish tag msg (MessageIterator_read_exact (length (capture_rest f m)) self1)"
    "tag @ capture_rest f m = Message_wire m"
    using next_head [of self f off m "capture_rest f m @ b"] assms by (auto simp: capture_frame_def)
  obtain self2 where "MessageIterator_read_exact (length (capture_rest f m)) self1 = (Inr (Some (capture_rest f m)), self2)"
    "holds self2 f (off + length (capture_head f m) + length (capture_rest f m)) b"
    using iterator_read_some [OF 1(1), of "length (capture_rest f m)"] by auto
  then show ?thesis using 1(2,3) Message_decode_wire [OF assms(2), of "[]"]
    by (simp add: finish_def capture_frame_def add.assoc)
qed

lemma next_cut:
  assumes "holds self f off part" "part \<noteq> []" "part @ missing = capture_frame f m" "missing \<noteq> []" "Message_ok m"
  shows "\<exists>self' msg. MessageIterator_next self = (Some (Inl (Truncated (of_nat (off + length part)) msg)), self')
    \<and> holds self' f (off + length part) []"
proof (cases "length part < length (capture_head f m)")
  case True
  then have "f = Glimpse" "length part < 2" using assms(2) by (cases f; cases part; simp)+
  then obtain self2 where "MessageIterator_read_exact 2 self = (Inl (Truncated (of_nat (off + length part)) (ExpectedBytes (2 - length part))), self2)"
    "holds self2 f (off + length part) []" using iterator_read_cut [OF assms(1,2), of 2] by blast
  then show ?thesis using \<open>f = Glimpse\<close> unfolding next_of [OF assms(1)] next_glimpse_def
    by (auto simp del: of_nat_add split: CaptureFormat.split)
next
  case False
  let ?h = "length (capture_head f m)"
  define b where "b = drop ?h part"
  have "capture_head f m = take ?h part" and rest: "capture_rest f m = b @ missing"
    using arg_cong [OF assms(3), of "take ?h"] arg_cong [OF assms(3), of "drop ?h"] False
    by (simp_all add: capture_frame_def b_def)
  then have part: "part = capture_head f m @ b" by (metis append_take_drop_id b_def)
  have short: "length b < length (capture_rest f m)" using assms(4) by (simp add: rest)
  obtain self1 tag msg where 1: "holds self1 f (off + length (capture_head f m)) b"
    "MessageIterator_next self = finish tag msg (MessageIterator_read_exact (length (capture_rest f m)) self1)"
    using next_head [of self f off m b] assms(1,5) part by metis
  show ?thesis
  proof (cases "b = []")
    case True
    have "0 < length (capture_rest f m)" using short by linarith
    then obtain self2 where "MessageIterator_read_exact (length (capture_rest f m)) self1 = (Inr None, self2)" "holds self2 f (off + ?h) []"
      using iterator_read_end [OF 1(1) [unfolded True]] by blast
    then show ?thesis using 1(2) part True by (simp add: finish_def holds_def)
  next
    case False
    have "off + ?h + length b = off + length part" by (simp add: part)
    then obtain self2 where "MessageIterator_read_exact (length (capture_rest f m)) self1
        = (Inl (Truncated (of_nat (off + length part)) (ExpectedBytes (length (capture_rest f m) - length b))), self2)"
      "holds self2 f (off + length part) []"
      using iterator_read_cut [OF 1(1) False short] by metis
    then show ?thesis using 1(2) by (simp add: finish_def del: of_nat_add)
  qed
qed

text \<open>A run of the iterator.\<close>

fun nexts :: "nat \<Rightarrow> MessageIterator \<Rightarrow> (ReplayError + Message) option list \<times> MessageIterator" where
  "nexts 0 self = ([], self)"
| "nexts (Suc k) self =
    (case MessageIterator_next self of (x, self) \<Rightarrow> (case nexts k self of (xs, self) \<Rightarrow> (x # xs, self)))"

lemma nexts_end:
  "holds self f off [] \<Longrightarrow> \<exists>self'. nexts k self = (replicate k None, self') \<and> holds self' f off []"
proof (induction k arbitrary: self)
  case (Suc k)
  from next_end [OF Suc.prems] obtain self1 where "MessageIterator_next self = (None, self1)" "holds self1 f off []" by auto
  with Suc.IH [of self1] show ?case by auto
qed auto

lemma nexts_part:
  assumes "holds self f off part" "part = [] \<or> (\<exists>m missing. Message_ok m \<and> missing \<noteq> [] \<and> part @ missing = capture_frame f m)"
  shows "\<exists>msg self'. nexts (Suc k) self
      = ((if part = [] then None else Some (Inl (Truncated (of_nat (off + length part)) msg))) # replicate k None, self')
    \<and> holds self' f (off + length part) []"
proof (cases "part = []")
  case True
  then show ?thesis using nexts_end [of self f off "Suc k"] assms(1) by (auto simp del: nexts.simps)
next
  case False
  then obtain self1 msg where 1: "MessageIterator_next self = (Some (Inl (Truncated (of_nat (off + length part)) msg)), self1)"
    "holds self1 f (off + length part) []"
    using next_cut [OF assms(1) False] assms(2) by blast
  then obtain self2 where "nexts k self1 = (replicate k None, self2)" "holds self2 f (off + length part) []"
    using nexts_end by blast
  then show ?thesis using 1(1) False by (simp del: of_nat_add)
qed

lemma nexts_capture:
  assumes "\<forall>m \<in> set ms. Message_ok m" "holds self f off (concat (map (capture_frame f) ms) @ part)"
    and "part = [] \<or> (\<exists>m missing. Message_ok m \<and> missing \<noteq> [] \<and> part @ missing = capture_frame f m)"
  defines "n \<equiv> length (concat (map (capture_frame f) ms) @ part)"
  shows "\<exists>msg self'. nexts (length ms + Suc k) self
      = (map (Some \<circ> Inr) ms @ (if part = [] then None else Some (Inl (Truncated (of_nat (off + n)) msg))) # replicate k None, self')
    \<and> holds self' f (off + n) []"
  using assms(1,2) unfolding n_def
proof (induction ms arbitrary: self off)
  case Nil
  have "concat (map (capture_frame f) []) @ part = part" by simp
  then show ?case using nexts_part [OF _ assms(3), of self off k] Nil.prems(2)
    by (simp only: list.size list.map append_Nil add_0)
next
  case (Cons m ms)
  let ?w = "capture_frame f m"
  from Cons.prems next_frame [of self f off m] obtain self1 where 1: "MessageIterator_next self = (Some (Inr m), self1)"
    "holds self1 f (off + length ?w) (concat (map (capture_frame f) ms) @ part)" by auto
  have ok: "\<forall>m \<in> set ms. Message_ok m" using Cons.prems(1) by simp
  have len: "off + length ?w + length (concat (map (capture_frame f) ms) @ part)
      = off + length (concat (map (capture_frame f) (m # ms)) @ part)" by simp
  from Cons.IH [OF ok 1(2), unfolded len] 1(1) show ?case
    by (auto simp del: of_nat_add length_append concat.simps)
qed

section \<open>Properties\<close>

text \<open>C32: In both formats, and however the reader cuts its bytes, the iterator over a capture gives the
  captured messages in order.  Where the capture ends between two messages it then gives the end and
  stays there; where it ends inside a message, that is reported once, as a truncation at the offset
  of the end of the file.\<close>

theorem replay_capture:
  assumes "\<forall>m \<in> set ms. Message_ok m" "plain r" "content r = concat (map (capture_frame f) ms) @ part"
    and "part = [] \<or> (\<exists>m missing. Message_ok m \<and> missing \<noteq> [] \<and> part @ missing = capture_frame f m)"
  shows "\<exists>msg self'. nexts (length ms + Suc k) (MessageIterator_new r f)
      = (map (Some \<circ> Inr) ms
         @ (if part = [] then None else Some (Inl (Truncated (of_nat (length (content r))) msg))) # replicate k None, self')
    \<and> offset self' = of_nat (length (content r))"
proof -
  have "holds (MessageIterator_new r f) f 0 (concat (map (capture_frame f) ms) @ part)"
    using assms(2,3) by (simp add: holds_def MessageIterator_new_def)
  from nexts_capture [OF assms(1) this assms(4), of k] show ?thesis
    unfolding assms(3) by (auto simp: holds_def)
qed

theorem replay_capture_witness:
  "\<exists>msg self'. nexts 4 (MessageIterator_new (map (\<lambda>b. Inr [b]) (prefix_frame (Message_wire sample_add)) @ [Inr [0]]) Glimpse)
      = ([Some (Inr sample_add), Some (Inl (Truncated 39 msg)), None, None], self')
    \<and> offset self' = 39"
proof -
  let ?r = "map (\<lambda>b. Inr [b]) (prefix_frame (Message_wire sample_add)) @ [Inr [0]] :: reader"
  have len: "length (Message_wire sample_add) = 36"
    using sample_add_ok(1) by (simp add: Message_encoded_len_def sample_add_def BODY_LEN_defs)
  have bytes: "plain (map (\<lambda>b. Inr [b]) w @ [Inr [0]])" "content (map (\<lambda>b. Inr [b]) w @ [Inr [0]]) = w @ [0]" for w
    by (induction w) simp_all
  have frame: "capture_frame Glimpse sample_add = prefix_frame (Message_wire sample_add)"
    by (simp add: capture_frame_def prefix_frame_def)
  have "[0] @ to_be 1 36 @ Message_wire sample_add = capture_frame Glimpse sample_add"
    by (simp add: capture_frame_def len numeral_2_eq_2)
  moreover have "to_be 1 36 @ Message_wire sample_add \<noteq> []" using len by auto
  ultimately have part: "[0] = ([] :: bytes) \<or> (\<exists>m missing. Message_ok m \<and> missing \<noteq> [] \<and> [0] @ missing = capture_frame Glimpse m)"
    using sample_add_ok(1) by blast
  have total: "length (content ?r) = 39" using len unfolding bytes(2) by (simp add: prefix_frame_def)
  show ?thesis
    using replay_capture [of "[sample_add]" ?r Glimpse "[0]" 2, OF _ bytes(1) _ part] sample_add_ok(1) bytes(2)
    unfolding total by (simp add: frame numeral_eq_Suc del: nexts.simps)
qed

end
