(* ===== verification/Itch_Compressed.thy ===== *)
theory Itch_Compressed
  imports Itch_Soup_Session
begin

text \<open>
  Compressed feeds over SoupBinTCP, \<open>itch-compressed/src/lib.rs\<close>: the decompression of a packet under a
  limit, the handshake, and the connection that hands out the messages of one packet after the
  other.  The zstd library is a parameter: for the decoder, the pieces of output it writes for an input
  and the kind of the error it ends with, if any.  The lemmas show what every packet of a session gives,
  that a bad packet costs its own messages only, and the round trip of a batch of messages.
\<close>

section \<open>Definitions\<close>

definition MAX_DECOMPRESSED_LEN :: nat where "MAX_DECOMPRESSED_LEN = 64 * 1024"

datatype IoErrorKind = InvalidData | UnexpectedEof | WriteZero | OtherKind

datatype CompressedError =
    Soup SoupError
  | Compression string
  | Protocol ProtocolError

type_synonym zstd_decoder = "bytes \<Rightarrow> bytes list \<times> IoErrorKind option"

subsection \<open>Decompression\<close>

fun translate_zstd_io_error :: "IoErrorKind \<Rightarrow> CompressedError" where
  "translate_zstd_io_error InvalidData = Compression ''zstd invalid data''"
| "translate_zstd_io_error UnexpectedEof = Compression ''zstd truncated frame''"
| "translate_zstd_io_error WriteZero = Compression ''zstd output exceeds MAX_DECOMPRESSED_LEN''"
| "translate_zstd_io_error OtherKind = Compression ''zstd decompression failed''"

definition LimitedWriter_write :: "nat \<Rightarrow> bytes \<Rightarrow> bytes \<Rightarrow> (IoErrorKind + nat) \<times> bytes" where
  "LimitedWriter_write cap inner src =
    (let remaining = cap - length inner in
     if remaining = 0 then (Inl WriteZero, inner)
     else let n = min (length src) remaining in (Inr n, inner @ take n src))"

text \<open>\<open>Write::write_all\<close>, and \<open>io::copy\<close> of what the decoder gives, over that writer.\<close>

function write_all :: "nat \<Rightarrow> bytes \<Rightarrow> bytes \<Rightarrow> (IoErrorKind + unit) \<times> bytes" where
  "write_all cap inner src =
    (if src = [] then (Inr (), inner)
     else case LimitedWriter_write cap inner src of
       (Inl e, inner) \<Rightarrow> (Inl e, inner)
     | (Inr n, inner) \<Rightarrow> if n = 0 then (Inl WriteZero, inner) else write_all cap inner (drop n src))"
  by pat_completeness auto
termination by (relation "measure (\<lambda>(cap, inner, src). length src)") auto

declare write_all.simps [simp del]

fun copy_decode :: "nat \<Rightarrow> bytes list \<times> IoErrorKind option \<Rightarrow> bytes \<Rightarrow> (IoErrorKind + unit) \<times> bytes" where
  "copy_decode cap ([], e) inner = (case e of None \<Rightarrow> Inr () | Some kind \<Rightarrow> Inl kind, inner)"
| "copy_decode cap (out # outs, e) inner =
    (case write_all cap inner out of
       (Inl kind, inner) \<Rightarrow> (Inl kind, inner)
     | (Inr _, inner) \<Rightarrow> copy_decode cap (outs, e) inner)"

definition decompress_into :: "zstd_decoder \<Rightarrow> bytes \<Rightarrow> (CompressedError + nat) \<times> bytes" where
  "decompress_into zstd src =
    (case copy_decode MAX_DECOMPRESSED_LEN (zstd src) [] of
       (Inl kind, dst) \<Rightarrow> (Inl (translate_zstd_io_error kind), dst)
     | (Inr _, dst) \<Rightarrow> (Inr (length dst), dst))"

subsection \<open>The connection\<close>

record CompressedSoupConnection =
  scratch :: bytes
  cursor :: nat
  session :: bytes
  expected_sequence :: u64
  session_ended :: bool

fun handshake_reply ::
  "nat \<Rightarrow> bytes \<Rightarrow> timed_item list \<Rightarrow> CompressedError + CompressedSoupConnection \<times> timed_item list" where
  "handshake_reply timeout req_session [] = Inl (Soup (LoginTimeout timeout))"
| "handshake_reply timeout req_session ((wait, item) # replies) =
    (if wait > timeout then Inl (Soup (LoginTimeout timeout))
     else case item of
       None \<Rightarrow> Inl (Soup PrematureClose)
     | Some (Inl e) \<Rightarrow> Inl (Soup e)
     | Some (Inr (LoginAccepted a)) \<Rightarrow>
         if req_session \<noteq> [] \<and> str_trim (LoginAccepted.session a) \<noteq> str_trim req_session
         then Inl (Soup (SessionMismatch req_session (LoginAccepted.session a)))
         else Inr (\<lparr>scratch = [], cursor = 0, session = LoginAccepted.session a,
                    expected_sequence = sequence a, session_ended = False\<rparr>, replies)
     | Some (Inr (SoupPacket.LoginRejected why)) \<Rightarrow> Inl (Soup (SoupError.LoginRejected why))
     | Some (Inr (Debug _)) \<Rightarrow> handshake_reply timeout req_session replies
     | Some (Inr other) \<Rightarrow> Inl (Soup (UnexpectedHandshakePacket (SoupPacket_tag other))))"

definition handshake ::
  "(SoupError + unit) option \<Rightarrow> timed_item list \<Rightarrow> bytes \<Rightarrow> nat
    \<Rightarrow> CompressedError + CompressedSoupConnection \<times> timed_item list" where
  "handshake sent replies req_session timeout =
    (case sent of
       None \<Rightarrow> Inl (Soup (LoginTimeout timeout))
     | Some (Inl e) \<Rightarrow> Inl (Soup e)
     | Some (Inr _) \<Rightarrow> handshake_reply timeout req_session replies)"

definition drain_one_message ::
  "CompressedSoupConnection \<Rightarrow> (CompressedError + Message option) \<times> CompressedSoupConnection" where
  "drain_one_message self =
    (if cursor self \<ge> length (scratch self) then (Inr None, self)
     else case Message_decode (drop (cursor self) (scratch self)) of
       Inr msg \<Rightarrow> (Inr (Some msg), self\<lparr>cursor := cursor self + Message_encoded_len msg,
         expected_sequence := saturating_add (expected_sequence self) 1\<rparr>)
     | Inl e \<Rightarrow> (Inl (CompressedError.Protocol e), self\<lparr>scratch := [], cursor := 0\<rparr>))"

fun compressed_loop ::
  "zstd_decoder \<Rightarrow> framed_item list \<Rightarrow> CompressedSoupConnection
    \<Rightarrow> (CompressedError + Message) option Poll \<times> framed_item list \<times> CompressedSoupConnection" where
  "compressed_loop zstd framed self =
    (case drain_one_message self of
       (Inr (Some msg), self) \<Rightarrow> (Ready (Some (Inr msg)), framed, self)
     | (Inl e, self) \<Rightarrow> (Ready (Some (Inl e)), framed, self)
     | (Inr None, self) \<Rightarrow>
         (case framed of
            [] \<Rightarrow> (Pending, [], self)
          | None # framed \<Rightarrow> (Ready None, framed, self)
          | Some (Inl e) # framed \<Rightarrow> (Ready (Some (Inl (Soup e))), framed, self)
          | Some (Inr packet) # framed \<Rightarrow>
              (case packet of
                 SequencedData payload \<Rightarrow>
                   (case decompress_into zstd payload of
                      (Inr n, dst) \<Rightarrow> compressed_loop zstd framed (self\<lparr>scratch := dst, cursor := 0\<rparr>)
                    | (Inl e, dst) \<Rightarrow> (Ready (Some (Inl e)), framed, self\<lparr>scratch := [], cursor := 0\<rparr>))
               | EndOfSession \<Rightarrow> (Ready (Some (Inl (Soup SessionEnded))), framed, self\<lparr>session_ended := True\<rparr>)
               | ServerHeartbeat \<Rightarrow> compressed_loop zstd framed self
               | Debug payload \<Rightarrow> compressed_loop zstd framed self
               | LoginAccepted _ \<Rightarrow> (Ready (Some (Inl (Soup (UnexpectedHandshakePacket (SoupPacket_tag packet))))), framed, self)
               | SoupPacket.LoginRejected _ \<Rightarrow> (Ready (Some (Inl (Soup (UnexpectedHandshakePacket (SoupPacket_tag packet))))), framed, self)
               | _ \<Rightarrow> (Ready (Some (Inl (Soup (SoupFraming ''client-direction packet on a server stream'')))), framed, self))))"

declare compressed_loop.simps [simp del]

definition CompressedSoupConnection_poll_next ::
  "zstd_decoder \<Rightarrow> framed_item list \<Rightarrow> CompressedSoupConnection
    \<Rightarrow> (CompressedError + Message) option Poll \<times> framed_item list \<times> CompressedSoupConnection" where
  "CompressedSoupConnection_poll_next zstd framed self =
    (if session_ended self then (Ready None, framed, self) else compressed_loop zstd framed self)"

text \<open>\<open>sent\<close> and \<open>flushed\<close> are how the send and the close end; the packet handed to the socket is returned too.\<close>

definition compressed_logout :: "SoupError + unit \<Rightarrow> SoupError + unit \<Rightarrow> (CompressedError + unit) \<times> SoupPacket" where
  "compressed_logout sent flushed =
    (and_then (map_sum Soup id sent) (\<lambda>_. and_then (map_sum Soup id flushed) Inr), LogoutRequest)"

subsection \<open>Batches of messages\<close>

text \<open>\<open>zstd_encode\<close> stands for \<open>zstd::stream::encode_all\<close> at the level asked for.\<close>

fun concat_messages :: "Message list \<Rightarrow> bytes \<Rightarrow> ProtocolError + bytes" where
  "concat_messages [] concatenated = Inr concatenated"
| "concat_messages (m # messages) concatenated =
    (case Message_encode m (replicate (Message_encoded_len m) 0) of
       Inl e \<Rightarrow> Inl e
     | Inr (tmp, n) \<Rightarrow> concat_messages messages (concatenated @ tmp))"

definition compress_messages :: "(bytes \<Rightarrow> IoErrorKind + bytes) \<Rightarrow> Message list \<Rightarrow> CompressedError + bytes" where
  "compress_messages zstd_encode messages =
    (case concat_messages messages [] of
       Inl e \<Rightarrow> Inl (CompressedError.Protocol e)
     | Inr concatenated \<Rightarrow>
         (case zstd_encode concatenated of
            Inl _ \<Rightarrow> Inl (Compression ''zstd compression failed'')
          | Inr compressed \<Rightarrow> Inr compressed))"

function decode_from :: "bytes \<Rightarrow> nat \<Rightarrow> ProtocolError + Message list" where
  "decode_from buf off =
    (if off < length buf then
       (case Message_decode (drop off buf) of
          Inl e \<Rightarrow> Inl e
        | Inr msg \<Rightarrow> map_sum id ((#) msg) (decode_from buf (off + Message_encoded_len msg)))
     else Inr [])"
  by pat_completeness auto
termination by (relation "measure (\<lambda>(buf, off). length buf - off)") (auto simp: Message_encoded_len_def)

declare decode_from.simps [simp del]

definition decompress_messages :: "zstd_decoder \<Rightarrow> bytes \<Rightarrow> CompressedError + Message list" where
  "decompress_messages zstd compressed =
    (case decompress_into zstd compressed of
       (Inl e, _) \<Rightarrow> Inl e
     | (Inr _, buf) \<Rightarrow> map_sum CompressedError.Protocol id (decode_from buf 0))"

section \<open>Decompression under the limit\<close>

lemma write_all_limit:
  "length inner \<le> cap \<Longrightarrow> write_all cap inner src =
    (if length inner + length src \<le> cap then Inr () else Inl WriteZero, take cap (inner @ src))"
proof (induction cap inner src rule: write_all.induct)
  case (1 cap inner src)
  show ?case
  proof (cases "src = [] \<or> length inner = cap")
    case True
    then show ?thesis using "1.prems"
      by (cases "src = []") (auto simp: write_all.simps [of cap inner] LimitedWriter_write_def)
  next
    case False
    define n where "n = min (length src) (cap - length inner)"
    have n: "0 < n" "length (inner @ take n src) \<le> cap" "cap - length inner \<noteq> 0" using False "1.prems" by (auto simp: n_def)
    have w: "LimitedWriter_write cap inner src = (Inr n, inner @ take n src)"
      using n(3) by (simp add: LimitedWriter_write_def n_def Let_def)
    have "write_all cap inner src = write_all cap (inner @ take n src) (drop n src)"
      using False n(1) by (simp add: write_all.simps [of cap inner src] w)
    moreover have "write_all cap (inner @ take n src) (drop n src)
      = (if length (inner @ take n src) + length (drop n src) \<le> cap then Inr () else Inl WriteZero,
         take cap ((inner @ take n src) @ drop n src))"
      using "1.IH" [OF _ w [symmetric] refl _ n(2)] False n(1) by simp
    moreover have "length (inner @ take n src) + length (drop n src) = length inner + length src" by (simp add: n_def)
    ultimately show ?thesis by simp
  qed
qed

lemma copy_decode_limit:
  "length inner \<le> cap \<Longrightarrow> copy_decode cap (outs, e) inner =
    (if cap < length (inner @ concat outs) then Inl WriteZero else case e of None \<Rightarrow> Inr () | Some kind \<Rightarrow> Inl kind,
     take cap (inner @ concat outs))"
proof (induction outs arbitrary: inner)
  case (Cons out outs)
  then show ?case using Cons.IH [of "inner @ out"]
    by (cases "length inner + length out \<le> cap") (simp_all add: write_all_limit)
qed simp

lemma decompress_into_limit:
  assumes "zstd src = (outs, e)"
  shows "decompress_into zstd src =
    (if MAX_DECOMPRESSED_LEN < length (concat outs) then Inl (translate_zstd_io_error WriteZero)
     else case e of None \<Rightarrow> Inr (length (concat outs)) | Some kind \<Rightarrow> Inl (translate_zstd_io_error kind),
     take MAX_DECOMPRESSED_LEN (concat outs))"
  using copy_decode_limit [of "[]" MAX_DECOMPRESSED_LEN outs e]
  by (cases e) (auto simp: decompress_into_def assms)

section \<open>What a packet gives\<close>

function inner_results :: "bytes \<Rightarrow> (CompressedError + Message) list" where
  "inner_results b =
    (if b = [] then []
     else case Message_decode b of
       Inl e \<Rightarrow> [Inl (CompressedError.Protocol e)]
     | Inr msg \<Rightarrow> Inr msg # inner_results (drop (Message_encoded_len msg) b))"
  by pat_completeness auto
termination by (relation "measure length") (auto simp: Message_encoded_len_def)

declare inner_results.simps [simp del]

lemma inner_results_Nil [simp]: "inner_results [] = []" by (simp add: inner_results.simps)

fun packet_results :: "zstd_decoder \<Rightarrow> framed_item \<Rightarrow> (CompressedError + Message) option list" where
  "packet_results zstd None = [None]"
| "packet_results zstd (Some (Inl e)) = [Some (Inl (Soup e))]"
| "packet_results zstd (Some (Inr packet)) =
    (case packet of
       SequencedData payload \<Rightarrow>
         (case decompress_into zstd payload of
            (Inl e, _) \<Rightarrow> [Some (Inl e)]
          | (Inr _, dst) \<Rightarrow> map Some (inner_results dst))
     | ServerHeartbeat \<Rightarrow> []
     | Debug _ \<Rightarrow> []
     | EndOfSession \<Rightarrow> [Some (Inl (Soup SessionEnded))]
     | LoginAccepted _ \<Rightarrow> [Some (Inl (Soup (UnexpectedHandshakePacket (SoupPacket_tag packet))))]
     | SoupPacket.LoginRejected _ \<Rightarrow> [Some (Inl (Soup (UnexpectedHandshakePacket (SoupPacket_tag packet))))]
     | _ \<Rightarrow> [Some (Inl (Soup (SoupFraming ''client-direction packet on a server stream'')))])"

text \<open>What is left of the packet being handed out, and the number of messages among results.\<close>

definition left :: "CompressedSoupConnection \<Rightarrow> (CompressedError + Message) list" where
  "left self = inner_results (drop (cursor self) (scratch self))"

definition inner_messages :: "(CompressedError + Message) option list \<Rightarrow> nat" where
  "inner_messages rs = length (filter (\<lambda>r. \<exists>m. r = Some (Inr m)) rs)"

lemma inner_messages_simps [simp]:
  "inner_messages [] = 0" "inner_messages (xs @ ys) = inner_messages xs + inner_messages ys"
  "inner_messages (Some (Inr m) # rs) = Suc (inner_messages rs)" "inner_messages (None # rs) = inner_messages rs"
  "inner_messages (Some (Inl e) # rs) = inner_messages rs"
  by (simp_all add: inner_messages_def)

fun compressed_polls ::
  "nat \<Rightarrow> zstd_decoder \<Rightarrow> framed_item list \<Rightarrow> CompressedSoupConnection
    \<Rightarrow> (CompressedError + Message) option Poll list \<times> framed_item list \<times> CompressedSoupConnection" where
  "compressed_polls 0 zstd framed self = ([], framed, self)"
| "compressed_polls (Suc n) zstd framed self =
    (case CompressedSoupConnection_poll_next zstd framed self of (r, framed, self) \<Rightarrow>
       case compressed_polls n zstd framed self of (rs, st) \<Rightarrow> (r # rs, st))"

text \<open>The counter after \<open>n\<close> more messages.\<close>

definition counted :: "nat \<Rightarrow> CompressedSoupConnection \<Rightarrow> CompressedSoupConnection \<Rightarrow> bool" where
  "counted n self self' \<longleftrightarrow> unat (expected_sequence self') = min (unat (expected_sequence self) + n) (2 ^ 64 - 1)"

lemma counted_trans: "counted m a b \<Longrightarrow> counted n b c \<Longrightarrow> counted (m + n) a c"
  by (auto simp: counted_def min_def)

lemma counted_0: "expected_sequence self' = expected_sequence self \<Longrightarrow> counted 0 self self'"
  using unat_max_u64 word_le_nat_alt [of "expected_sequence self" "- 1"] by (simp add: counted_def min_def)

text \<open>A poll hands out the next result of the packet at hand.\<close>

lemma poll_left:
  assumes "left self = y # ys" "\<not> session_ended self"
  shows "\<exists>self'. CompressedSoupConnection_poll_next zstd framed self = (Ready (Some y), framed, self')
    \<and> left self' = ys \<and> \<not> session_ended self' \<and> counted (inner_messages [Some y]) self self'"
proof -
  define b where "b = drop (cursor self) (scratch self)"
  have b: "b \<noteq> []" using assms(1) by (auto simp: left_def b_def)
  then have c: "\<not> length (scratch self) \<le> cursor self" by (simp add: b_def)
  show ?thesis
  proof (cases "Message_decode b")
    case (Inl e)
    then have "y = Inl (CompressedError.Protocol e)" "ys = []"
      using assms(1) b by (simp_all add: left_def b_def inner_results.simps)
    then show ?thesis using Inl c assms(2)
      by (simp add: CompressedSoupConnection_poll_next_def compressed_loop.simps [of zstd framed self]
          drain_one_message_def b_def left_def counted_0)
  next
    case (Inr m)
    then have y: "y = Inr m" "ys = inner_results (drop (Message_encoded_len m) b)"
      using assms(1) b by (simp_all add: left_def b_def inner_results.simps [of "drop (cursor self) (scratch self)"])
    define self' where "self' = self\<lparr>cursor := cursor self + Message_encoded_len m,
      expected_sequence := saturating_add (expected_sequence self) 1\<rparr>"
    have "CompressedSoupConnection_poll_next zstd framed self = (Ready (Some y), framed, self')"
      using Inr c assms(2) y(1) by (simp add: CompressedSoupConnection_poll_next_def compressed_loop.simps [of zstd framed self]
          drain_one_message_def b_def self'_def)
    moreover have "left self' = ys" using y(2) by (simp add: left_def self'_def b_def add.commute)
    moreover have "counted 1 self self'" by (simp add: counted_def self'_def unat_saturating_add)
    ultimately show ?thesis using assms(2) y(1) by (intro exI [of _ self']) (simp add: self'_def)
  qed
qed

text \<open>With nothing left of a packet, a poll takes the next item: it skips one that gives nothing, and
  hands out the first result of any other.\<close>

lemma drained: "left self = [] \<longleftrightarrow> length (scratch self) \<le> cursor self"
  by (auto simp: left_def inner_results.simps [of "drop (cursor self) (scratch self)"] split: sum.splits)

lemma poll_item:
  assumes "left self = []" "\<not> session_ended self" "\<not> ends_session item"
  shows "(packet_results zstd item = [] \<and> (\<exists>self'. CompressedSoupConnection_poll_next zstd (item # framed) self
        = CompressedSoupConnection_poll_next zstd framed self'
      \<and> left self' = [] \<and> \<not> session_ended self' \<and> counted 0 self self'))
    \<or> (\<exists>y ys self'. packet_results zstd item = y # ys
      \<and> CompressedSoupConnection_poll_next zstd (item # framed) self = (Ready y, framed, self')
      \<and> map Some (left self') = ys \<and> \<not> session_ended self' \<and> counted (inner_messages [y]) self self')"
proof -
  have d: "drain_one_message self = (Inr None, self)" using assms(1) by (simp add: drain_one_message_def drained)
  note poll = CompressedSoupConnection_poll_next_def compressed_loop.simps [where framed = "i # framed" and self = self for i] d
  consider (data) payload where "item = Some (Inr (SequencedData payload))"
    | (skip) "packet_results zstd item = []" "item = Some (Inr ServerHeartbeat) \<or> (\<exists>p. item = Some (Inr (Debug p)))"
    | (other) y where "packet_results zstd item = [y]" "CompressedSoupConnection_poll_next zstd (item # framed) self = (Ready y, framed, self)"
        "inner_messages [y] = 0"
  proof (cases "(zstd, item)" rule: packet_results.cases)
    case (3 z packet)
    then show thesis using that assms(2,3) by (cases packet) (auto simp: poll)
  qed (use that assms(2) in \<open>auto simp: poll\<close>)
  then show ?thesis
  proof cases
    case (data payload)
    obtain r dst where dec: "decompress_into zstd payload = (r, dst)" by force
    define self1 where "self1 = self\<lparr>scratch := dst, cursor := 0\<rparr>"
    have self1: "left self1 = inner_results dst" "\<not> session_ended self1" "counted 0 self self1"
      using assms(2) by (simp_all add: self1_def left_def counted_0)
    show ?thesis
    proof (cases r)
      case (Inl e)
      then show ?thesis using assms(2) by (simp add: data dec poll left_def counted_0)
    next
      case (Inr n)
      then have *: "CompressedSoupConnection_poll_next zstd (item # framed) self = CompressedSoupConnection_poll_next zstd framed self1"
        "packet_results zstd item = map Some (inner_results dst)"
        using assms(2) self1(2) by (simp_all add: data dec poll self1_def)
      show ?thesis
      proof (cases "inner_results dst")
        case Nil
        then show ?thesis using * self1 by auto
      next
        case (Cons y ys)
        then show ?thesis using * self1(3) poll_left [of self1 y ys zstd framed] self1(1,2) counted_trans [OF self1(3)]
          by (auto simp: add.commute)
      qed
    qed
  next
    case skip
    then show ?thesis using assms by (auto simp: poll counted_0)
  next
    case (other y)
    then show ?thesis using assms by (auto simp: counted_0)
  qed
qed

text \<open>What is left of a packet comes out first.\<close>

lemma polls_left:
  assumes "\<not> session_ended self"
  shows "\<exists>self'. left self' = [] \<and> \<not> session_ended self' \<and> counted (inner_messages (map Some (left self))) self self'
    \<and> (\<forall>n. compressed_polls (length (left self) + n) zstd framed self
        = (case compressed_polls n zstd framed self' of (rs, st) \<Rightarrow> (map (Ready \<circ> Some) (left self) @ rs, st)))"
  using assms
proof (induction "left self" arbitrary: self)
  case Nil
  then show ?case by (intro exI [of _ self]) (simp add: counted_0)
next
  case (Cons y ys)
  then obtain self1 where 1: "CompressedSoupConnection_poll_next zstd framed self = (Ready (Some y), framed, self1)"
    "left self1 = ys" "\<not> session_ended self1" "counted (inner_messages [Some y]) self self1"
    using poll_left [of self y ys zstd framed] by auto
  obtain self2 where 2: "left self2 = []" "\<not> session_ended self2" "counted (inner_messages (map Some ys)) self1 self2"
    "\<forall>n. compressed_polls (length ys + n) zstd framed self1
        = (case compressed_polls n zstd framed self2 of (rs, st) \<Rightarrow> (map (Ready \<circ> Some) ys @ rs, st))"
    using Cons.hyps(1) [OF 1(2) [symmetric] 1(3)] 1(2) by auto
  have "inner_messages (map Some (y # ys)) = inner_messages [Some y] + inner_messages (map Some ys)"
    by (cases y) simp_all
  moreover note 1 2 counted_trans [OF 1(4) 2(3)] Cons.hyps(2) [symmetric]
  ultimately show ?case by (intro exI [of _ self2]) (simp split: prod.split)
qed

lemma compressed_polls_ended: "session_ended self \<Longrightarrow> compressed_polls k zstd framed self = (replicate k (Ready None), framed, self)"
  by (induction k) (simp_all add: CompressedSoupConnection_poll_next_def)

lemma poll_end:
  assumes "left self = []" "\<not> session_ended self"
  shows "CompressedSoupConnection_poll_next zstd (Some (Inr EndOfSession) # later) self
    = (Ready (Some (Inl (Soup SessionEnded))), later, self\<lparr>session_ended := True\<rparr>)"
  using assms by (simp add: CompressedSoupConnection_poll_next_def drained drain_one_message_def
      compressed_loop.simps [of zstd "Some (Inr EndOfSession) # later" self])

text \<open>A session that gives the results \<open>rs\<close> and then ends.\<close>

definition completes ::
  "zstd_decoder \<Rightarrow> nat \<Rightarrow> framed_item list \<Rightarrow> (CompressedError + Message) option list \<Rightarrow> framed_item list
    \<Rightarrow> CompressedSoupConnection \<Rightarrow> bool" where
  "completes zstd k later rs framed self \<longleftrightarrow>
    (\<exists>self'. compressed_polls (length rs + Suc k) zstd (framed @ Some (Inr EndOfSession) # later) self
        = (map Ready rs @ Ready (Some (Inl (Soup SessionEnded))) # replicate k (Ready None), later, self')
      \<and> counted (inner_messages rs) self self' \<and> session_ended self')"

lemma completes_end:
  assumes "left self = []" "\<not> session_ended self"
  shows "completes zstd k later [] [] self"
  using poll_end [OF assms, of zstd later] by (simp add: completes_def compressed_polls_ended counted_0)

lemma completes_left:
  assumes "\<not> session_ended self"
    and "\<And>self'. left self' = [] \<Longrightarrow> \<not> session_ended self' \<Longrightarrow> completes zstd k later rs framed self'"
  shows "completes zstd k later (map Some (left self) @ rs) framed self"
proof -
  let ?f = "framed @ Some (Inr EndOfSession) # later"
  obtain self1 where 1: "left self1 = []" "\<not> session_ended self1" "counted (inner_messages (map Some (left self))) self self1"
    "\<forall>n. compressed_polls (length (left self) + n) zstd ?f self
        = (case compressed_polls n zstd ?f self1 of (rs, st) \<Rightarrow> (map (Ready \<circ> Some) (left self) @ rs, st))"
    using polls_left [OF assms(1), of zstd ?f] by blast
  obtain self' where 2: "compressed_polls (length rs + Suc k) zstd ?f self1
      = (map Ready rs @ Ready (Some (Inl (Soup SessionEnded))) # replicate k (Ready None), later, self')"
    "counted (inner_messages rs) self1 self'" "session_ended self'"
    using assms(2) [OF 1(1,2)] by (auto simp: completes_def simp del: compressed_polls.simps)
  then show ?thesis unfolding completes_def using 1(4) [rule_format, of "length rs + Suc k"] counted_trans [OF 1(3) 2(2)]
    by (intro exI [of _ self']) (simp add: add.assoc del: compressed_polls.simps)
qed

lemma completes_item:
  assumes "left self = []" "\<not> session_ended self" "\<not> ends_session item"
    and "\<And>self'. \<not> session_ended self' \<Longrightarrow> completes zstd k later (map Some (left self') @ rs) framed self'"
  shows "completes zstd k later (packet_results zstd item @ rs) (item # framed) self"
  using poll_item [OF assms(1-3), of zstd "framed @ Some (Inr EndOfSession) # later"]
proof (elim disjE exE conjE)
  fix self2
  assume "packet_results zstd item = []" and 2: "left self2 = []" "\<not> session_ended self2" "counted 0 self self2"
    and "CompressedSoupConnection_poll_next zstd (item # framed @ Some (Inr EndOfSession) # later) self
      = CompressedSoupConnection_poll_next zstd (framed @ Some (Inr EndOfSession) # later) self2"
  then show ?thesis using assms(4) [OF 2(2)] counted_trans [OF 2(3)] by (auto simp: completes_def)
next
  fix y ys self2
  assume some: "packet_results zstd item = y # ys"
    and "CompressedSoupConnection_poll_next zstd (item # framed @ Some (Inr EndOfSession) # later) self
      = (Ready y, framed @ Some (Inr EndOfSession) # later, self2)"
    and 2: "map Some (left self2) = ys" "\<not> session_ended self2" "counted (inner_messages [y]) self self2"
  then show ?thesis using assms(4) [OF 2(2)] counted_trans [OF 2(3)] inner_messages_simps(2) [of "[y]" "ys @ rs"]
    by (auto simp: completes_def)
qed

lemma compressed_run:
  "\<forall>i \<in> set framed. \<not> ends_session i \<Longrightarrow> \<not> session_ended self
    \<Longrightarrow> completes zstd k later (map Some (left self) @ concat (map (packet_results zstd) framed)) framed self"
proof (induction framed arbitrary: self)
  case Nil
  then show ?case using completes_left [of self zstd k later "[]" "[]"] completes_end by simp
next
  case (Cons item framed)
  then show ?case
    using completes_left [of self zstd k later "packet_results zstd item @ concat (map (packet_results zstd) framed)" "item # framed"]
      completes_item [of _ item zstd k later "concat (map (packet_results zstd) framed)" framed] by simp
qed

section \<open>Batches\<close>

lemma concat_messages_wire:
  "\<forall>m \<in> set ms. Message_ok m \<Longrightarrow> concat_messages ms b = Inr (b @ concat (map Message_wire ms))"
  using Message_encode_Inr [where buf = "replicate (Message_encoded_len m) 0" for m]
  by (induction ms arbitrary: b) simp_all

lemma inner_results_wire:
  "\<forall>m \<in> set ms. Message_ok m \<Longrightarrow> inner_results (concat (map Message_wire ms)) = map Inr ms"
proof (induction ms)
  case (Cons m ms)
  have "Message_wire m @ concat (map Message_wire ms) \<noteq> []" by (simp add: Message_wire_def)
  then show ?case using Cons Message_decode_wire [of m "concat (map Message_wire ms)"]
    by (simp add: inner_results.simps [of "Message_wire m @ concat (map Message_wire ms)"])
qed simp

lemma decode_from_wire:
  "\<forall>m \<in> set ms. Message_ok m \<Longrightarrow> decode_from (b @ concat (map Message_wire ms)) (length b) = Inr ms"
proof (induction ms arbitrary: b)
  case Nil
  then show ?case by (simp add: decode_from.simps)
next
  case (Cons m ms)
  have "0 < Message_encoded_len m" by (simp add: Message_encoded_len_def)
  then show ?case using Cons.IH [of "b @ Message_wire m"] Cons.prems Message_decode_wire [of m "concat (map Message_wire ms)"]
    by (simp add: decode_from.simps [of "b @ Message_wire m @ concat (map Message_wire ms)" "length b"])
qed

lemma length_concat_wire:
  "\<forall>m \<in> set ms. Message_ok m \<Longrightarrow> length (concat (map Message_wire ms)) = sum_list (map Message_encoded_len ms)"
  by (induction ms) simp_all

definition sample_zstd :: zstd_decoder where
  "sample_zstd c = (if c = [0] then ([], Some InvalidData) else ([c], None))"

lemma sample_into:
  "decompress_into sample_zstd [0] = (Inl (Compression ''zstd invalid data''), [])"
  "decompress_into sample_zstd (Message_wire sample_add) = (Inr (length (Message_wire sample_add)), Message_wire sample_add)"
proof -
  show "decompress_into sample_zstd [0] = (Inl (Compression ''zstd invalid data''), [])"
    using decompress_into_limit [of sample_zstd "[0]"] by (simp add: sample_zstd_def)
  have len: "length (Message_wire sample_add) = 36"
    using sample_add_ok(1) by (simp add: Message_encoded_len_def sample_add_def BODY_LEN_defs)
  then have "Message_wire sample_add \<noteq> [0]" by auto
  then have "sample_zstd (Message_wire sample_add) = ([Message_wire sample_add], None)" by (simp add: sample_zstd_def)
  from decompress_into_limit [of sample_zstd, OF this] len
  show "decompress_into sample_zstd (Message_wire sample_add) = (Inr (length (Message_wire sample_add)), Message_wire sample_add)"
    by (simp add: MAX_DECOMPRESSED_LEN_def)
qed

section \<open>Properties\<close>

text \<open>C33: A compressed session gives, for any packets in any order, the results of each packet in turn: its
  messages in order, up to the first one that does not decode; one error for a payload that does not
  decompress or exceeds the limit; nothing for heartbeats and debug packets.  So a bad packet costs its
  own messages only.  The end of the session is reported once, and the sequence counter has advanced by
  the messages handed out.\<close>

theorem compressed_session_stream:
  assumes "\<forall>i \<in> set framed. \<not> ends_session i"
    and "handshake sent replies req_session timeout = Inr (self, rest)"
  shows "\<exists>self'. compressed_polls (length (concat (map (packet_results zstd) framed)) + Suc k) zstd
        (framed @ Some (Inr EndOfSession) # later) self
      = (map Ready (concat (map (packet_results zstd) framed))
         @ Ready (Some (Inl (Soup SessionEnded))) # replicate k (Ready None), later, self')
    \<and> unat (expected_sequence self')
        = min (unat (expected_sequence self) + inner_messages (concat (map (packet_results zstd) framed))) (2 ^ 64 - 1)"
proof -
  have "handshake_reply timeout req_session replies = Inr (self, rest)"
    using assms(2) by (auto simp: handshake_def split: option.splits sum.splits)
  then have "left self = [] \<and> \<not> session_ended self"
    by (induction timeout req_session replies rule: handshake_reply.induct)
      (auto simp: left_def split: if_splits option.splits sum.splits SoupPacket.splits)
  then show ?thesis using compressed_run [OF assms(1), of self zstd k later]
    by (auto simp: completes_def counted_def simp del: compressed_polls.simps)
qed

theorem compressed_session_stream_witness:
  "\<exists>self self'. handshake (Some (Inr ())) [(0, Some (Inr (LoginAccepted \<lparr>LoginAccepted.session = [], sequence = 7\<rparr>)))] [] 0 = Inr (self, [])
    \<and> compressed_polls (Suc (Suc 0) + Suc 1) sample_zstd [Some (Inr (SequencedData [0])), Some (Inr ServerHeartbeat),
        Some (Inr (SequencedData (Message_wire sample_add))), Some (Inr EndOfSession)] self
      = ([Ready (Some (Inl (Compression ''zstd invalid data''))), Ready (Some (Inr sample_add)),
          Ready (Some (Inl (Soup SessionEnded))), Ready None], [], self')
    \<and> unat (expected_sequence self') = 8"
proof -
  let ?framed = "[Some (Inr (SequencedData [0])), Some (Inr ServerHeartbeat), Some (Inr (SequencedData (Message_wire sample_add)))]"
  define self where "self = \<lparr>scratch = [], cursor = 0, session = [], expected_sequence = 7, session_ended = False\<rparr>"
  have hs: "handshake (Some (Inr ())) [(0, Some (Inr (LoginAccepted \<lparr>LoginAccepted.session = [], sequence = 7\<rparr>)))] [] 0 = Inr (self, [])"
    by (simp add: handshake_def self_def)
  have "concat (map (packet_results sample_zstd) ?framed) = [Some (Inl (Compression ''zstd invalid data'')), Some (Inr sample_add)]"
    using inner_results_wire [of "[sample_add]"] sample_add_ok(1) by (simp add: sample_into)
  moreover have "\<forall>i \<in> set ?framed. \<not> ends_session i" by simp
  ultimately show ?thesis using compressed_session_stream [OF _ hs, of ?framed sample_zstd 1 "[]"] hs
    by (auto simp: self_def simp del: compressed_polls.simps)
qed

text \<open>C34: A batch of messages that was compressed comes back whole, both from the helper function and, as
  the payload of a packet, from the connection, provided that its messages together are not longer than
  the limit; a longer batch is refused as a whole.  Of the zstd library this needs that decoding gives
  back what was encoded.\<close>

theorem compressed_round_trip:
  assumes "\<forall>m \<in> set ms. Message_ok m" "compress_messages zstd_encode ms = Inr payload"
    and "\<forall>b c. zstd_encode b = Inr c \<longrightarrow> (\<exists>outs. zstd c = (outs, None) \<and> concat outs = b)"
  defines "too_long \<equiv> Compression ''zstd output exceeds MAX_DECOMPRESSED_LEN''"
  shows "if sum_list (map Message_encoded_len ms) \<le> MAX_DECOMPRESSED_LEN
    then decompress_messages zstd payload = Inr ms
      \<and> packet_results zstd (Some (Inr (SequencedData payload))) = map (Some \<circ> Inr) ms
    else decompress_messages zstd payload = Inl too_long
      \<and> packet_results zstd (Some (Inr (SequencedData payload))) = [Some (Inl too_long)]"
proof -
  let ?b = "concat (map Message_wire ms)"
  have "zstd_encode ?b = Inr payload"
    using assms(2) by (simp add: compress_messages_def concat_messages_wire [OF assms(1)] split: sum.splits)
  then obtain outs where outs: "zstd payload = (outs, None)" "concat outs = ?b" using assms(3) by blast
  note into = decompress_into_limit [of zstd, OF outs(1), unfolded outs(2) length_concat_wire [OF assms(1)]]
  show ?thesis
  proof (cases "sum_list (map Message_encoded_len ms) \<le> MAX_DECOMPRESSED_LEN")
    case True
    then have "decompress_into zstd payload = (Inr (sum_list (map Message_encoded_len ms)), ?b)"
      using into length_concat_wire [OF assms(1)] by simp
    then show ?thesis using True inner_results_wire [OF assms(1)] decode_from_wire [OF assms(1), of "[]"]
      by (simp add: decompress_messages_def)
  next
    case False
    then show ?thesis using into by (simp add: decompress_messages_def too_long_def)
  qed
qed

theorem compressed_round_trip_witness:
  "\<exists>payload. compress_messages Inr [sample_add] = Inr payload
    \<and> decompress_messages (\<lambda>c. ([c], None)) payload = Inr [sample_add]"
proof -
  have ok: "\<forall>m \<in> set [sample_add]. Message_ok m" by (simp add: sample_add_ok)
  then have c: "compress_messages Inr [sample_add] = Inr (Message_wire sample_add)"
    using concat_messages_wire [OF ok, of "[]"] by (simp add: compress_messages_def)
  have "Message_encoded_len sample_add \<le> MAX_DECOMPRESSED_LEN"
    by (simp add: Message_encoded_len_def sample_add_def BODY_LEN_defs MAX_DECOMPRESSED_LEN_def)
  then show ?thesis using compressed_round_trip [OF ok c, of "\<lambda>c. ([c], None)"] c by simp
qed

end
