(* ===== verification/Itch_Conformance.thy ===== *)
theory Itch_Conformance
  imports Itch_Message_Codec
begin

text \<open>
  The conformance vectors the workspace publishes for other implementations,
  \<open>itch-conformance/src/vectors.rs\<close> and \<open>enum_vectors.rs\<close>: the bytes of one message of every kind with the
  message they stand for, and for every enum the table of its bytes with some bytes outside of it.
  Evaluating the codec on them ties the model to bytes written down independently of it.
\<close>

section \<open>Definitions\<close>




subsection \<open>One vector per message kind\<close>























subsection \<open>The bytes of the enums\<close>



















section \<open>Evaluation\<close>

















































section \<open>Properties\<close>



end
