(* ===== verification/Itch_Store_Contract.thy ===== *)
theory Itch_Store_Contract
  imports Itch_Source
begin

text \<open>
  The contract test that \<open>itch-source/src/testing.rs\<close> publishes for implementations of a sequence store, as a
  predicate of the four operations and a fresh store: it is false where an assertion panics.  Under the
  laws of the store contract it comes down to whether a store that holds two messages still has the first.
\<close>

section \<open>Definitions\<close>

definition fixture :: "EventCode \<Rightarrow> Message" where
  "fixture code = SystemEvent \<lparr>SystemEvent.header = Header_default, SystemEvent.event_code = code\<rparr>"

definition assert_seq_store_contract ::
  "('s \<Rightarrow> 'e + u64) \<Rightarrow> ('s \<Rightarrow> 'e + u64) \<Rightarrow> ('s \<Rightarrow> u64 \<Rightarrow> nat \<Rightarrow> 'e + (u64 \<times> Message) list)
    \<Rightarrow> ('s \<Rightarrow> u64 \<Rightarrow> Message \<Rightarrow> ('e + unit) \<times> 's) \<Rightarrow> 's \<Rightarrow> bool" where
  "assert_seq_store_contract latest earliest read_range store s =
    (let m1 = fixture EventCode.StartOfMessages; m2 = fixture EventCode.StartOfSystemHours in
     latest s = Inr 0 \<and> earliest s = Inr 0 \<and> read_range s 1 1 = Inr []
     \<and> (case store s 1 m1 of (r, s) \<Rightarrow> r = Inr ()
         \<and> (if latest s = Inr 0
            then earliest s = Inr 0 \<and> read_range s 1 1 = Inr [] \<and> fst (store s 1 m1) = Inr ()
            else latest s = Inr 1
              \<and> (case earliest s of Inl _ \<Rightarrow> False | Inr ear \<Rightarrow> ear \<le> 1)
              \<and> read_range s 1 1 = Inr [(1, m1)]
              \<and> (case store s 2 m2 of (r, s) \<Rightarrow> r = Inr ()
                  \<and> (case read_range s 1 2 of Inl _ \<Rightarrow> False
                      | Inr r \<Rightarrow> length r = 2 \<and> fst (r ! 0) = 1 \<and> fst (r ! 1) = 2)
                  \<and> (case read_range s 1 100 of Inl _ \<Rightarrow> False | Inr r \<Rightarrow> length r = 2)
                  \<and> read_range s 0 1 = Inr []
                  \<and> (case store s 1 m1 of (r, s) \<Rightarrow> r = Inr ()
                      \<and> (case read_range s 1 100 of Inl _ \<Rightarrow> False | Inr r \<Rightarrow> length r = 2))))))"

section \<open>Under the store contract\<close>

lemma run_of_first: "run_of c 1 (Suc 0) = (case c 1 of None \<Rightarrow> [] | Some x \<Rightarrow> [(1, x)])"
  by (simp split: option.split)

lemma run_of_two:
  assumes "c 2 = Some y" "c 3 = None"
  shows "run_of c 1 (Suc (Suc n)) = (case c 1 of None \<Rightarrow> [] | Some x \<Rightarrow> [(1, x), (2, y)])"
  using assms by (cases n) (simp_all split: option.split)

context seq_store
begin

text \<open>A first message goes into an empty store, and one with a larger number into any.\<close>

lemma store_first:
  assumes "ok s" "contents s = Map.empty" "latest s = Inr 0"
  shows "\<exists>s'. store s 1 m = (Inr (), s') \<and> ok s' \<and> latest s' = Inr 1 \<and> contents s' = [1 \<mapsto> m] \<and> earliest s' = Inr 1"
proof -
  obtain r s' where st: "store s 1 m = (r, s')" by force
  have r: "r = Inr ()" using store_conflict [OF assms(1), of 1 m] assms(2) st by simp
  have ok: "ok s'" using store_ok [OF assms(1), of 1 m] st by simp
  have "contents s' p = None" if "p \<noteq> 1" for p
    using store_keeps [OF assms(1) that, of m] assms(2) st by (cases "contents s' p") auto
  then have c: "contents s' = [1 \<mapsto> m]" using store_holds [OF assms(1), of 1 m s'] st r by auto
  then show ?thesis using st r ok store_latest [OF assms(1), of 1 m s' 0] assms(3) earliest_least [OF ok]
    by (auto simp: max_def)
qed

lemma store_second:
  assumes "ok s" "contents s = [1 \<mapsto> x]"
  shows "\<exists>s'. store s 2 m = (Inr (), s') \<and> ok s' \<and> contents s' 2 = Some m \<and> contents s' 1 \<in> {None, Some x}
    \<and> (\<forall>p. p \<noteq> 1 \<longrightarrow> p \<noteq> 2 \<longrightarrow> contents s' p = None)"
proof -
  obtain r s' where st: "store s 2 m = (r, s')" by force
  have r: "r = Inr ()" using store_conflict [OF assms(1), of 2 m] assms(2) st by simp
  have ok: "ok s'" using store_ok [OF assms(1), of 2 m] st by simp
  have old: "contents s' p = Some y \<Longrightarrow> p \<noteq> 2 \<Longrightarrow> p = 1 \<and> y = x" for p y
    using store_keeps [OF assms(1), of p 2 m y] assms(2) st by (auto split: if_splits)
  have "contents s' 1 \<in> {None, Some x}" using old [of 1] by (cases "contents s' 1") simp_all
  moreover have "\<forall>p. p \<noteq> 1 \<longrightarrow> p \<noteq> 2 \<longrightarrow> contents s' p = None" using old by (metis option.exhaust)
  ultimately show ?thesis using st r ok store_holds [OF assms(1), of 2 m s'] by blast
qed

lemma contract_iff:
  assumes "ok s" "contents s = Map.empty" "latest s = Inr 0"
  defines "m1 \<equiv> fixture EventCode.StartOfMessages" and "m2 \<equiv> fixture EventCode.StartOfSystemHours"
  shows "assert_seq_store_contract latest earliest read_range store s
    \<longleftrightarrow> contents (snd (store (snd (store s 1 m1)) 2 m2)) 1 = Some m1"
proof -
  have e0: "earliest s = Inr 0" using earliest_least [OF assms(1)] assms(2) by auto
  obtain s1 where 1: "store s 1 m1 = (Inr (), s1)" "ok s1" "latest s1 = Inr 1" "contents s1 = [1 \<mapsto> m1]" "earliest s1 = Inr 1"
    using store_first [OF assms(1-3)] by blast
  obtain s2 where 2: "store s1 2 m2 = (Inr (), s2)" "ok s2" "contents s2 2 = Some m2" "contents s2 1 \<in> {None, Some m1}"
    "\<And>p. p \<noteq> 1 \<Longrightarrow> p \<noteq> 2 \<Longrightarrow> contents s2 p = None"
    using store_second [OF 1(2,4)] by blast
  obtain r s3 where 3: "store s2 1 m1 = (r, s3)" by force
  have r: "r = Inr ()" "ok s3" using store_conflict [OF 2(2), of 1 m1] store_ok [OF 2(2), of 1 m1] 2(4) 3 by auto
  have c3: "contents s3 = contents s2" if "contents s2 1 = Some m1" using store_same [OF 2(2) that] 3 by simp
  have none: "contents s2 0 = None" "contents s2 3 = None" using 2(5) by simp_all
  have two: "read_range s2 1 (Suc (Suc n)) = Inr (case contents s2 1 of None \<Rightarrow> [] | Some x \<Rightarrow> [(1, x), (2, m2)])" for n
    using range_run [OF 2(2)] run_of_two [OF 2(3) none(2)] by simp
  have runs: "read_range s 1 1 = Inr []" "read_range s1 1 1 = Inr [(1, m1)]" "read_range s2 0 1 = Inr []"
    "read_range s2 1 2 = Inr (case contents s2 1 of None \<Rightarrow> [] | Some x \<Rightarrow> [(1, x), (2, m2)])"
    "read_range s2 1 100 = Inr (case contents s2 1 of None \<Rightarrow> [] | Some x \<Rightarrow> [(1, x), (2, m2)])"
    using range_run [OF assms(1), of 1 1] range_run [OF 1(2), of 1 1] range_run [OF 2(2), of 0 1] two [of 0] two [of 98]
    by (simp_all add: assms(2) 1(4) none numeral_2_eq_2)
  show ?thesis
  proof (cases "contents s2 1")
    case None
    then show ?thesis using 1 2(1) runs by (simp add: assert_seq_store_contract_def Let_def m1_def [symmetric] m2_def [symmetric])
  next
    case (Some x)
    then have x: "contents s2 1 = Some m1" using 2(4) by auto
    have "read_range s3 1 100 = Inr [(1, m1), (2, m2)]"
      using range_run [OF r(2), of 1 100] range_run [OF 2(2), of 1 100] runs(5) c3 [OF x] x by simp
    then show ?thesis using 1 2(1) 3 runs x r e0 assms(3)
      by (simp add: assert_seq_store_contract_def Let_def m1_def [symmetric] m2_def [symmetric])
  qed
qed

end

lemma ring_two_stores:
  "ring_contents (snd (RingSeqStore_store (snd (RingSeqStore_store (RingSeqStore_with_capacity cap) 1 m)) 2 m')) 1
    = (if 2 \<le> cap then Some m else None)"
proof -
  have "1 = max cap 1 \<longleftrightarrow> \<not> 2 \<le> cap" by (auto simp: max_def)
  then show ?thesis
    by (simp add: RingSeqStore_store_def RingSeqStore_with_capacity_def ring_contents_def Let_def btree_remove_def)
qed

section \<open>Properties\<close>

text \<open>C37: The published contract test passes for the ring buffer exactly when its capacity is at least two (a
  ring of one has dropped the first message when the test asks for both), and for the store that
  drops everything.\<close>

theorem store_contract_test:
  "(assert_seq_store_contract RingSeqStore_latest RingSeqStore_earliest RingSeqStore_range RingSeqStore_store
      (RingSeqStore_with_capacity cap) \<longleftrightarrow> 2 \<le> cap)
   \<and> assert_seq_store_contract NullSeqStore_latest NullSeqStore_earliest NullSeqStore_range NullSeqStore_store NullSeqStore"
proof
  let ?s = "RingSeqStore_with_capacity cap"
  have "ring_ok ?s" "ring_contents ?s = Map.empty" "RingSeqStore_latest ?s = Inr 0"
    by (simp_all add: ring_ok_def ring_contents_def RingSeqStore_with_capacity_def RingSeqStore_latest_def)
  from ring.contract_iff [OF this] show "assert_seq_store_contract RingSeqStore_latest RingSeqStore_earliest
      RingSeqStore_range RingSeqStore_store ?s \<longleftrightarrow> 2 \<le> cap"
    by (simp add: ring_two_stores)
qed (simp add: assert_seq_store_contract_def NullSeqStore_latest_def NullSeqStore_earliest_def NullSeqStore_range_def
    NullSeqStore_store_def Let_def)

end
