(* ===== verification/Itch_Compressed_Resilient.thy ===== *)
theory Itch_Compressed_Resilient
  imports Itch_Compressed Itch_Soup_Resilient
begin

text \<open>
  The reconnecting client for compressed feeds, \<open>ResilientCompressedSoupClient\<close> of \<open>itch-compressed/src/lib.rs\<close>.  It
  follows the client of \<open>itch-soup\<close>, with which it shares the configuration and the test for fatal errors, but
  waits a fixed part of the backoff interval and treats bad packets as survivable.  As there, the network is the
  argument \<open>connects\<close>, and \<open>tries\<close> and \<open>slept\<close> record the attempts and the delays.
\<close>

section \<open>Definitions\<close>

record ResilientCompressedSoupClient =
  config :: ResilientSoupConfig
  next_addr :: nat
  attempt :: u32
  last_session :: "bytes option"
  next_sequence :: u64
  conn :: "(CompressedSoupConnection \<times> framed_item list) option"
  terminated :: bool
  tries :: nat
  slept :: "nat list"

definition ResilientCompressedSoupClient_new :: "ResilientSoupConfig \<Rightarrow> ResilientCompressedSoupClient option" where
  "ResilientCompressedSoupClient_new cfg =
    (if addrs cfg = [] then None
     else Some \<lparr>config = cfg, next_addr = 0, attempt = 0, last_session = None,
            next_sequence = initial_sequence cfg, conn = None, terminated = False, tries = 0, slept = []\<rparr>)"

abbreviation compressed_fatal :: "CompressedError \<Rightarrow> bool" where
  "compressed_fatal err \<equiv> (case err of Soup e \<Rightarrow> is_fatal e | _ \<Rightarrow> False)"

definition compressed_backoff_delay :: "ResilientCompressedSoupClient \<Rightarrow> nat" where
  "compressed_backoff_delay self =
    (let cfg = config self;
         min_ms = as_millis_u64 (max (backoff_min cfg div 10 ^ 6) 1);
         max_ms = max (as_millis_u64 (backoff_max cfg div 10 ^ 6)) min_ms;
         exp = min (attempt self) 30;
         upper_ms = min (case checked_shl min_ms exp of Some v \<Rightarrow> v | None \<Rightarrow> - 1) max_ms
     in unat (if upper_ms \<le> min_ms then min_ms else saturating_add min_ms ((upper_ms - min_ms) div 2)) * 10 ^ 6)"

definition compressed_connect_once ::
  "(nat \<Rightarrow> string \<Rightarrow> SoupError + server) \<Rightarrow> ResilientCompressedSoupClient
    \<Rightarrow> (CompressedError + CompressedSoupConnection \<times> framed_item list) \<times> ResilientCompressedSoupClient" where
  "compressed_connect_once connects self =
    (let cfg = config self;
         addr = addrs cfg ! next_addr self;
         k = tries self;
         self = self\<lparr>next_addr := (next_addr self + 1) mod length (addrs cfg), tries := k + 1\<rparr>
     in case connects k addr of
          Inl e \<Rightarrow> (Inl (Soup e), self)
        | Inr server \<Rightarrow>
            let req_session = (case pinned_session cfg of None \<Rightarrow> [] | Some s \<Rightarrow> s) in
            (case server (login_request (credentials cfg) req_session (next_sequence self)) of (sent, replies) \<Rightarrow>
               (case handshake sent replies req_session (login_timeout cfg) of
                  Inl e \<Rightarrow> (Inl e, self)
                | Inr (c, rest) \<Rightarrow>
                    (Inr (c, map snd rest),
                     self\<lparr>last_session := Some (CompressedSoupConnection.session c),
                          next_sequence := CompressedSoupConnection.expected_sequence c, attempt := 0\<rparr>))))"

partial_function (option) compressed_connect_with_backoff ::
  "(nat \<Rightarrow> string \<Rightarrow> SoupError + server) \<Rightarrow> ResilientCompressedSoupClient
    \<Rightarrow> ((CompressedError + CompressedSoupConnection \<times> framed_item list) \<times> ResilientCompressedSoupClient) option" where
  "compressed_connect_with_backoff connects self =
    (case compressed_connect_once connects self of
       (Inr c, self) \<Rightarrow> Some (Inr c, self)
     | (Inl err, self) \<Rightarrow>
         let self = self\<lparr>attempt := saturating_add (attempt self) 1\<rparr> in
         if compressed_fatal err then Some (Inl err, self)
         else if (case max_attempts (config self) of Some m \<Rightarrow> attempt self \<ge> m | None \<Rightarrow> False)
         then Some (Inl err, self)
         else compressed_connect_with_backoff connects
                (self\<lparr>slept := slept self @ [compressed_backoff_delay self]\<rparr>))"

text \<open>What a read makes of the result of a poll; \<open>again\<close> is the next round of its loop.\<close>

definition compressed_handle_poll ::
  "(ResilientCompressedSoupClient \<Rightarrow> ((CompressedError + Message) option \<times> ResilientCompressedSoupClient) option)
    \<Rightarrow> (CompressedError + Message) option \<Rightarrow> framed_item list \<Rightarrow> CompressedSoupConnection \<Rightarrow> ResilientCompressedSoupClient
    \<Rightarrow> ((CompressedError + Message) option \<times> ResilientCompressedSoupClient) option" where
  "compressed_handle_poll again r framed c self =
    (let self = self\<lparr>next_sequence := CompressedSoupConnection.expected_sequence c\<rparr> in
     (case r of
        None \<Rightarrow> again (self\<lparr>conn := None\<rparr>)
      | Some (Inl err) \<Rightarrow>
          (case err of
             CompressedError.Protocol _ \<Rightarrow> Some (Some (Inl err), self\<lparr>conn := Some (c, framed)\<rparr>)
           | Compression _ \<Rightarrow> Some (Some (Inl err), self\<lparr>conn := Some (c, framed)\<rparr>)
           | Soup e \<Rightarrow>
               if is_fatal e then Some (Some (Inl err), self\<lparr>terminated := True, conn := None\<rparr>)
               else Some (Some (Inl err), self\<lparr>conn := None\<rparr>))
      | Some (Inr msg) \<Rightarrow> Some (Some (Inr msg), self\<lparr>conn := Some (c, framed)\<rparr>)))"

lemma compressed_handle_poll_mono [partial_function_mono]:
  assumes "\<And>s. mono_option (\<lambda>f. again f s)"
  shows "mono_option (\<lambda>f. compressed_handle_poll (again f) r framed c self)"
proof (cases r)
  case None
  then show ?thesis using assms by (simp add: compressed_handle_poll_def)
next
  case (Some x)
  then have "compressed_handle_poll f r framed c self = compressed_handle_poll g r framed c self" for f g
    by (simp add: compressed_handle_poll_def)
  then have "(\<lambda>f. compressed_handle_poll (again f) r framed c self) = (\<lambda>f. compressed_handle_poll Map.empty r framed c self)" by blast
  then show ?thesis by (simp only: option.const_mono)
qed

partial_function (option) ResilientCompressedSoupClient_next_message ::
  "zstd_decoder \<Rightarrow> (nat \<Rightarrow> string \<Rightarrow> SoupError + server) \<Rightarrow> ResilientCompressedSoupClient
    \<Rightarrow> ((CompressedError + Message) option \<times> ResilientCompressedSoupClient) option" where
  "ResilientCompressedSoupClient_next_message zstd connects self =
    (if terminated self then Some (None, self)
     else
       case (case conn self of
               Some c \<Rightarrow> Some (Inr c, self)
             | None \<Rightarrow> compressed_connect_with_backoff connects self) of
         None \<Rightarrow> None
       | Some (Inl err, self) \<Rightarrow> Some (Some (Inl err), self\<lparr>terminated := True\<rparr>)
       | Some (Inr (c, framed), self) \<Rightarrow>
           (case CompressedSoupConnection_poll_next zstd framed c of
              (Pending, framed, c) \<Rightarrow> None
            | (Ready r, framed, c) \<Rightarrow>
                compressed_handle_poll (ResilientCompressedSoupClient_next_message zstd connects) r framed c self))"

section \<open>Backoff\<close>

text \<open>The delay is the one of the client of \<open>itch-soup\<close> with the middle of the interval for the random number.\<close>

definition midpoint :: "u64 \<Rightarrow> u64 \<Rightarrow> u64" where
  "midpoint lo hi = saturating_add lo ((hi - lo) div 2)"

definition as_soup :: "ResilientCompressedSoupClient \<Rightarrow> ResilientSoupClient" where
  "as_soup self = \<lparr>ResilientSoupClient.config = config self, next_addr = next_addr self, attempt = attempt self,
     last_session = last_session self, next_sequence = next_sequence self, conn = None, terminated = terminated self,
     tries = tries self, slept = slept self\<rparr>"

lemma compressed_backoff: "compressed_backoff_delay self = backoff_delay midpoint (as_soup self)"
  by (simp add: compressed_backoff_delay_def backoff_delay_def as_soup_def midpoint_def Let_def)

lemma midpoint_between: "lo \<le> hi \<Longrightarrow> lo \<le> midpoint lo hi \<and> midpoint lo hi \<le> hi"
proof -
  assume le: "lo \<le> hi"
  define d where "d = unat hi - unat lo"
  have d: "unat ((hi - lo) div 2) = d div 2" using le by (simp add: unat_div unat_sub d_def)
  have "unat lo + d = unat hi" using le by (simp add: d_def word_le_nat_alt)
  then have "unat lo + d div 2 \<le> unat hi" by linarith
  then have "unat (midpoint lo hi) = unat lo + d div 2"
    using unat_u64_less [of hi] by (simp add: midpoint_def unat_saturating_add d)
  with \<open>unat lo + d div 2 \<le> unat hi\<close> show "lo \<le> midpoint lo hi \<and> midpoint lo hi \<le> hi" by (simp add: word_le_nat_alt)
qed

lemma compressed_backoff_bounds:
  "unat (floor_ms (config self)) * 10 ^ 6 \<le> compressed_backoff_delay self"
  "compressed_backoff_delay self \<le> unat (cap_ms (config self)) * 10 ^ 6"
  using backoff_bounds(1,2) [of midpoint "as_soup self", OF midpoint_between]
  by (simp_all add: compressed_backoff as_soup_def)

lemma compressed_once_fields:
  assumes "compressed_connect_once connects self = (r, self')"
  shows "config self' = config self" "tries self' = Suc (tries self)" "slept self' = slept self"
    "r = Inl e \<Longrightarrow> attempt self' = attempt self"
  using assms by (auto simp: compressed_connect_once_def Let_def split: sum.splits prod.splits)

text \<open>With a bound on the attempts the connect loop returns, after at most that many attempts, and every delay
  lies between the configured bounds.\<close>

lemma compressed_connect_budget:
  assumes "max_attempts (config self) = Some m"
  shows "\<exists>r self' ds. compressed_connect_with_backoff connects self = Some (r, self')
    \<and> tries self' \<le> tries self + max 1 (unat m - unat (attempt self))
    \<and> slept self' = slept self @ ds
    \<and> (\<forall>d \<in> set ds. unat (floor_ms (config self)) * 10 ^ 6 \<le> d \<and> d \<le> unat (cap_ms (config self)) * 10 ^ 6)"
  using assms
proof (induction "unat m - unat (attempt self)" arbitrary: self rule: less_induct)
  case less
  obtain r self1 where once: "compressed_connect_once connects self = (r, self1)" by force
  note f = compressed_once_fields [OF once]
  show ?case
  proof (cases r)
    case (Inr c)
    then show ?thesis using once f by (subst compressed_connect_with_backoff.simps) (auto split: prod.splits)
  next
    case (Inl err)
    define self2 where "self2 = self1\<lparr>attempt := saturating_add (attempt self1) 1\<rparr>"
    define self3 where "self3 = self2\<lparr>slept := slept self2 @ [compressed_backoff_delay self2]\<rparr>"
    have a: "attempt self1 = attempt self" using f(4) Inl by simp
    show ?thesis
    proof (cases "compressed_fatal err \<or> m \<le> attempt self2")
      case True
      then have "compressed_connect_with_backoff connects self = Some (Inl err, self2)"
        using once Inl f less.prems by (subst compressed_connect_with_backoff.simps) (auto simp: self2_def Let_def)
      then show ?thesis using f by (auto simp: self2_def)
    next
      case False
      then have step: "compressed_connect_with_backoff connects self = compressed_connect_with_backoff connects self3"
        using once Inl f less.prems
        by (subst compressed_connect_with_backoff.simps) (simp add: self2_def self3_def Let_def)
      have grow: "unat (attempt self3) = Suc (unat (attempt self))" "unat (attempt self3) < unat m"
        using False unat_saturating_add [of "attempt self" 1] unsigned_less [of m, where ?'a = nat]
        by (auto simp: self3_def self2_def a word_le_nat_alt)
      have "unat m - unat (attempt self3) < unat m - unat (attempt self)" using grow by simp
      from less.hyps [OF this] obtain r self' ds where
        *: "compressed_connect_with_backoff connects self3 = Some (r, self')"
        "tries self' \<le> tries self3 + max 1 (unat m - unat (attempt self3))"
        "slept self' = slept self3 @ ds"
        "\<forall>d \<in> set ds. unat (floor_ms (config self3)) * 10 ^ 6 \<le> d \<and> d \<le> unat (cap_ms (config self3)) * 10 ^ 6"
        using less.prems f by (auto simp: self3_def self2_def)
      have "config self3 = config self" "slept self3 = slept self @ [compressed_backoff_delay self2]"
        "tries self3 = Suc (tries self)" "config self2 = config self"
        using f by (simp_all add: self3_def self2_def)
      with * step grow compressed_backoff_bounds [of self2] show ?thesis
        by (intro exI [of _ r] exI [of _ self'] exI [of _ "compressed_backoff_delay self2 # ds"]) auto
    qed
  qed
qed

end
