(* ===== verification/Itch_Tcp.thy ===== *)
theory Itch_Tcp
  imports Itch_Framing Itch_Message_Codec
begin

text \<open>
  The length-prefix framing of \<open>itch-tcp/src/lib.rs\<close>: \<open>ItchCodec\<close> with its recovery counter, the decoder
  and the encoder.  The lemmas show that the codec is a stream decoder in the sense of the framing
  contract, what every frame of a stream decodes to, and that encoded messages come back however the
  stream is cut.
\<close>

section \<open>Definitions\<close>

definition MAX_MESSAGE_LEN :: nat where "MAX_MESSAGE_LEN = 1024"

datatype TransportError =
    Io string
  | Protocol ProtocolError
  | FrameTooLarge nat nat

record ItchCodec =
  pending_skip :: nat

definition ItchCodec_default :: ItchCodec where
  "ItchCodec_default = \<lparr>pending_skip = 0\<rparr>"

text \<open>The part of \<open>decode\<close> after the recovery counter has run down.\<close>

definition decode_prefixed :: "ItchCodec \<Rightarrow> bytes \<Rightarrow> (TransportError + Message option) \<times> ItchCodec \<times> bytes" where
  "decode_prefixed self src =
    (if length src < 2 then (Inr None, self, src)
     else
       let len = be_val [src ! 0, src ! 1] in
       if len > MAX_MESSAGE_LEN then
         let total = 2 + len in
         (if length src \<ge> total then (Inl (FrameTooLarge len MAX_MESSAGE_LEN), self, drop total src)
          else (Inl (FrameTooLarge len MAX_MESSAGE_LEN), self\<lparr>pending_skip := total - length src\<rparr>, []))
       else if length src < 2 + len then (Inr None, self, src)
       else
         let src = drop 2 src; frame = take len src; src = drop len src
         in (map_sum Protocol Some (Message_decode frame), self, src))"

definition ItchCodec_decode :: "ItchCodec \<Rightarrow> bytes \<Rightarrow> (TransportError + Message option) \<times> ItchCodec \<times> bytes" where
  "ItchCodec_decode self src =
    (if pending_skip self > 0 then
       let to_drop = min (pending_skip self) (length src);
           src = drop to_drop src;
           self = self\<lparr>pending_skip := pending_skip self - to_drop\<rparr>
       in if pending_skip self > 0 then (Inr None, self, src) else decode_prefixed self src
     else decode_prefixed self src)"

definition ItchCodec_encode :: "Message \<Rightarrow> bytes \<Rightarrow> TransportError + bytes" where
  "ItchCodec_encode msg dst =
    (let total = Message_encoded_len msg in
     if total > MAX_MESSAGE_LEN then Inl (FrameTooLarge total MAX_MESSAGE_LEN)
     else
       let dst = dst @ to_be 2 (unat (of_nat total :: u16)); start = length dst;
           dst = dst @ replicate total 0
       in case Message_encode msg (subslice dst start total) of
            Inl e \<Rightarrow> Inl (Protocol e)
          | Inr (written, n) \<Rightarrow> Inr (copy_from_slice dst start written))"

section \<open>The framing contract\<close>

definition too_large :: "nat \<Rightarrow> TransportError option" where
  "too_large len = (if len > MAX_MESSAGE_LEN then Some (FrameTooLarge len MAX_MESSAGE_LEN) else None)"

definition decode_frame :: "bytes \<Rightarrow> TransportError + Message" where
  "decode_frame frame = map_sum Protocol id (Message_decode frame)"

lemma decode_prefixed_prefix:
  "pending_skip s = 0 \<Longrightarrow> decode_prefixed s b = (case prefix_decode too_large decode_frame 0 b of
    (r, k, b') \<Rightarrow> (r, s\<lparr>pending_skip := k\<rparr>, b'))"
  by (simp add: decode_prefixed_def prefix_decode_def too_large_def decode_frame_def Let_def sum.map_comp numeral_2_eq_2)

lemma ItchCodec_decode_prefix:
  "ItchCodec_decode s b = (case prefix_decode too_large decode_frame (pending_skip s) b of
    (r, k, b') \<Rightarrow> (r, s\<lparr>pending_skip := k\<rparr>, b'))"
proof (cases "length b < pending_skip s")
  case True
  then show ?thesis by (simp add: ItchCodec_decode_def prefix_decode_def)
next
  case False
  then have "ItchCodec_decode s b = decode_prefixed (s\<lparr>pending_skip := 0\<rparr>) (drop (pending_skip s) b)"
    by (cases s) (simp add: ItchCodec_decode_def)
  then show ?thesis using False
    by (simp add: decode_prefixed_prefix prefix_decode_drop [of "pending_skip s" b])
qed

interpretation itch_codec: frame_codec ItchCodec_decode
  by (rule frame_codec_via [OF frame_codec_prefix ItchCodec_decode_prefix]) simp_all

lemma itch_codec_idle: "yielded (fst (ItchCodec_decode ItchCodec_default [])) = None"
  by (simp add: ItchCodec_decode_def ItchCodec_default_def decode_prefixed_def)

lemma itch_frame_delimited:
  assumes "length w < 65536"
  shows "delimited ItchCodec_decode ItchCodec_default (prefix_frame w) (frame_result too_large decode_frame w)"
  by (rule delimited_prefix [OF assms, where put = "\<lambda>k s. s\<lparr>pending_skip := k\<rparr>"])
    (simp_all add: ItchCodec_decode_prefix ItchCodec_default_def)

section \<open>Encoding\<close>

text \<open>Messages sent one after the other into the same buffer.\<close>

fun encode_all :: "Message list \<Rightarrow> bytes \<Rightarrow> TransportError + bytes" where
  "encode_all [] dst = Inr dst"
| "encode_all (m # ms) dst = and_then (ItchCodec_encode m dst) (encode_all ms)"

lemma ItchCodec_encode_wire:
  assumes "Message_ok m"
  shows "ItchCodec_encode m dst = Inr (dst @ prefix_frame (Message_wire m))"
proof -
  let ?n = "Message_encoded_len m"
  have small: "?n \<le> 50" by (rule Message_encoded_len_bound)
  then have "unat (of_nat ?n :: u16) = ?n" by (simp add: unat_of_nat)
  moreover have "Message_encode m (replicate ?n 0) = Inr (Message_wire m, ?n)"
    using Message_encode_Inr [OF assms, of "replicate ?n 0"] by simp
  ultimately show ?thesis using small assms
    by (simp add: ItchCodec_encode_def MAX_MESSAGE_LEN_def Let_def subslice_def copy_from_slice_def prefix_frame_def)
qed

lemma encode_all_wire:
  "\<forall>m \<in> set ms. Message_ok m
    \<Longrightarrow> encode_all ms dst = Inr (dst @ concat (map (prefix_frame \<circ> Message_wire) ms))"
  by (induction ms arbitrary: dst) (simp_all add: ItchCodec_encode_wire)

lemma frame_result_message:
  "Message_ok m \<Longrightarrow> frame_result too_large decode_frame (Message_wire m) = Inr m"
  using Message_encoded_len_bound [of m] Message_decode_wire [of m "[]"]
  by (simp add: frame_result_def too_large_def decode_frame_def MAX_MESSAGE_LEN_def)

section \<open>Properties\<close>

text \<open>C22: However the bytes of a stream of frames are cut into reads, and whatever the frames hold, the
  codec gives exactly one result per frame, in order: a refusal for a frame that is too large, the
  error of the message decoder for one it rejects, and the message otherwise.  A bad frame never
  affects the ones behind it.\<close>

theorem tcp_stream_results:
  assumes "\<forall>w \<in> set ws. length w < 65536" and "concat chunks = concat (map prefix_frame ws)"
  shows "fst (feeds ItchCodec_decode (ItchCodec_default, []) chunks) = map (\<lambda>w.
    if length w > MAX_MESSAGE_LEN then Inl (FrameTooLarge (length w) MAX_MESSAGE_LEN)
    else case Message_decode w of Inl e \<Rightarrow> Inl (Protocol e) | Inr m \<Rightarrow> Inr m) ws"
proof -
  have "list_all2 (delimited ItchCodec_decode ItchCodec_default) (map prefix_frame ws)
      (map (frame_result too_large decode_frame) ws)"
    using assms(1) by (induction ws) (simp_all add: itch_frame_delimited)
  from itch_codec.feeds_frames [OF this itch_codec_idle assms(2)]
  have "fst (feeds ItchCodec_decode (ItchCodec_default, []) chunks) = map (frame_result too_large decode_frame) ws" .
  then show ?thesis by (auto simp: frame_result_def too_large_def decode_frame_def split: sum.split)
qed

theorem tcp_stream_results_witness:
  "let ws = [[], replicate 2000 1, Message_wire sample_add]; s = concat (map prefix_frame ws) in
   fst (feeds ItchCodec_decode (ItchCodec_default, []) [take 700 s, drop 700 s])
    = [Inl (Protocol (ProtocolError.Truncated 1 0)), Inl (FrameTooLarge 2000 1024), Inr sample_add]"
proof -
  let ?ws = "[[], replicate 2000 1, Message_wire sample_add]"
  define s where "s = concat (map prefix_frame ?ws)"
  have len: "length (Message_wire sample_add) \<le> 50"
    using Message_encoded_len_bound [of sample_add] sample_add_ok(1) by simp
  then have small: "\<forall>w \<in> set ?ws. length w < 65536" by simp
  have all: "concat [take 700 s, drop 700 s] = concat (map prefix_frame ?ws)"
    unfolding s_def by (simp only: concat.simps append_Nil2 append_take_drop_id)
  have empty: "Message_decode [] = Inl (ProtocolError.Truncated 1 0)" by (simp add: Message_decode_def result_simps)
  have "fst (feeds ItchCodec_decode (ItchCodec_default, []) [take 700 s, drop 700 s])
      = [Inl (Protocol (ProtocolError.Truncated 1 0)), Inl (FrameTooLarge 2000 1024), Inr sample_add]"
    unfolding tcp_stream_results [OF small all]
    using len Message_decode_wire [OF sample_add_ok(1), of "[]"] by (simp add: MAX_MESSAGE_LEN_def empty)
  then show ?thesis by (simp only: Let_def s_def)
qed

text \<open>Messages encoded one after the other come back in order from any split of the bytes into reads.\<close>

lemma tcp_round_trip:
  assumes "\<forall>m \<in> set ms. Message_ok m" and "encode_all ms [] = Inr stream" and "concat chunks = stream"
  shows "fst (feeds ItchCodec_decode (ItchCodec_default, []) chunks) = map Inr ms"
proof -
  have wires: "list_all2 (delimited ItchCodec_decode ItchCodec_default)
      (map (prefix_frame \<circ> Message_wire) ms) (map Inr ms)"
    using assms(1)
  proof (induction ms)
    case (Cons m ms)
    then have "length (Message_wire m) < 65536" using Message_encoded_len_bound [of m] by simp
    from itch_frame_delimited [OF this] Cons frame_result_message [of m] show ?case by simp
  qed simp
  have "concat chunks = concat (map (prefix_frame \<circ> Message_wire) ms)"
    using assms encode_all_wire [OF assms(1), of "[]"] by simp
  from itch_codec.feeds_frames [OF wires itch_codec_idle this] show ?thesis .
qed

end
