(* ===== verification/Itch_Decimal.thy ===== *)
theory Itch_Decimal
  imports Itch_Soup_Codec
begin

text \<open>
  Decimal text of unsigned integers, as \<open>Display\<close> prints and \<open>str::parse\<close> reads them, and its round trip.  The demo client
  and the Redis store use it.
\<close>

section \<open>Definitions\<close>

abbreviation str :: "string \<Rightarrow> bytes" where "str s \<equiv> map byte s"

fun show_dec :: "nat \<Rightarrow> bytes" where
  "show_dec n = (if n < 10 then [] else show_dec (n div 10)) @ [of_nat (0x30 + n mod 10)]"

declare show_dec.simps [simp del]

definition parse_u64 :: "bytes \<Rightarrow> u64 option" where
  "parse_u64 s =
    (let ds = (case s of c # cs \<Rightarrow> if c = byte CHR ''+'' \<and> cs \<noteq> [] then cs else s | [] \<Rightarrow> s)
     in if ds \<noteq> [] \<and> list_all is_ascii_digit ds \<and> decimal 0 ds < 2 ^ 64 then Some (of_nat (decimal 0 ds)) else None)"

section \<open>Lemmas\<close>

lemma digit_value: "n < 10 \<Longrightarrow> unat (of_nat (48 + n) :: u8) = 48 + n"
  by (simp add: unat_of_nat del: of_nat_add)

lemma show_dec_digits: "list_all is_ascii_digit (show_dec n) \<and> show_dec n \<noteq> [] \<and> decimal 0 (show_dec n) = n"
proof (induction n rule: show_dec.induct)
  case (1 n)
  have "is_ascii_digit (of_nat (48 + d))" if "d < 10" for d
    using digit_value [OF that] that by (simp add: is_ascii_digit_def word_le_nat_alt)
  then show ?case
    using 1 digit_value [of n] digit_value [of "n mod 10"] by (subst (1 2 3) show_dec.simps) (auto simp del: of_nat_add)
qed

lemma show_dec_length: "0 < k \<Longrightarrow> n < 10 ^ k \<Longrightarrow> length (show_dec n) \<le> k"
proof (induction n arbitrary: k rule: show_dec.induct)
  case (1 n)
  show ?case
  proof (cases "n < 10")
    case False
    then obtain j where "k = Suc (Suc j)" using 1(2,3) by (cases k; cases "k - 1") auto
    with False 1(1) [of "Suc j"] 1(3) show ?thesis by (subst show_dec.simps) (simp add: less_mult_imp_div_less)
  qed (use 1(2) in \<open>simp add: show_dec.simps\<close>)
qed

lemma decimal_append: "decimal v (ds @ es) = decimal (decimal v ds) es" by (simp add: decimal_def)

lemma decimal_scale: "decimal v ds = v * 10 ^ length ds + decimal 0 ds"
proof (induction ds arbitrary: v)
  case (Cons d ds)
  show ?case using Cons [of "v * 10 + (unat d - 48)"] Cons [of "unat d - 48"] by (simp add: algebra_simps)
qed simp

lemma decimal_zeros: "decimal 0 (replicate n 0x30 @ ds) = decimal 0 ds" by (induction n) simp_all

lemma show_dec_plain: "b \<in> set (show_dec n) \<Longrightarrow> 0x30 \<le> b \<and> b \<le> 0x39"
  using show_dec_digits [of n] by (auto simp: list_all_iff is_ascii_digit_def)

lemma parse_show: "parse_u64 (show_dec (unat q)) = Some q" for q :: u64
proof -
  obtain c cs where c: "show_dec (unat q) = c # cs" using show_dec_digits [of "unat q"] by (cases "show_dec (unat q)") auto
  then have "c \<noteq> byte CHR ''+''" using show_dec_plain [of c "unat q"] by auto
  then have "parse_u64 (show_dec (unat q)) = (if decimal 0 (show_dec (unat q)) < 2 ^ 64 then Some (of_nat (decimal 0 (show_dec (unat q)))) else None)"
    using show_dec_digits [of "unat q"] by (simp add: parse_u64_def c)
  then show ?thesis using show_dec_digits [of "unat q"] unat_u64_less [of q] by simp
qed

lemma show_dec_inj: "show_dec (unat p) = show_dec (unat q) \<longleftrightarrow> p = q" for p q :: u64
  by (metis option.inject parse_show)

end
