(* ===== verification/Itch_Client.thy ===== *)
theory Itch_Client
  imports Itch_Tcp Itch_Decimal
begin

text \<open>
  The demo subscriber, \<open>itch-client/src/main.rs\<close>: the line it prints for a message and the loops over the items of
  its two transports, with the exit code.  Texts are their UTF-8 bytes; what the connection yields, the
  interrupt and how the writes to the standard output end are arguments.
\<close>

section \<open>Definitions\<close>

subsection \<open>Formatting\<close>

text \<open>The alignment of \<open>format!\<close>, which counts characters: the bytes that do not continue one.\<close>

definition characters :: "bytes \<Rightarrow> nat" where
  "characters s = length (filter (\<lambda>b. \<not> utf8_cont b) s)"

abbreviation align_left :: "nat \<Rightarrow> bytes \<Rightarrow> bytes" where
  "align_left width s \<equiv> s @ replicate (width - characters s) space"

abbreviation align_right :: "nat \<Rightarrow> bytes \<Rightarrow> bytes" where
  "align_right width s \<equiv> replicate (width - characters s) space @ s"

abbreviation zero_fill :: "nat \<Rightarrow> bytes \<Rightarrow> bytes" where
  "zero_fill width s \<equiv> replicate (width - length s) 0x30 @ s"

abbreviation fmt_u32 :: "u32 \<Rightarrow> bytes" where "fmt_u32 n \<equiv> show_dec (unat n)"
abbreviation fmt_u64 :: "u64 \<Rightarrow> bytes" where "fmt_u64 n \<equiv> show_dec (unat n)"

text \<open>The derived \<open>Debug\<close> of the enums: the name of the variant.\<close>

abbreviation BreachedLevel_debug :: "BreachedLevel \<Rightarrow> bytes" where
  "BreachedLevel_debug v \<equiv> str (case v of
     BreachedLevel.Level1 \<Rightarrow> ''Level1''
   | BreachedLevel.Level2 \<Rightarrow> ''Level2''
   | BreachedLevel.Level3 \<Rightarrow> ''Level3'')"

abbreviation CrossType_debug :: "CrossType \<Rightarrow> bytes" where
  "CrossType_debug v \<equiv> str (case v of
     CrossType.Opening \<Rightarrow> ''Opening''
   | CrossType.Closing \<Rightarrow> ''Closing''
   | CrossType.Halted \<Rightarrow> ''Halted''
   | CrossType.Intraday \<Rightarrow> ''Intraday'')"

abbreviation EventCode_debug :: "EventCode \<Rightarrow> bytes" where
  "EventCode_debug v \<equiv> str (case v of
     EventCode.StartOfMessages \<Rightarrow> ''StartOfMessages''
   | EventCode.StartOfSystemHours \<Rightarrow> ''StartOfSystemHours''
   | EventCode.StartOfMarketHours \<Rightarrow> ''StartOfMarketHours''
   | EventCode.EndOfMarketHours \<Rightarrow> ''EndOfMarketHours''
   | EventCode.EndOfSystemHours \<Rightarrow> ''EndOfSystemHours''
   | EventCode.EndOfMessages \<Rightarrow> ''EndOfMessages'')"

abbreviation FinancialStatus_debug :: "FinancialStatus \<Rightarrow> bytes" where
  "FinancialStatus_debug v \<equiv> str (case v of
     FinancialStatus.Deficient \<Rightarrow> ''Deficient''
   | FinancialStatus.Delinquent \<Rightarrow> ''Delinquent''
   | FinancialStatus.Bankrupt \<Rightarrow> ''Bankrupt''
   | FinancialStatus.Suspended \<Rightarrow> ''Suspended''
   | FinancialStatus.DeficientAndBankrupt \<Rightarrow> ''DeficientAndBankrupt''
   | FinancialStatus.DeficientAndDelinquent \<Rightarrow> ''DeficientAndDelinquent''
   | FinancialStatus.DelinquentAndBankrupt \<Rightarrow> ''DelinquentAndBankrupt''
   | FinancialStatus.DeficientDelinquentBankrupt \<Rightarrow> ''DeficientDelinquentBankrupt''
   | FinancialStatus.CreationsRedemptionsSuspended \<Rightarrow> ''CreationsRedemptionsSuspended''
   | FinancialStatus.Normal \<Rightarrow> ''Normal''
   | FinancialStatus.Unavailable \<Rightarrow> ''Unavailable'')"

abbreviation ImbalanceDirection_debug :: "ImbalanceDirection \<Rightarrow> bytes" where
  "ImbalanceDirection_debug v \<equiv> str (case v of
     ImbalanceDirection.Buy \<Rightarrow> ''Buy''
   | ImbalanceDirection.Sell \<Rightarrow> ''Sell''
   | ImbalanceDirection.NoImbalance \<Rightarrow> ''NoImbalance''
   | ImbalanceDirection.InsufficientToCalc \<Rightarrow> ''InsufficientToCalc'')"

abbreviation IpoReleaseQualifier_debug :: "IpoReleaseQualifier \<Rightarrow> bytes" where
  "IpoReleaseQualifier_debug v \<equiv> str (case v of
     IpoReleaseQualifier.Anticipated \<Rightarrow> ''Anticipated''
   | IpoReleaseQualifier.Cancelled \<Rightarrow> ''Cancelled'')"

abbreviation MarketCategory_debug :: "MarketCategory \<Rightarrow> bytes" where
  "MarketCategory_debug v \<equiv> str (case v of
     MarketCategory.NasdaqGlobalSelect \<Rightarrow> ''NasdaqGlobalSelect''
   | MarketCategory.NasdaqGlobalMarket \<Rightarrow> ''NasdaqGlobalMarket''
   | MarketCategory.NasdaqCapitalMarket \<Rightarrow> ''NasdaqCapitalMarket''
   | MarketCategory.NyseMkt \<Rightarrow> ''NyseMkt''
   | MarketCategory.Nyse \<Rightarrow> ''Nyse''
   | MarketCategory.NyseArca \<Rightarrow> ''NyseArca''
   | MarketCategory.BatsZ \<Rightarrow> ''BatsZ''
   | MarketCategory.Iex \<Rightarrow> ''Iex''
   | MarketCategory.Unavailable \<Rightarrow> ''Unavailable'')"

abbreviation MarketMakerMode_debug :: "MarketMakerMode \<Rightarrow> bytes" where
  "MarketMakerMode_debug v \<equiv> str (case v of
     MarketMakerMode.Normal \<Rightarrow> ''Normal''
   | MarketMakerMode.Passive \<Rightarrow> ''Passive''
   | MarketMakerMode.Syndicate \<Rightarrow> ''Syndicate''
   | MarketMakerMode.PreSyndicate \<Rightarrow> ''PreSyndicate''
   | MarketMakerMode.Penalty \<Rightarrow> ''Penalty'')"

abbreviation MarketParticipantState_debug :: "MarketParticipantState \<Rightarrow> bytes" where
  "MarketParticipantState_debug v \<equiv> str (case v of
     MarketParticipantState.Active \<Rightarrow> ''Active''
   | MarketParticipantState.ExcusedOrWithdrawn \<Rightarrow> ''ExcusedOrWithdrawn''
   | MarketParticipantState.Withdrawn \<Rightarrow> ''Withdrawn''
   | MarketParticipantState.Suspended \<Rightarrow> ''Suspended''
   | MarketParticipantState.Deleted \<Rightarrow> ''Deleted'')"

abbreviation Printable_debug :: "Printable \<Rightarrow> bytes" where
  "Printable_debug v \<equiv> str (case v of
     Printable.NonPrintable \<Rightarrow> ''NonPrintable''
   | Printable.Printable \<Rightarrow> ''Printable'')"

abbreviation RegShoAction_debug :: "RegShoAction \<Rightarrow> bytes" where
  "RegShoAction_debug v \<equiv> str (case v of
     RegShoAction.NoPriceTest \<Rightarrow> ''NoPriceTest''
   | RegShoAction.InEffectIntradayDrop \<Rightarrow> ''InEffectIntradayDrop''
   | RegShoAction.InEffect \<Rightarrow> ''InEffect'')"

abbreviation RpiInterestFlag_debug :: "RpiInterestFlag \<Rightarrow> bytes" where
  "RpiInterestFlag_debug v \<equiv> str (case v of
     RpiInterestFlag.BuySide \<Rightarrow> ''BuySide''
   | RpiInterestFlag.SellSide \<Rightarrow> ''SellSide''
   | RpiInterestFlag.BothSides \<Rightarrow> ''BothSides''
   | RpiInterestFlag.NoInterest \<Rightarrow> ''None'')"

abbreviation TradingState_debug :: "TradingState \<Rightarrow> bytes" where
  "TradingState_debug v \<equiv> str (case v of
     TradingState.Halted \<Rightarrow> ''Halted''
   | TradingState.Paused \<Rightarrow> ''Paused''
   | TradingState.QuotationOnly \<Rightarrow> ''QuotationOnly''
   | TradingState.Trading \<Rightarrow> ''Trading'')"

text \<open>The functions of the program.\<close>

definition text_str :: "Utf8Error + bytes \<Rightarrow> bytes" where
  "text_str r = (case r of Inl _ \<Rightarrow> str ''<bad utf-8>'' | Inr s \<Rightarrow> s)"

fun fmt_side :: "Side \<Rightarrow> bytes" where
  "fmt_side Side.Buy = str ''Buy''"
| "fmt_side Side.Sell = str ''Sell''"

definition fmt_price4 :: "u32 \<Rightarrow> bytes" where
  "fmt_price4 raw =
    (let whole = raw div 10000; frac = raw mod 10000
     in fmt_u32 whole @ str ''.'' @ zero_fill 4 (fmt_u32 frac))"

definition fmt_price8 :: "u64 \<Rightarrow> bytes" where
  "fmt_price8 raw =
    (let whole = raw div 100000000; frac = raw mod 100000000
     in fmt_u64 whole @ str ''.'' @ zero_fill 8 (fmt_u64 frac))"

abbreviation fmt_lead :: "Message \<Rightarrow> bytes" where
  "fmt_lead m \<equiv> str ''['' @ align_right 14 (fmt_u64 (Timestamp.as_u64 (Header.timestamp (Message_header m))))
     @ str '' ns] '' @ [Message_tag m] @ str '' ''"

fun fmt_message :: "Message \<Rightarrow> bytes" where
  "fmt_message (SystemEvent m) = fmt_lead (SystemEvent m) @ str ''system_event       code='' @ EventCode_debug (SystemEvent.event_code m)"
| "fmt_message (StockDirectory m) = fmt_lead (StockDirectory m) @ str ''stock_directory    '' @ align_left 8 (text_str (Stock_as_str (StockDirectory.stock m)))
     @ str '' cat='' @ MarketCategory_debug (StockDirectory.market_category m) @ str '' status=''
     @ FinancialStatus_debug (StockDirectory.financial_status m) @ str '' round_lot=''
     @ fmt_u32 (Shares.as_u32 (StockDirectory.round_lot_size m))"
| "fmt_message (StockTradingAction m) = fmt_lead (StockTradingAction m) @ str ''trading_action     ''
     @ align_left 8 (text_str (Stock_as_str (StockTradingAction.stock m))) @ str '' state=''
     @ TradingState_debug (StockTradingAction.trading_state m)"
| "fmt_message (RegShoRestriction m) = fmt_lead (RegShoRestriction m) @ str ''reg_sho_restrict   ''
     @ align_left 8 (text_str (Stock_as_str (RegShoRestriction.stock m))) @ str '' action=''
     @ RegShoAction_debug (RegShoRestriction.reg_sho_action m)"
| "fmt_message (MarketParticipantPosition m) = fmt_lead (MarketParticipantPosition m) @ str ''mpid_position      mpid=''
     @ align_left 4 (text_str (Mpid_as_str (MarketParticipantPosition.mpid m))) @ str '' ''
     @ align_left 8 (text_str (Stock_as_str (MarketParticipantPosition.stock m))) @ str '' mode=''
     @ MarketMakerMode_debug (MarketParticipantPosition.market_maker_mode m) @ str '' state=''
     @ MarketParticipantState_debug (MarketParticipantPosition.market_participant_state m)"
| "fmt_message (MwcbDeclineLevel m) = fmt_lead (MwcbDeclineLevel m) @ str ''mwcb_decline_level L1='' @ fmt_price8 (Price8.as_u64 (MwcbDeclineLevel.level1 m))
     @ str '' L2='' @ fmt_price8 (Price8.as_u64 (MwcbDeclineLevel.level2 m)) @ str '' L3=''
     @ fmt_price8 (Price8.as_u64 (MwcbDeclineLevel.level3 m))"
| "fmt_message (MwcbStatus m) = fmt_lead (MwcbStatus m) @ str ''mwcb_status        level='' @ BreachedLevel_debug (MwcbStatus.breached_level m)"
| "fmt_message (IpoQuotingPeriodUpdate m) = fmt_lead (IpoQuotingPeriodUpdate m) @ str ''ipo_quoting_update ''
     @ align_left 8 (text_str (Stock_as_str (IpoQuotingPeriodUpdate.stock m))) @ str '' qual=''
     @ IpoReleaseQualifier_debug (IpoQuotingPeriodUpdate.ipo_quotation_release_qualifier m)
     @ str '' price='' @ fmt_price4 (Price4.as_u32 (IpoQuotingPeriodUpdate.ipo_price m))"
| "fmt_message (AddOrder m) = fmt_lead (AddOrder m) @ str ''add_order          ref='' @ fmt_u64 (OrderReference.as_u64 (AddOrder.order_ref m))
     @ str '' '' @ align_left 4 (fmt_side (AddOrder.side m)) @ str '' ''
     @ fmt_u32 (Shares.as_u32 (AddOrder.shares m)) @ str '' ''
     @ align_left 8 (text_str (Stock_as_str (AddOrder.stock m))) @ str '' @ ''
     @ fmt_price4 (Price4.as_u32 (AddOrder.price m))"
| "fmt_message (AddOrderWithMpid m) = fmt_lead (AddOrderWithMpid m) @ str ''add_order_mpid     ref=''
     @ fmt_u64 (OrderReference.as_u64 (AddOrderWithMpid.order_ref m)) @ str '' ''
     @ align_left 4 (fmt_side (AddOrderWithMpid.side m)) @ str '' ''
     @ fmt_u32 (Shares.as_u32 (AddOrderWithMpid.shares m)) @ str '' ''
     @ align_left 8 (text_str (Stock_as_str (AddOrderWithMpid.stock m))) @ str '' @ ''
     @ fmt_price4 (Price4.as_u32 (AddOrderWithMpid.price m)) @ str '' mpid=''
     @ text_str (Mpid_as_str (AddOrderWithMpid.attribution m))"
| "fmt_message (OrderExecuted m) = fmt_lead (OrderExecuted m) @ str ''order_executed     ref='' @ fmt_u64 (OrderReference.as_u64 (OrderExecuted.order_ref m))
     @ str '' '' @ fmt_u32 (Shares.as_u32 (OrderExecuted.executed_shares m)) @ str '' match=''
     @ fmt_u64 (MatchNumber.as_u64 (OrderExecuted.match_number m))"
| "fmt_message (OrderExecutedWithPrice m) = fmt_lead (OrderExecutedWithPrice m) @ str ''order_exec_price   ref=''
     @ fmt_u64 (OrderReference.as_u64 (OrderExecutedWithPrice.order_ref m)) @ str '' ''
     @ fmt_u32 (Shares.as_u32 (OrderExecutedWithPrice.executed_shares m)) @ str '' match=''
     @ fmt_u64 (MatchNumber.as_u64 (OrderExecutedWithPrice.match_number m)) @ str '' @ ''
     @ fmt_price4 (Price4.as_u32 (OrderExecutedWithPrice.execution_price m)) @ str '' ''
     @ Printable_debug (OrderExecutedWithPrice.printable m)"
| "fmt_message (OrderCancel m) = fmt_lead (OrderCancel m) @ str ''order_cancel       ref='' @ fmt_u64 (OrderReference.as_u64 (OrderCancel.order_ref m))
     @ str '' cancelled='' @ fmt_u32 (Shares.as_u32 (OrderCancel.cancelled_shares m))"
| "fmt_message (OrderDelete m) = fmt_lead (OrderDelete m) @ str ''order_delete       ref='' @ fmt_u64 (OrderReference.as_u64 (OrderDelete.order_ref m))"
| "fmt_message (OrderReplace m) = fmt_lead (OrderReplace m) @ str ''order_replace      old=''
     @ fmt_u64 (OrderReference.as_u64 (OrderReplace.original_order_ref m)) @ str '' new=''
     @ fmt_u64 (OrderReference.as_u64 (OrderReplace.new_order_ref m)) @ str '' ''
     @ fmt_u32 (Shares.as_u32 (OrderReplace.shares m)) @ str '' @ ''
     @ fmt_price4 (Price4.as_u32 (OrderReplace.price m))"
| "fmt_message (TradeNonCross m) = fmt_lead (TradeNonCross m) @ str ''trade_non_cross    ref='' @ fmt_u64 (OrderReference.as_u64 (TradeNonCross.order_ref m))
     @ str '' '' @ align_left 4 (fmt_side (TradeNonCross.side m)) @ str '' ''
     @ fmt_u32 (Shares.as_u32 (TradeNonCross.shares m)) @ str '' ''
     @ align_left 8 (text_str (Stock_as_str (TradeNonCross.stock m))) @ str '' @ ''
     @ fmt_price4 (Price4.as_u32 (TradeNonCross.price m)) @ str '' match=''
     @ fmt_u64 (MatchNumber.as_u64 (TradeNonCross.match_number m))"
| "fmt_message (CrossTrade m) = fmt_lead (CrossTrade m) @ str ''cross_trade        '' @ align_left 8 (text_str (Stock_as_str (CrossTrade.stock m)))
     @ str '' '' @ fmt_u64 (CrossTrade.shares m) @ str '' @ ''
     @ fmt_price4 (Price4.as_u32 (CrossTrade.cross_price m)) @ str '' match=''
     @ fmt_u64 (MatchNumber.as_u64 (CrossTrade.match_number m)) @ str '' type=''
     @ CrossType_debug (CrossTrade.cross_type m)"
| "fmt_message (BrokenTrade m) = fmt_lead (BrokenTrade m) @ str ''broken_trade       match='' @ fmt_u64 (MatchNumber.as_u64 (BrokenTrade.match_number m))"
| "fmt_message (Noii m) = fmt_lead (Noii m) @ str ''noii               '' @ align_left 8 (text_str (Stock_as_str (Noii.stock m)))
     @ str '' paired='' @ fmt_u64 (Noii.paired_shares m) @ str '' imb=''
     @ fmt_u64 (Noii.imbalance_shares m) @ str '' dir=''
     @ ImbalanceDirection_debug (Noii.imbalance_direction m) @ str '' type=''
     @ CrossType_debug (Noii.cross_type m)"
| "fmt_message (RetailPriceImprovement m) = fmt_lead (RetailPriceImprovement m) @ str ''retail_price_imp   ''
     @ align_left 8 (text_str (Stock_as_str (RetailPriceImprovement.stock m))) @ str '' flag=''
     @ RpiInterestFlag_debug (RetailPriceImprovement.interest_flag m)"

subsection \<open>The loops\<close>

datatype WriteResult = Written | PipeClosed | WriteFailed

text \<open>What the select of a loop sees: the interrupt, or an item of the connection.\<close>

datatype 'e ClientEvent =
    CtrlC
  | Item "('e + Message) option"

abbreviation ends_messages :: "Message \<Rightarrow> bool" where
  "ends_messages msg \<equiv> (case msg of SystemEvent s \<Rightarrow> SystemEvent.event_code s = EventCode.EndOfMessages | _ \<Rightarrow> False)"

text \<open>A message is printed; the exit code if the loop then ends.\<close>

definition print_message :: "(nat \<Rightarrow> WriteResult) \<Rightarrow> Message \<Rightarrow> bytes list \<Rightarrow> nat option \<times> bytes list" where
  "print_message writes msg lines =
    (let line = fmt_message msg in
     case writes (length lines) of
       Written \<Rightarrow> (if ends_messages msg then Some 0 else None, lines @ [line])
     | PipeClosed \<Rightarrow> (Some 0, lines)
     | WriteFailed \<Rightarrow> (Some 4, lines))"

fun run_tcp_loop ::
  "(nat \<Rightarrow> WriteResult) \<Rightarrow> TransportError ClientEvent list \<Rightarrow> bytes list \<Rightarrow> nat option \<times> bytes list" where
  "run_tcp_loop writes [] lines = (None, lines)"
| "run_tcp_loop writes (CtrlC # events) lines = (Some 0, lines)"
| "run_tcp_loop writes (Item None # events) lines = (Some 5, lines)"
| "run_tcp_loop writes (Item (Some (Inl e)) # events) lines =
    (case e of
       TransportError.Protocol _ \<Rightarrow> run_tcp_loop writes events lines
     | TransportError.FrameTooLarge _ _ \<Rightarrow> run_tcp_loop writes events lines
     | TransportError.Io _ \<Rightarrow> (Some 3, lines))"
| "run_tcp_loop writes (Item (Some (Inr msg)) # events) lines =
    (case print_message writes msg lines of
       (Some code, lines) \<Rightarrow> (Some code, lines)
     | (None, lines) \<Rightarrow> run_tcp_loop writes events lines)"

definition run_tcp ::
  "bool \<Rightarrow> (nat \<Rightarrow> WriteResult) \<Rightarrow> TransportError ClientEvent list \<Rightarrow> nat option \<times> bytes list" where
  "run_tcp connected writes events = (if connected then run_tcp_loop writes events [] else (Some 2, []))"

fun run_soup_loop ::
  "(nat \<Rightarrow> WriteResult) \<Rightarrow> SoupError ClientEvent list \<Rightarrow> bytes list \<Rightarrow> nat option \<times> bytes list" where
  "run_soup_loop writes [] lines = (None, lines)"
| "run_soup_loop writes (CtrlC # events) lines = (Some 0, lines)"
| "run_soup_loop writes (Item None # events) lines = (Some 0, lines)"
| "run_soup_loop writes (Item (Some (Inl e)) # events) lines =
    (case e of
       SoupError.Protocol _ \<Rightarrow> run_soup_loop writes events lines
     | SessionEnded \<Rightarrow> (Some 0, lines)
     | SoupError.LoginRejected _ \<Rightarrow> (Some 6, lines)
     | _ \<Rightarrow> run_soup_loop writes events lines)"
| "run_soup_loop writes (Item (Some (Inr msg)) # events) lines =
    (case print_message writes msg lines of
       (Some code, lines) \<Rightarrow> (Some code, lines)
     | (None, lines) \<Rightarrow> run_soup_loop writes events lines)"

definition run_soup ::
  "bool \<Rightarrow> (nat \<Rightarrow> WriteResult) \<Rightarrow> SoupError ClientEvent list \<Rightarrow> nat option \<times> bytes list" where
  "run_soup parsed writes events = (if parsed then run_soup_loop writes events [] else (Some 2, []))"

section \<open>Prices\<close>

text \<open>A price text, with \<open>k\<close> fractional digits: the digits on both sides of the point, read as one number,
  are the raw price.\<close>

definition price_text :: "nat \<Rightarrow> nat \<Rightarrow> bytes \<Rightarrow> bool" where
  "price_text k raw s \<longleftrightarrow> (\<exists>ds fs. s = ds @ str ''.'' @ fs \<and> ds \<noteq> [] \<and> length fs = k
    \<and> list_all is_ascii_digit (ds @ fs) \<and> decimal 0 (ds @ fs) = raw)"

lemma price_text_split:
  assumes "0 < k"
  shows "price_text k raw (show_dec (raw div 10 ^ k) @ str ''.'' @ zero_fill k (show_dec (raw mod 10 ^ k)))"
proof -
  let ?ds = "show_dec (raw div 10 ^ k)" and ?fs = "zero_fill k (show_dec (raw mod 10 ^ k))"
  have len: "length ?fs = k" using show_dec_length [OF assms, of "raw mod 10 ^ k"] by simp
  have "decimal 0 (?ds @ ?fs) = decimal 0 ?ds * 10 ^ length ?fs + decimal 0 ?fs"
    by (subst decimal_append [of 0 ?ds]) (rule decimal_scale)
  also have "\<dots> = raw" unfolding len decimal_zeros by (simp add: show_dec_digits div_mult_mod_eq)
  finally have raw: "decimal 0 (?ds @ ?fs) = raw" .
  have digits: "list_all is_ascii_digit (?ds @ ?fs)"
    using show_dec_digits by (auto simp: is_ascii_digit_def list_all_iff)
  show ?thesis unfolding price_text_def
    by (rule exI [of _ ?ds], rule exI [of _ ?fs]) (use len raw digits show_dec_digits in blast)
qed

lemma fmt_price4_exact: "price_text 4 (unat raw) (fmt_price4 raw)"
  using price_text_split [of 4 "unat raw"] by (simp add: fmt_price4_def Let_def unat_div unat_mod)

lemma fmt_price8_exact: "price_text 8 (unat raw) (fmt_price8 raw)"
  using price_text_split [of 8 "unat raw"] by (simp add: fmt_price8_def Let_def unat_div unat_mod)

section \<open>One line per message\<close>

abbreviation newline :: u8 where "newline \<equiv> 0x0A"

text \<open>The text fields of a message that are printed.\<close>

definition printed_texts :: "Message \<Rightarrow> bytes list" where
  "printed_texts m = map text_str
    (case m of
       StockDirectory m \<Rightarrow> [Stock_as_str (StockDirectory.stock m)]
     | StockTradingAction m \<Rightarrow> [Stock_as_str (StockTradingAction.stock m)]
     | RegShoRestriction m \<Rightarrow> [Stock_as_str (RegShoRestriction.stock m)]
     | MarketParticipantPosition m \<Rightarrow>
         [Mpid_as_str (MarketParticipantPosition.mpid m), Stock_as_str (MarketParticipantPosition.stock m)]
     | IpoQuotingPeriodUpdate m \<Rightarrow> [Stock_as_str (IpoQuotingPeriodUpdate.stock m)]
     | AddOrder m \<Rightarrow> [Stock_as_str (AddOrder.stock m)]
     | AddOrderWithMpid m \<Rightarrow> [Stock_as_str (AddOrderWithMpid.stock m), Mpid_as_str (AddOrderWithMpid.attribution m)]
     | TradeNonCross m \<Rightarrow> [Stock_as_str (TradeNonCross.stock m)]
     | CrossTrade m \<Rightarrow> [Stock_as_str (CrossTrade.stock m)]
     | Noii m \<Rightarrow> [Stock_as_str (Noii.stock m)]
     | RetailPriceImprovement m \<Rightarrow> [Stock_as_str (RetailPriceImprovement.stock m)]
     | _ \<Rightarrow> [])"

lemma no_newline_show_dec [simp]: "newline \<notin> set (show_dec n)"
  using show_dec_digits [of n] by (auto simp: list_all_iff is_ascii_digit_def)

lemma no_newline_price [simp]: "newline \<notin> set (fmt_price4 p)" "newline \<notin> set (fmt_price8 q)"
  by (auto simp: fmt_price4_def fmt_price8_def Let_def)

lemma no_newline_side [simp]: "newline \<notin> set (fmt_side s)"
  by (cases s) simp_all

lemmas newline_splits = BreachedLevel.split CrossType.split EventCode.split FinancialStatus.split
  ImbalanceDirection.split IpoReleaseQualifier.split MarketCategory.split MarketMakerMode.split
  MarketParticipantState.split Printable.split RegShoAction.split RpiInterestFlag.split TradingState.split

lemma client_line: "newline \<in> set (fmt_message m) \<longleftrightarrow> newline \<in> set (concat (printed_texts m))"
  by (cases m) (simp_all add: printed_texts_def space_def split: newline_splits)

section \<open>The loops\<close>

lemma run_tcp_loop_prints:
  "list_all (\<lambda>m. \<not> ends_messages m) ms
    \<Longrightarrow> run_tcp_loop (\<lambda>_. Written) (map (Item \<circ> Some \<circ> Inr) ms @ events) lines
      = run_tcp_loop (\<lambda>_. Written) events (lines @ map fmt_message ms)"
  by (induction ms arbitrary: lines) (simp_all add: print_message_def Let_def)

end
