(* ===== verification/Itch_Tcp_Server.thy ===== *)
theory Itch_Tcp_Server
  imports Itch_Tcp Itch_Ingest
begin

text \<open>
  The plain TCP server, \<open>itch-tcp/src/server.rs\<close>: the task of a subscriber, which sends the warm-up messages
  and then what the broadcast channel gives it, through the length-prefix codec.  Whether the \<open>k\<close>-th
  send goes through and what the channel gives are arguments.  The property composes it with the ingest
  task in front and with the codec of a client behind.
\<close>

section \<open>Definitions\<close>

text \<open>What the framed socket has sent: the bytes and the number of sends.\<close>

record TcpSubscriber =
  out :: bytes
  sends_done :: nat

text \<open>As for the SoupBinTCP server, \<open>Inl\<close> is a task that has returned and \<open>Inr\<close> one that goes on.\<close>

definition tcp_send :: "(nat \<Rightarrow> bool) \<Rightarrow> Message \<Rightarrow> TcpSubscriber \<Rightarrow> TcpSubscriber + TcpSubscriber" where
  "tcp_send sends msg st =
    (case ItchCodec_encode msg (out st) of
       Inl _ \<Rightarrow> Inl st
     | Inr b \<Rightarrow> if sends (sends_done st) then Inr (st\<lparr>out := b, sends_done := Suc (sends_done st)\<rparr>) else Inl st)"

fun tcp_warmup :: "(nat \<Rightarrow> bool) \<Rightarrow> Message list \<Rightarrow> TcpSubscriber \<Rightarrow> TcpSubscriber + TcpSubscriber" where
  "tcp_warmup sends [] st = Inr st"
| "tcp_warmup sends (msg # warmup) st = and_then (tcp_send sends msg st) (tcp_warmup sends warmup)"

datatype BroadcastEvent =
    Received Message
  | Closed
  | Lagged u64

fun tcp_live :: "(nat \<Rightarrow> bool) \<Rightarrow> BroadcastEvent list \<Rightarrow> TcpSubscriber \<Rightarrow> TcpSubscriber + TcpSubscriber" where
  "tcp_live sends [] st = Inr st"
| "tcp_live sends (Received msg # events) st = and_then (tcp_send sends msg st) (tcp_live sends events)"
| "tcp_live sends (Closed # events) st = Inl st"
| "tcp_live sends (Lagged skipped # events) st = Inl st"

definition tcp_handle_subscriber ::
  "(nat \<Rightarrow> bool) \<Rightarrow> SourceError + Message list \<Rightarrow> BroadcastEvent list \<Rightarrow> TcpSubscriber + TcpSubscriber" where
  "tcp_handle_subscriber sends warmup events =
    (let st = \<lparr>out = [], sends_done = 0\<rparr> in
     case warmup of
       Inl _ \<Rightarrow> Inl st
     | Inr ws \<Rightarrow> and_then (tcp_warmup sends ws st) (tcp_live sends events))"

section \<open>What a subscriber is sent\<close>

text \<open>The messages the channel gave before it closed or the subscriber lagged.\<close>

fun taken :: "BroadcastEvent list \<Rightarrow> Message list" where
  "taken (Received m # events) = m # taken events"
| "taken _ = []"

text \<open>A run of the task over the messages \<open>ms\<close>: the first \<open>k\<close> of them are on the wire, all of them
  unless a send failed.\<close>

abbreviation ended :: "TcpSubscriber + TcpSubscriber \<Rightarrow> TcpSubscriber" where
  "ended r \<equiv> (case r of Inl st \<Rightarrow> st | Inr st \<Rightarrow> st)"

definition carries :: "(nat \<Rightarrow> bool) \<Rightarrow> Message list \<Rightarrow> TcpSubscriber \<Rightarrow> TcpSubscriber \<Rightarrow> bool" where
  "carries sends ms st st' \<longleftrightarrow> (\<exists>k \<le> length ms. out st' = out st @ concat (map (prefix_frame \<circ> Message_wire) (take k ms))
    \<and> sends_done st' = sends_done st + k \<and> (k < length ms \<longrightarrow> \<not> sends (sends_done st + k)))"

lemma tcp_send_ok:
  "Message_ok m \<Longrightarrow> tcp_send sends m st = (if sends (sends_done st)
    then Inr (st\<lparr>out := out st @ prefix_frame (Message_wire m), sends_done := Suc (sends_done st)\<rparr>) else Inl st)"
  by (simp add: tcp_send_def ItchCodec_encode_wire)

lemma carries_Nil: "carries sends [] st st" by (simp add: carries_def)

lemma carries_none: "\<not> sends (sends_done st) \<Longrightarrow> carries sends ms st st"
  by (auto simp: carries_def intro!: exI [of _ 0])

lemma carries_Cons:
  assumes "carries sends ms (st\<lparr>out := out st @ prefix_frame (Message_wire m), sends_done := Suc (sends_done st)\<rparr>) st'"
  shows "carries sends (m # ms) st st'"
proof -
  from assms obtain k where "k \<le> length ms" "out st' = out st @ prefix_frame (Message_wire m) @ concat (map (prefix_frame \<circ> Message_wire) (take k ms))"
    "sends_done st' = Suc (sends_done st) + k" "k < length ms \<longrightarrow> \<not> sends (Suc (sends_done st) + k)"
    by (auto simp: carries_def)
  then show ?thesis unfolding carries_def by (intro exI [of _ "Suc k"]) simp
qed

lemma tcp_live_carries:
  "\<forall>m \<in> set (taken events). Message_ok m \<Longrightarrow> carries sends (taken events) st (ended (tcp_live sends events st))"
  by (induction sends events st rule: tcp_live.induct)
    (auto simp: tcp_send_ok carries_Nil carries_none intro: carries_Cons)

lemma tcp_task_carries:
  "\<forall>m \<in> set (ws @ taken events). Message_ok m
    \<Longrightarrow> carries sends (ws @ taken events) st (ended (and_then (tcp_warmup sends ws st) (tcp_live sends events)))"
proof (induction ws arbitrary: st)
  case Nil
  then show ?case by (simp add: tcp_live_carries)
next
  case (Cons m ws)
  then show ?case by (auto simp: tcp_send_ok carries_none intro: carries_Cons)
qed

text \<open>What the codec of a client makes of the bytes of a subscriber.\<close>

lemma tcp_subscriber_decodes:
  assumes "\<forall>m \<in> set (ws @ taken events). Message_ok m"
    and "tcp_handle_subscriber sends (Inr ws) events \<in> {Inl st, Inr st}" "concat chunks = out st"
  defines "all \<equiv> ws @ taken events"
  shows "\<exists>k \<le> length all. fst (feeds ItchCodec_decode (ItchCodec_default, []) chunks) = map Inr (take k all)
    \<and> (k < length all \<longrightarrow> \<not> sends k)"
proof -
  have "carries sends all \<lparr>out = [], sends_done = 0\<rparr> st"
    using tcp_task_carries [OF assms(1), of sends "\<lparr>out = [], sends_done = 0\<rparr>"] assms(2)
    by (auto simp: all_def tcp_handle_subscriber_def Let_def)
  then obtain k where k: "k \<le> length all" "out st = concat (map (prefix_frame \<circ> Message_wire) (take k all))"
    "k < length all \<longrightarrow> \<not> sends k" by (auto simp: carries_def)
  have "\<forall>m \<in> set (take k all). Message_ok m" using assms(1) by (auto simp: all_def dest: in_set_takeD)
  from tcp_round_trip [OF this _ assms(3)] encode_all_wire [OF this, of "[]"] k show ?thesis by auto
qed

lemma tcp_ingest_messages:
  assumes "ring_ok s" "unat (max_seen s) + 2 + length items < 2 ^ 64"
    and "tcp_ingest RingSeqStore_latest RingSeqStore_store items s = (ms, next_seq, s')"
  shows "ms = source_messages items"
proof -
  have "map snd (numbered_from n xs) = xs" for n and xs :: "Message list"
    by (induction xs arbitrary: n) (simp_all add: numbered_from_Cons)
  then show ?thesis using ring_ingest [OF assms(1), of 1 items] assms(2,3) by (auto simp: tcp_ingest_def)
qed

section \<open>Properties\<close>

text \<open>C31: From the source to a client of the plain TCP server.  The ingest task broadcasts the messages of the
  source up to its first error; a subscriber that attached after \<open>a\<close> of them and was given the next
  \<open>b\<close> by the channel has been sent a stream that, in whatever pieces it arrives, decodes to the
  warm-up messages followed by those, in order, or to a prefix of them that ends where a send
  failed.\<close>

theorem tcp_end_to_end:
  assumes "ring_ok s" "unat (max_seen s) + 2 + length items < 2 ^ 64"
    and "tcp_ingest RingSeqStore_latest RingSeqStore_store items s = (ms, next_seq, s')"
    and "\<forall>m \<in> set (source_messages items @ ws). Message_ok m" "taken events = take b (drop a ms)"
    and "tcp_handle_subscriber sends (Inr ws) events \<in> {Inl st, Inr st}" "concat chunks = out st"
  defines "all \<equiv> ws @ take b (drop a (source_messages items))"
  shows "\<exists>k \<le> length all. fst (feeds ItchCodec_decode (ItchCodec_default, []) chunks) = map Inr (take k all)
    \<and> (k < length all \<longrightarrow> \<not> sends k)"
proof -
  have ms: "ms = source_messages items" using assms(1-3) by (rule tcp_ingest_messages)
  have "\<forall>m \<in> set (ws @ taken events). Message_ok m"
    using assms(4,5) by (auto simp: ms dest!: in_set_takeD in_set_dropD)
  from tcp_subscriber_decodes [OF this assms(6,7)] show ?thesis using assms(5) by (simp add: all_def ms)
qed

theorem tcp_end_to_end_witness:
  "\<exists>next_seq s' st. tcp_ingest RingSeqStore_latest RingSeqStore_store [Inr sample_add, Inr sample_add, Inl Exhausted]
        (RingSeqStore_with_capacity 1) = ([sample_add, sample_add], next_seq, s')
    \<and> tcp_handle_subscriber (\<lambda>_. True) (Inr [sample_add]) [Received sample_add, Closed] = Inl st
    \<and> fst (feeds ItchCodec_decode (ItchCodec_default, []) [out st]) = [Inr sample_add, Inr sample_add]"
proof -
  let ?s = "RingSeqStore_with_capacity 1" and ?items = "[Inr sample_add, Inr sample_add, Inl Exhausted]"
  have s: "ring_ok ?s" "unat (max_seen ?s) + 2 + length ?items < 2 ^ 64"
    by (simp_all add: RingSeqStore_with_capacity_def ring_ok_def)
  then obtain next_seq s' where i: "tcp_ingest RingSeqStore_latest RingSeqStore_store ?items ?s = ([sample_add, sample_add], next_seq, s')"
    using ring_ingest [OF s(1), of 1 ?items] by (auto simp: tcp_ingest_def numbered_from_Cons)
  have ok: "\<forall>m \<in> set (source_messages ?items @ [sample_add]). Message_ok m" by (simp add: sample_add_ok)
  obtain st where st: "tcp_handle_subscriber (\<lambda>_. True) (Inr [sample_add]) [Received sample_add, Closed] = Inl st"
    using sample_add_ok by (simp add: tcp_handle_subscriber_def tcp_send_ok)
  have "concat [out st] = out st" by simp
  from tcp_end_to_end [OF s i ok _ _ this, of "[Received sample_add, Closed]" 1 1 "\<lambda>_. True"] st i
  show ?thesis by auto
qed

end
