(* ===== verification/Itch_Synthetic.thy ===== *)
theory Itch_Synthetic
  imports Itch_Message_Codec
begin

text \<open>
  The synthetic session of \<open>itch-source/src/synthetic.rs\<close>, the default feed of the reference server: its messages are
  well formed, every kind occurs and the timestamps increase.
\<close>

section \<open>Definitions\<close>

abbreviation h :: "u64 \<Rightarrow> u16 \<Rightarrow> Header" where
  "h ns locate \<equiv> \<lparr>Header.stock_locate = StockLocate locate, Header.tracking_number = TrackingNumber 0,
     Header.timestamp = Timestamp ns\<rparr>"

definition canonical_session :: "Message list" where
  "canonical_session =
    [SystemEvent \<lparr>SystemEvent.header = h 32400000000000 0, SystemEvent.event_code = EventCode.StartOfMessages\<rparr>,
     SystemEvent \<lparr>SystemEvent.header = h 32400001000000 0, SystemEvent.event_code = EventCode.StartOfSystemHours\<rparr>,
     StockDirectory \<lparr>StockDirectory.header = h 32400002000000 1, StockDirectory.stock = Stock_new (map byte ''AAPL''),
       StockDirectory.market_category = MarketCategory.NasdaqGlobalSelect,
       StockDirectory.financial_status = FinancialStatus.Normal, StockDirectory.round_lot_size = Shares 100,
       StockDirectory.round_lots_only = YesNo.No, StockDirectory.issue_classification = byte CHR ''C'',
       StockDirectory.issue_subtype = map byte ''  '', StockDirectory.authenticity = Authenticity.Live,
       StockDirectory.short_sale_threshold = YesNo.No, StockDirectory.ipo_flag = YesNo.No,
       StockDirectory.luld_reference_price_tier = LuldTier.Tier1, StockDirectory.etp_flag = YesNo.No,
       StockDirectory.etp_leverage_factor = 0, StockDirectory.inverse_indicator = YesNo.No\<rparr>,
     StockDirectory \<lparr>StockDirectory.header = h 32400002100000 2, StockDirectory.stock = Stock_new (map byte ''MSFT''),
       StockDirectory.market_category = MarketCategory.NasdaqGlobalSelect,
       StockDirectory.financial_status = FinancialStatus.Normal, StockDirectory.round_lot_size = Shares 100,
       StockDirectory.round_lots_only = YesNo.No, StockDirectory.issue_classification = byte CHR ''C'',
       StockDirectory.issue_subtype = map byte ''  '', StockDirectory.authenticity = Authenticity.Live,
       StockDirectory.short_sale_threshold = YesNo.No, StockDirectory.ipo_flag = YesNo.No,
       StockDirectory.luld_reference_price_tier = LuldTier.Tier1, StockDirectory.etp_flag = YesNo.No,
       StockDirectory.etp_leverage_factor = 0, StockDirectory.inverse_indicator = YesNo.No\<rparr>,
     StockDirectory \<lparr>StockDirectory.header = h 32400002200000 3, StockDirectory.stock = Stock_new (map byte ''SPY''),
       StockDirectory.market_category = MarketCategory.NyseArca,
       StockDirectory.financial_status = FinancialStatus.Normal, StockDirectory.round_lot_size = Shares 100,
       StockDirectory.round_lots_only = YesNo.No, StockDirectory.issue_classification = byte CHR ''O'',
       StockDirectory.issue_subtype = map byte ''  '', StockDirectory.authenticity = Authenticity.Live,
       StockDirectory.short_sale_threshold = YesNo.No, StockDirectory.ipo_flag = YesNo.No,
       StockDirectory.luld_reference_price_tier = LuldTier.Tier1, StockDirectory.etp_flag = YesNo.Yes,
       StockDirectory.etp_leverage_factor = 1000, StockDirectory.inverse_indicator = YesNo.No\<rparr>,
     StockTradingAction \<lparr>StockTradingAction.header = h 32400003000000 1,
       StockTradingAction.stock = Stock_new (map byte ''AAPL''),
       StockTradingAction.trading_state = TradingState.Trading, StockTradingAction.reserved = byte CHR '' '',
       StockTradingAction.reason = map byte ''NORM''\<rparr>,
     RegShoRestriction \<lparr>RegShoRestriction.header = h 32400003500000 1,
       RegShoRestriction.stock = Stock_new (map byte ''AAPL''),
       RegShoRestriction.reg_sho_action = RegShoAction.NoPriceTest\<rparr>,
     MarketParticipantPosition \<lparr>MarketParticipantPosition.header = h 32400003700000 1,
       MarketParticipantPosition.mpid = Mpid_new (map byte ''NSDQ''),
       MarketParticipantPosition.stock = Stock_new (map byte ''AAPL''),
       MarketParticipantPosition.primary_market_maker = YesNo.Yes,
       MarketParticipantPosition.market_maker_mode = MarketMakerMode.Normal,
       MarketParticipantPosition.market_participant_state = MarketParticipantState.Active\<rparr>,
     MwcbDeclineLevel \<lparr>MwcbDeclineLevel.header = h 32400003800000 0, MwcbDeclineLevel.level1 = Price8 100000000000,
       MwcbDeclineLevel.level2 = Price8 200000000000, MwcbDeclineLevel.level3 = Price8 300000000000\<rparr>,
     MwcbStatus \<lparr>MwcbStatus.header = h 32400003900000 0, MwcbStatus.breached_level = BreachedLevel.Level1\<rparr>,
     IpoQuotingPeriodUpdate \<lparr>IpoQuotingPeriodUpdate.header = h 32400003950000 0,
       IpoQuotingPeriodUpdate.stock = Stock_new (map byte ''NEWCO''),
       IpoQuotingPeriodUpdate.ipo_quotation_release_time = 34200,
       IpoQuotingPeriodUpdate.ipo_quotation_release_qualifier = IpoReleaseQualifier.Anticipated,
       IpoQuotingPeriodUpdate.ipo_price = Price4 1500000\<rparr>,
     SystemEvent \<lparr>SystemEvent.header = h 32400004000000 0, SystemEvent.event_code = EventCode.StartOfMarketHours\<rparr>,
     AddOrder \<lparr>AddOrder.header = h 32400005000000 1, AddOrder.order_ref = OrderReference 1001,
       AddOrder.side = Side.Buy, AddOrder.shares = Shares 500, AddOrder.stock = Stock_new (map byte ''AAPL''),
       AddOrder.price = Price4 1925000\<rparr>,
     AddOrderWithMpid \<lparr>AddOrderWithMpid.header = h 32400006000000 1, AddOrderWithMpid.order_ref = OrderReference 1002,
       AddOrderWithMpid.side = Side.Sell, AddOrderWithMpid.shares = Shares 300,
       AddOrderWithMpid.stock = Stock_new (map byte ''AAPL''), AddOrderWithMpid.price = Price4 1926000,
       AddOrderWithMpid.attribution = Mpid_new (map byte ''NSDQ'')\<rparr>,
     OrderExecuted \<lparr>OrderExecuted.header = h 32400007000000 1, OrderExecuted.order_ref = OrderReference 1001,
       OrderExecuted.executed_shares = Shares 100, OrderExecuted.match_number = MatchNumber 42\<rparr>,
     OrderExecutedWithPrice \<lparr>OrderExecutedWithPrice.header = h 32400008000000 1,
       OrderExecutedWithPrice.order_ref = OrderReference 1001, OrderExecutedWithPrice.executed_shares = Shares 50,
       OrderExecutedWithPrice.match_number = MatchNumber 43,
       OrderExecutedWithPrice.printable = Printable.Printable,
       OrderExecutedWithPrice.execution_price = Price4 1924500\<rparr>,
     OrderCancel \<lparr>OrderCancel.header = h 32400009000000 1, OrderCancel.order_ref = OrderReference 1001,
       OrderCancel.cancelled_shares = Shares 50\<rparr>,
     OrderReplace \<lparr>OrderReplace.header = h 32400009500000 1, OrderReplace.original_order_ref = OrderReference 1002,
       OrderReplace.new_order_ref = OrderReference 2002, OrderReplace.shares = Shares 250,
       OrderReplace.price = Price4 1927500\<rparr>,
     OrderDelete \<lparr>OrderDelete.header = h 32400009700000 1, OrderDelete.order_ref = OrderReference 2002\<rparr>,
     TradeNonCross \<lparr>TradeNonCross.header = h 32400010000000 2, TradeNonCross.order_ref = OrderReference 0,
       TradeNonCross.side = Side.Buy, TradeNonCross.shares = Shares 100,
       TradeNonCross.stock = Stock_new (map byte ''MSFT''), TradeNonCross.price = Price4 3500000,
       TradeNonCross.match_number = MatchNumber 7777\<rparr>,
     CrossTrade \<lparr>CrossTrade.header = h 32400010500000 3, CrossTrade.shares = 1000000,
       CrossTrade.stock = Stock_new (map byte ''SPY''), CrossTrade.cross_price = Price4 4000000,
       CrossTrade.match_number = MatchNumber 99, CrossTrade.cross_type = CrossType.Closing\<rparr>,
     BrokenTrade \<lparr>BrokenTrade.header = h 32400011000000 2, BrokenTrade.match_number = MatchNumber 424242\<rparr>,
     Noii \<lparr>Noii.header = h 32400012000000 1, Noii.paired_shares = 1000000, Noii.imbalance_shares = 500000,
       Noii.imbalance_direction = ImbalanceDirection.Buy, Noii.stock = Stock_new (map byte ''AAPL''),
       Noii.far_price = Price4 1926000, Noii.near_price = Price4 1925500,
       Noii.current_reference_price = Price4 1925500, Noii.cross_type = CrossType.Closing,
       Noii.price_variation = PriceVariation.Pct1To2\<rparr>,
     RetailPriceImprovement \<lparr>RetailPriceImprovement.header = h 32400013000000 1,
       RetailPriceImprovement.stock = Stock_new (map byte ''AAPL''),
       RetailPriceImprovement.interest_flag = RpiInterestFlag.BothSides\<rparr>,
     SystemEvent \<lparr>SystemEvent.header = h 32400014000000 0, SystemEvent.event_code = EventCode.EndOfMarketHours\<rparr>,
     SystemEvent \<lparr>SystemEvent.header = h 32400015000000 0, SystemEvent.event_code = EventCode.EndOfSystemHours\<rparr>,
     SystemEvent \<lparr>SystemEvent.header = h 32400016000000 0, SystemEvent.event_code = EventCode.EndOfMessages\<rparr>]"

section \<open>Evaluation\<close>

lemma canonical_ok: "list_all Message_ok canonical_session"
  by (simp add: canonical_session_def wire_ok_defs Timestamp_ok_iff Stock_new_def Mpid_new_def)

lemma canonical_kinds: "Message_tag m \<in> Message_tag ` set canonical_session"
  by (cases m) (simp_all add: canonical_session_def)

lemma canonical_times:
  "successively (\<lambda>m m'. Timestamp.as_u64 (Header.timestamp (Message_header m)) < Timestamp.as_u64 (Header.timestamp (Message_header m')))
     canonical_session"
  by (simp add: canonical_session_def)

end
