(* ===== verification/Itch_Demo.thy ===== *)
theory Itch_Demo
  imports Itch_Client Itch_Tcp_Server Itch_Synthetic
begin

text \<open>
  The reference server, \<open>itch-server/src/main.rs\<close>, and the session it has with the demo client: the feed it chooses,
  the ingest task, the task of a subscriber and what the client prints, composed.  The environment, the
  parser of socket addresses and the binding of the listener are arguments.
\<close>

section \<open>Definitions\<close>

datatype Transport = Tcp | Soup | Mold
datatype SourceKind = Iterator | ReplayGlimpse | ReplayRaw

record Args =
  bind :: "string option"
  transport :: Transport
  source_kind :: SourceKind
  source_path :: "string option"
  cache_size :: nat

datatype ServerError = InvalidInput | Unsupported | BindFailed

text \<open>What \<open>run\<close> serves: the transport, what is left of its iterator, the store and the messages of the
  warm-up policy.\<close>

definition server_run ::
  "(string \<Rightarrow> bool) \<Rightarrow> (string \<Rightarrow> bool) \<Rightarrow> string option \<Rightarrow> Args
    \<Rightarrow> ServerError + Transport \<times> Message list \<times> RingSeqStore \<times> Message list" where
  "server_run parses binds env args =
    (let bind_addr = (case bind args of Some a \<Rightarrow> a | None \<Rightarrow> (case env of Some a \<Rightarrow> a | None \<Rightarrow> ''127.0.0.1:9100''))
     in if \<not> parses bind_addr then Inl InvalidInput
     else case source_kind args of
       Iterator \<Rightarrow>
         (let source = canonical_session; store = RingSeqStore_with_capacity (cache_size args); policy = []
          in case transport args of
            Tcp \<Rightarrow> if binds bind_addr then Inr (Tcp, source, store, policy) else Inl BindFailed
          | Soup \<Rightarrow> if binds bind_addr then Inr (Soup, source, store, policy) else Inl BindFailed
          | Mold \<Rightarrow> Inl Unsupported)
     | _ \<Rightarrow> Inl Unsupported)"

section \<open>The canonical session\<close>

lemma canonical_ends: "map ends_messages canonical_session = replicate 26 False @ [True]"
  by (simp add: canonical_session_def numeral_eq_Suc)

lemma canonical_length: "length canonical_session = 27"
  using arg_cong [OF canonical_ends, of length] by simp

lemma canonical_end: "i < 27 \<Longrightarrow> ends_messages (canonical_session ! i) \<longleftrightarrow> i = 26"
  using arg_cong [OF canonical_ends, of "\<lambda>xs. xs ! i"] by (auto simp: canonical_length nth_append)

lemma canonical_part: "a + k \<le> 26 \<Longrightarrow> list_all (\<lambda>m. \<not> ends_messages m) (take k (drop a canonical_session))"
  by (auto simp: list_all_length canonical_length canonical_end)

lemma padded_texts:
  "newline \<notin> set bs \<Longrightarrow> newline \<notin> set (text_str (Stock_as_str (Stock_new bs)))"
  "newline \<notin> set bs \<Longrightarrow> newline \<notin> set (text_str (Mpid_as_str (Mpid_new bs)))"
  by (auto simp: text_str_def Stock_as_str_def Mpid_as_str_def trimmed_str_def Stock_new_def Mpid_new_def padded_new_eq
        space_def Let_def split: sum.splits if_splits option.splits dest!: in_set_takeD)

lemma canonical_lines: "list_all (\<lambda>m. newline \<notin> set (fmt_message m)) canonical_session"
  unfolding client_line by (simp add: canonical_session_def printed_texts_def padded_texts)

lemma source_messages_all: "source_messages (map Inr ms) = ms"
  by (induction ms) simp_all

lemma client_canonical:
  assumes "a + k \<le> 27"
  shows "run_tcp True (\<lambda>_. Written) (map (Item \<circ> Some \<circ> Inr) (take k (drop a canonical_session)) @ [Item None])
    = (Some (if 0 < k \<and> a + k = 27 then 0 else 5), map fmt_message (take k (drop a canonical_session)))"
proof (cases "0 < k \<and> a + k = 27")
  case True
  then obtain j where j: "k = Suc j" "a + j = 26" by (cases k) auto
  then have "take k (drop a canonical_session) = take j (drop a canonical_session) @ [canonical_session ! 26]"
    by (simp add: take_Suc_conv_app_nth canonical_length del: take_all)
  then show ?thesis using True j run_tcp_loop_prints [OF canonical_part [of a j]] canonical_end [of 26]
    by (simp add: run_tcp_def print_message_def Let_def)
next
  case False
  then have "list_all (\<lambda>m. \<not> ends_messages m) (take k (drop a canonical_session))"
    using assms by (cases "k = 0") (auto intro: canonical_part)
  from run_tcp_loop_prints [OF this] False show ?thesis by (auto simp: run_tcp_def)
qed

section \<open>Properties\<close>

text \<open>C38: A session of the reference server with the demo client over plain TCP, whatever the address and the cache
  size.  The ingest task broadcasts the canonical session; a subscriber that attached after \<open>a\<close> messages
  and was given the next ones up to \<open>b\<close> is sent a stream that, in whatever pieces it arrives, the client
  prints message by message, one line each, from the point of attachment on.  The client exits with 0
  when the last message came through, which is the end of messages, and with 5, a premature
  disconnect, otherwise: so with 5 when it attached after the session was over.\<close>

theorem demo_session:
  assumes "server_run parses binds env args = Inr (Tcp, source, store, warmup)"
    and "tcp_ingest RingSeqStore_latest RingSeqStore_store (map Inr source) store = (ms, next_seq, store')"
    and "taken events = take b (drop a ms)" "a \<le> length ms"
    and "tcp_handle_subscriber sends (Inr warmup) events \<in> {Inl st, Inr st}" "concat chunks = out st"
    and "run_tcp True (\<lambda>_. Written) (map (Item \<circ> Some) (fst (feeds ItchCodec_decode (ItchCodec_default, []) chunks)) @ [Item None])
        = (code, lines)"
  shows "\<exists>k. k \<le> min b (27 - a) \<and> (k < min b (27 - a) \<longrightarrow> \<not> sends k)
    \<and> lines = map fmt_message (take k (drop a canonical_session)) \<and> list_all (\<lambda>l. newline \<notin> set l) lines
    \<and> code = Some (if 0 < k \<and> a + k = 27 then 0 else 5)"
proof -
  have server: "source = canonical_session" "store = RingSeqStore_with_capacity (cache_size args)" "warmup = []"
    using assms(1) by (auto simp: server_run_def Let_def split: if_splits SourceKind.splits Transport.splits)
  have ring: "ring_ok store" "max_seen store = 0"
    by (simp_all add: server RingSeqStore_with_capacity_def ring_ok_def)
  have ms: "ms = canonical_session"
    using tcp_ingest_messages [OF ring(1) _ assms(2)] ring(2) by (simp add: server canonical_length source_messages_all)
  let ?all = "take b (drop a canonical_session)"
  have "\<forall>m \<in> set ([] @ taken events). Message_ok m"
    using canonical_ok assms(3) by (auto simp: ms list_all_iff dest!: in_set_takeD in_set_dropD)
  from tcp_subscriber_decodes [OF this assms(5) [unfolded server] assms(6)] obtain k where
    k: "k \<le> length ?all" "k < length ?all \<longrightarrow> \<not> sends k"
    and feed: "fst (feeds ItchCodec_decode (ItchCodec_default, []) chunks) = map Inr (take k ?all)"
    unfolding assms(3) ms append_Nil by blast
  have "length ?all = min b (27 - a)" by (simp add: canonical_length min.commute)
  moreover have "take k ?all = take k (drop a canonical_session)" using k(1) by (simp add: min.absorb1)
  moreover have "list_all (\<lambda>m. newline \<notin> set (fmt_message m)) (take k (drop a canonical_session))"
    using canonical_lines by (auto simp: list_all_iff dest!: in_set_takeD in_set_dropD)
  moreover have "a \<le> 27" using assms(4) by (simp add: ms canonical_length)
  ultimately show ?thesis
    using k assms(7) client_canonical [of a k]
    by (intro exI [of _ k]) (auto simp: feed list.pred_map comp_def)
qed

theorem demo_session_witness:
  "\<exists>args next_seq store' st. server_run (\<lambda>_. True) (\<lambda>_. True) None args
        = Inr (Tcp, canonical_session, RingSeqStore_with_capacity 16, [])
    \<and> tcp_ingest RingSeqStore_latest RingSeqStore_store (map Inr canonical_session) (RingSeqStore_with_capacity 16)
        = (canonical_session, next_seq, store')
    \<and> tcp_handle_subscriber (\<lambda>_. True) (Inr []) [Received (canonical_session ! 26), Closed] = Inl st
    \<and> run_tcp True (\<lambda>_. Written) (map (Item \<circ> Some) (fst (feeds ItchCodec_decode (ItchCodec_default, []) [out st])) @ [Item None])
        = (Some 0, [fmt_message (canonical_session ! 26)])"
proof -
  let ?args = "\<lparr>bind = None, transport = Tcp, source_kind = Iterator, source_path = None, cache_size = 16\<rparr>"
  let ?s = "RingSeqStore_with_capacity 16" and ?events = "[Received (canonical_session ! 26), Closed]"
  have run: "server_run (\<lambda>_. True) (\<lambda>_. True) None ?args = Inr (Tcp, canonical_session, ?s, [])"
    by (simp add: server_run_def)
  obtain ms next_seq store' where i:
    "tcp_ingest RingSeqStore_latest RingSeqStore_store (map Inr canonical_session) ?s = (ms, next_seq, store')"
    by (metis prod_cases3)
  have ms: "ms = canonical_session"
    using tcp_ingest_messages [OF _ _ i]
    by (simp add: RingSeqStore_with_capacity_def ring_ok_def canonical_length source_messages_all)
  have last: "drop 26 canonical_session = [canonical_session ! 26]"
    by (simp add: Cons_nth_drop_Suc [symmetric] canonical_length)
  have "Message_ok (canonical_session ! 26)" using canonical_ok by (simp add: list_all_length canonical_length)
  then obtain st where st: "tcp_handle_subscriber (\<lambda>_. True) (Inr []) ?events = Inl st"
    by (simp add: tcp_handle_subscriber_def tcp_send_ok)
  obtain code lines where c: "run_tcp True (\<lambda>_. Written)
      (map (Item \<circ> Some) (fst (feeds ItchCodec_decode (ItchCodec_default, []) [out st])) @ [Item None]) = (code, lines)"
    by fastforce
  have "code = Some 0 \<and> lines = [fmt_message (canonical_session ! 26)]"
    using demo_session [OF run i _ _ _ _ c, of ?events 1 26 "\<lambda>_. True"] st
    by (auto simp: ms last canonical_length)
  with run i st c show ?thesis unfolding ms by blast
qed

end
