(* ===== verification/Itch_Postgres.thy ===== *)
theory Itch_Postgres
  imports Itch_Source
begin

text \<open>
  The store over a PostgreSQL table, \<open>itch-source-postgres/src/lib.rs\<close>.  The database is a parameter: one function per
  statement the store sends, with the name of the table and the bound values as arguments and an error or the
  rows as the result.  A \<open>BIGINT\<close> is an integer.  What the lemmas need of the database is the predicate \<open>sql_table\<close>,
  the documented meaning of the statements; under it the store is compared with the store contract.
\<close>

section \<open>Definitions\<close>


record 'db Postgres =
  connect_pool :: "bytes \<Rightarrow> u32 \<Rightarrow> string + 'db"
  ping :: "'db \<Rightarrow> string + unit"
  create_table :: "bytes \<Rightarrow> 'db \<Rightarrow> (string + unit) \<times> 'db"
  create_index :: "bytes \<Rightarrow> 'db \<Rightarrow> (string + unit) \<times> 'db"
  drop_if_exists :: "bytes \<Rightarrow> 'db \<Rightarrow> (string + unit) \<times> 'db"
  insert_row :: "bytes \<Rightarrow> int \<Rightarrow> bytes \<Rightarrow> 'db \<Rightarrow> (string + unit) \<times> 'db"
  select_rows :: "bytes \<Rightarrow> int \<Rightarrow> int \<Rightarrow> 'db \<Rightarrow> string + (int \<times> bytes) list"
  select_max :: "bytes \<Rightarrow> 'db \<Rightarrow> string + int"
  select_min :: "bytes \<Rightarrow> 'db \<Rightarrow> string + int"

record PostgresSeqStoreConfig =
  url :: bytes
  table :: bytes
  max_connections :: u32

text \<open>An error of the database, or the one \<open>store\<close> makes for a number beyond \<open>BIGINT\<close>.\<close>

datatype SqlError = Database string | ExceedsBigint u64

datatype PostgresSeqStoreError =
    Sqlx SqlError
  | Encode ProtocolError
  | Decode ProtocolError
  | MigrationFailed string
  | InvalidTableName bytes

abbreviation is_ascii_alphabetic :: "u8 \<Rightarrow> bool" where
  "is_ascii_alphabetic b \<equiv> 0x41 \<le> b \<and> b \<le> 0x5A \<or> 0x61 \<le> b \<and> b \<le> 0x7A"

abbreviation is_ascii_alphanumeric :: "u8 \<Rightarrow> bool" where
  "is_ascii_alphanumeric b \<equiv> is_ascii_alphabetic b \<or> 0x30 \<le> b \<and> b \<le> 0x39"

definition validate_identifier :: "bytes \<Rightarrow> PostgresSeqStoreError + unit" where
  "validate_identifier name =
    (case name of
       [] \<Rightarrow> Inl (InvalidTableName name)
     | c # cs \<Rightarrow>
         if \<not> (is_ascii_alphabetic c \<or> c = byte CHR ''_'') then Inl (InvalidTableName name)
         else if \<exists>c \<in> set cs. \<not> (is_ascii_alphanumeric c \<or> c = byte CHR ''_'') then Inl (InvalidTableName name)
         else Inr ())"

abbreviation sqlx :: "string + 'a \<Rightarrow> PostgresSeqStoreError + 'a" where
  "sqlx r \<equiv> map_sum (Sqlx \<circ> Database) id r"

definition PostgresSeqStore_connect ::
  "'db Postgres \<Rightarrow> PostgresSeqStoreConfig \<Rightarrow> PostgresSeqStoreError + 'db \<times> bytes" where
  "PostgresSeqStore_connect pg config =
    and_then (validate_identifier (table config)) (\<lambda>_.
    and_then (sqlx (connect_pool pg (url config) (max_connections config))) (\<lambda>pool.
    and_then (sqlx (ping pg pool)) (\<lambda>_.
    Inr (pool, table config))))"

definition PostgresSeqStore_migrate :: "'db Postgres \<Rightarrow> bytes \<Rightarrow> 'db \<Rightarrow> (PostgresSeqStoreError + unit) \<times> 'db" where
  "PostgresSeqStore_migrate pg t db =
    (case validate_identifier t of
       Inl e \<Rightarrow> (Inl e, db)
     | Inr _ \<Rightarrow>
         (case create_table pg t db of
            (Inl e, db) \<Rightarrow> (Inl (MigrationFailed (''CREATE TABLE: '' @ e)), db)
          | (Inr _, db) \<Rightarrow>
              (case create_index pg t db of
                 (Inl e, db) \<Rightarrow> (Inl (MigrationFailed (''CREATE INDEX: '' @ e)), db)
               | (Inr _, db) \<Rightarrow> (Inr (), db))))"

definition PostgresSeqStore_drop_table :: "'db Postgres \<Rightarrow> bytes \<Rightarrow> 'db \<Rightarrow> (PostgresSeqStoreError + unit) \<times> 'db" where
  "PostgresSeqStore_drop_table pg t db =
    (case validate_identifier t of
       Inl e \<Rightarrow> (Inl e, db)
     | Inr _ \<Rightarrow> map_prod sqlx id (drop_if_exists pg t db))"







section \<open>The statements\<close>











section \<open>Reading a range\<close>







section \<open>Writing and the bounds\<close>




section \<open>Properties\<close>





end
