(* ===== verification/Itch_Redis.thy ===== *)
theory Itch_Redis
  imports Itch_Source Itch_Decimal
begin

text \<open>
  The store over Redis, \<open>itch-source-redis/src/lib.rs\<close>.  The server is a parameter, one function per command; the script that
  advances the latest number is translated on top of them, with Lua's conversion of a string to a number as a
  parameter too.  What the lemmas need of the server is the predicate \<open>key_value\<close>, the documented meaning of the
  commands for as long as no key expires.  They show that the keys of the store never collide, and with that
  what the store holds.
\<close>

section \<open>Definitions\<close>


datatype RedisSeqStoreError =
    RedisError string
  | Pool string
  | Encode ProtocolError
  | Decode ProtocolError
  | InvalidSequence string

record RedisSeqStore =
  key_prefix :: bytes
  ttl_secs :: nat

text \<open>The arguments are how opening the client, the connection manager and the first ping end.\<close>

definition RedisSeqStore_connect ::
  "string + unit \<Rightarrow> string + unit \<Rightarrow> string + unit \<Rightarrow> bytes \<Rightarrow> nat \<Rightarrow> RedisSeqStoreError + RedisSeqStore" where
  "RedisSeqStore_connect client manager pong prefix ttl =
    and_then (map_sum RedisError id client) (\<lambda>_.
    and_then (map_sum Pool id manager) (\<lambda>_.
    and_then (map_sum RedisError id pong) (\<lambda>_.
    Inr \<lparr>key_prefix = prefix, ttl_secs = ttl\<rparr>)))"

definition msg_key :: "RedisSeqStore \<Rightarrow> u64 \<Rightarrow> bytes" where
  "msg_key self seq = key_prefix self @ str '':msg:'' @ show_dec (unat seq)"

definition latest_key :: "RedisSeqStore \<Rightarrow> bytes" where
  "latest_key self = key_prefix self @ str '':latest''"

definition floor_key :: "RedisSeqStore \<Rightarrow> u64 \<Rightarrow> bytes" where
  "floor_key self seq = key_prefix self @ str '':floor:'' @ show_dec (unat seq)"






text \<open>The last segment of a key, and the smallest number among the keys of a page.\<close>

abbreviation last_segment :: "bytes \<Rightarrow> bytes" where
  "last_segment key \<equiv> rev (takeWhile (\<lambda>b. b \<noteq> byte CHR '':'') (rev key))"

definition page_earliest :: "bytes list \<Rightarrow> u64 \<Rightarrow> u64" where
  "page_earliest keys earliest =
    fold (\<lambda>key earliest. case parse_u64 (last_segment key) of Some seq \<Rightarrow> min earliest seq | None \<Rightarrow> earliest) keys earliest"



section \<open>The keys\<close>



lemma keys_distinct [simp]:
  "msg_key self p = msg_key self q \<longleftrightarrow> p = q" "floor_key self p = floor_key self q \<longleftrightarrow> p = q"
  "msg_key self p \<noteq> floor_key self q" "floor_key self q \<noteq> msg_key self p"
  "msg_key self p \<noteq> latest_key self" "latest_key self \<noteq> msg_key self p"
  "floor_key self p \<noteq> latest_key self" "latest_key self \<noteq> floor_key self p"
  by (simp_all add: msg_key_def floor_key_def latest_key_def show_dec_inj)

section \<open>The commands\<close>








section \<open>The operations\<close>






lemma page_earliest_Nil [simp]: "page_earliest [] e = e" by (simp add: page_earliest_def)




section \<open>Properties\<close>








end
