(* ===== verification/Itch_Kafka.thy ===== *)
theory Itch_Kafka
  imports Itch_Tcp_Server
begin

text \<open>
  The source over a Kafka topic, \<open>itch-source-kafka/src/lib.rs\<close>.  The consumer of rdkafka is a parameter: how its creation and
  the subscription end, and what a poll of its stream gives.  The lemma composes the source with the ingest
  task of a server.
\<close>

section \<open>Definitions\<close>

datatype AutoOffsetReset = Earliest | Latest

fun AutoOffsetReset_as_str :: "AutoOffsetReset \<Rightarrow> string" where
  "AutoOffsetReset_as_str Earliest = ''earliest''"
| "AutoOffsetReset_as_str Latest = ''latest''"

record KafkaSourceConfig =
  brokers :: string
  group_id :: string
  topic :: string
  auto_offset_reset :: AutoOffsetReset
  additional_props :: "(string \<times> string) list"

datatype KafkaSourceError =
    Kafka string
  | Decode ProtocolError
  | Config string

record 'c KafkaSource =
  consumer :: 'c
  topic_name :: string
  decoder :: "bytes \<Rightarrow> ProtocolError + Message"

text \<open>The properties of the client, and the creation of a source; \<open>default_decoder\<close> is \<open>Message::decode\<close>.\<close>

definition client_config :: "KafkaSourceConfig \<Rightarrow> string \<rightharpoonup> string" where
  "client_config config =
    fold (\<lambda>(k, v) props. props(k \<mapsto> v)) (additional_props config)
      [''bootstrap.servers'' \<mapsto> brokers config, ''group.id'' \<mapsto> group_id config, ''enable.auto.commit'' \<mapsto> ''true'',
       ''auto.offset.reset'' \<mapsto> AutoOffsetReset_as_str (auto_offset_reset config)]"

definition KafkaSource_connect ::
  "((string \<rightharpoonup> string) \<Rightarrow> string + 'c) \<Rightarrow> ('c \<Rightarrow> string \<Rightarrow> string + unit) \<Rightarrow> KafkaSourceConfig
    \<Rightarrow> KafkaSourceError + 'c KafkaSource" where
  "KafkaSource_connect create subscribe config =
    (if brokers config = [] then Inl (Config ''brokers must not be empty'')
     else if group_id config = [] then Inl (Config ''group_id must not be empty'')
     else if topic config = [] then Inl (Config ''topic must not be empty'')
     else and_then (map_sum Kafka id (create (client_config config))) (\<lambda>c.
       and_then (map_sum Kafka id (subscribe c (topic config))) (\<lambda>_.
       Inr \<lparr>consumer = c, topic_name = topic config, decoder = Message_decode\<rparr>)))"

definition KafkaSource_with_decoder :: "'c KafkaSource \<Rightarrow> (bytes \<Rightarrow> ProtocolError + Message) \<Rightarrow> 'c KafkaSource" where
  "KafkaSource_with_decoder self d = self\<lparr>decoder := d\<rparr>"

text \<open>What a poll of the consumer gives: an error, or a record with its payload, if it has one.  \<open>display\<close> is the text
  of a decode error.\<close>

type_synonym kafka_record = "string + bytes option"

definition KafkaSource_poll_next ::
  "(ProtocolError \<Rightarrow> string) \<Rightarrow> 'c KafkaSource \<Rightarrow> kafka_record option Poll \<Rightarrow> (SourceError + Message) option Poll" where
  "KafkaSource_poll_next display self polled =
    (case polled of
       Ready (Some (Inr payload)) \<Rightarrow>
         (case payload of
            None \<Rightarrow> Ready (Some (Inl (Backend ''kafka record had no payload'')))
          | Some p \<Rightarrow>
              (case decoder self p of
                 Inr msg \<Rightarrow> Ready (Some (Inr msg))
               | Inl err \<Rightarrow> Ready (Some (Inl (Backend (display err))))))
     | Ready (Some (Inl err)) \<Rightarrow> Ready (Some (Inl (Backend err)))
     | Ready None \<Rightarrow> Ready None
     | Pending \<Rightarrow> Pending)"

section \<open>A feed from a topic\<close>

text \<open>The items a source yields for the records of its topic, and the message of a record.\<close>

definition kafka_items :: "(ProtocolError \<Rightarrow> string) \<Rightarrow> 'c KafkaSource \<Rightarrow> kafka_record list \<Rightarrow> (SourceError + Message) list" where
  "kafka_items display self records =
    map (\<lambda>r. case KafkaSource_poll_next display self (Ready (Some r)) of Ready (Some item) \<Rightarrow> item) records"

definition record_message :: "'c KafkaSource \<Rightarrow> kafka_record \<Rightarrow> Message option" where
  "record_message self r = (case r of Inr (Some p) \<Rightarrow> (case decoder self p of Inr m \<Rightarrow> Some m | Inl _ \<Rightarrow> None) | _ \<Rightarrow> None)"

lemma kafka_source_messages:
  "source_messages (kafka_items display self records)
    = map (the \<circ> record_message self) (takeWhile (\<lambda>r. record_message self r \<noteq> None) records)"
  by (induction records)
    (auto simp: kafka_items_def KafkaSource_poll_next_def record_message_def split: sum.split option.split)

text \<open>A record that cannot be decoded ends the feed of a server: the ingest task stops at the first error of its
  source, and the records behind it are not published.\<close>

lemma kafka_feed:
  assumes "ring_ok s" "unat (max_seen s) + 2 + length records < 2 ^ 64"
    and "tcp_ingest RingSeqStore_latest RingSeqStore_store (kafka_items display self records) s = (ms, next_seq, s')"
  shows "ms = map (the \<circ> record_message self) (takeWhile (\<lambda>r. record_message self r \<noteq> None) records)"
  using tcp_ingest_messages [OF assms(1) _ assms(3)] assms(2)
  by (simp add: kafka_source_messages) (simp add: kafka_items_def)

end
