(* ===== verification/Spec2Isabelle.thy ===== *)
theory Spec2Isabelle
  imports Itch_Book_Manager Itch_Ohlcv Itch_Mold_System Itch_Soup_Resilient Itch_Soup_System Itch_Replay Itch_Compressed Itch_Conformance Itch_Store_Contract Itch_Compressed_Resilient Itch_Demo Itch_Postgres Itch_Redis Itch_Kafka
begin

text \<open>
  A verification of \<open>itch-rs\<close>, a Rust workspace for the Nasdaq TotalView-ITCH 5.0 market data feed.  Source paths below
  are relative to \<open>src/crates/\<close>.

  \<^bold>\<open>The program.\<close>  \<open>itch-protocol\<close> defines the twenty messages and their wire format.  \<open>itch-book\<close> rebuilds order books
  and bars from a stream of messages.  Messages come from a \<open>MessageSource\<close> and are numbered, kept in a
  \<open>SeqStore\<close> and broadcast by the ingest task of a server (\<open>itch-source\<close>, \<open>itch-tcp\<close>, \<open>itch-soup\<close>).  Three transports
  carry them to a subscriber: a length prefix over TCP (\<open>itch-tcp\<close>), SoupBinTCP sessions with login, sequence
  numbers, heartbeats and resume (\<open>itch-soup\<close>, with compressed packets in \<open>itch-compressed\<close>), and MoldUDP64
  multicast with a re-request service that closes gaps (\<open>itch-mold\<close>).  \<open>itch-replay\<close> reads captures,
  \<open>itch-conformance\<close> publishes test vectors, \<open>itch-server\<close> and \<open>itch-client\<close> are the reference programs.

  \<^bold>\<open>Conventions.\<close>  A struct is a record, an enum a datatype with the same constructors, an unsigned integer a word of
  its width, \<open>usize\<close> a natural number, a string the list of its UTF-8 bytes.  A fallible function
  returns \<open>error + value\<close> and \<open>?\<close> is \<open>and_then\<close>; a method that changes \<open>self\<close> returns the new
  state.  A \<open>BTreeMap\<close> is a sorted association list, a \<open>HashMap\<close> a map whose visiting order, where the code
  depends on it, is an argument.  What the outside world does is an argument too: the chunks a socket
  yields, whether a send succeeds, the events a \<open>select!\<close> sees, the clock, what the store holds when a task
  reads it, the zstd library.  A theorem about a definition with such arguments therefore holds for
  every behaviour of the environment.  A task in phases has the type \<open>st + st\<close>: \<open>Inl\<close> when it has returned.

  \<^bold>\<open>Theories.\<close>

  \<^item> \<open>Itch_Prelude\<close>: words, bytes, the error monad, saturating arithmetic, sorted association lists,
  slices, and the collections of simplification rules the others use.

  \<^item> \<open>Itch_Primitives\<close>, \<open>Itch_Enums\<close>, \<open>Itch_Messages\<close> (\<open>itch-protocol/src/{error,primitives,enums,messages}.rs\<close>): the
  newtypes with padding, trimming and UTF-8 validation; the enums as tables of variant and byte, which is
  what the \<open>enum_alpha!\<close> macro expands to, under the locale \<open>alpha_coded\<close>; the records and the union.

  \<^item> \<open>Itch_Wire\<close>, \<open>Itch_Codec\<close>, \<open>Itch_Body_Codec\<close>, \<open>Itch_Message_Codec\<close> (\<open>codec.rs\<close>): the byte helpers, the pair of
  functions of every message kind, and \<open>Message::encode\<close> and \<open>decode\<close>.  The locale \<open>body_codec\<close> says what a
  body codec promises and has twenty interpretations.  Shown: round trip, canonical encoding, the exact
  error of every rejected buffer.  \<open>Itch_Conformance\<close> evaluates the published vectors.

  \<^item> \<open>Itch_Book_L2\<close>, \<open>Itch_Book_L3\<close>, \<open>Itch_Book_Manager\<close>, \<open>Itch_Ohlcv\<close> (\<open>itch-book/src/\<close>): the price-level book, the book of
  queues, the router over symbols and the bars.  The locale \<open>book_machine\<close> carries invariants over streams
  of messages.  Shown: levels are the sums of their orders, queues are in arrival order, the queue book
  refines the level book and its summary equals it, symbols do not influence each other, a bar is the
  reference bar of the printable trades, what is left of a book after an error.

  \<^item> \<open>Itch_Mold_Codec\<close>, \<open>Itch_Mold_Receiver\<close>, \<open>Itch_Mold_Request\<close>, \<open>Itch_Mold_Publisher\<close>, \<open>Itch_Mold_Stream\<close>, \<open>Itch_Mold_System\<close>
  (\<open>itch-mold/src/\<close>): packets, the receiver state machine, cache and conversation of the re-request service,
  the publisher, the stream with its silence timer and gap recovery, and all of them composed over a
  network that loses, repeats and reorders.  Shown: in-order delivery without repetition, progress, the
  bound of the pending buffer, bounds of a recovery, when a poll returns.

  \<^item> \<open>Itch_Framing\<close>, \<open>Itch_Tcp\<close>, \<open>Itch_Soup_Codec\<close> (\<open>itch-tcp/src/lib.rs\<close>, \<open>itch-soup/src/lib.rs\<close>): a framed decoder under the
  locale \<open>frame_codec\<close>, whose lemmas make its results independent of how the stream is cut, and the two
  codecs as interpretations.

  \<^item> \<open>Itch_Source\<close>, \<open>Itch_Ingest\<close>, \<open>Itch_Store_Contract\<close>, \<open>Itch_Synthetic\<close> (\<open>itch-source/src/\<close>): the store contract as the locales
  \<open>seq_store_reader\<close> and \<open>seq_store\<close>, interpreted on the ring buffer and, for reading, on the null store; sources,
  warm-up policies and the ingest task, whose lemmas are proved under the contract; the published contract
  test; the default session of the server.

  \<^item> \<open>Itch_Tcp_Server\<close>, \<open>Itch_Soup_Session\<close>, \<open>Itch_Soup_Server\<close>, \<open>Itch_Soup_System\<close>, \<open>Itch_Soup_Resilient\<close>, \<open>Itch_Compressed\<close>,
  \<open>Itch_Compressed_Resilient\<close> (\<open>itch-tcp/src/server.rs\<close>, \<open>itch-soup/src/{connection,heartbeat,server,resilient}.rs\<close>, \<open>itch-compressed/src/lib.rs\<close>): the
  task of a subscriber, the client session, the reconnecting client, compressed sessions.  Shown: from the
  source to the client every message arrives once and in order up to the first failed send, no data
  before an accepted login, resume over any pattern of lost connections, a bad packet costs its own
  messages only.

  \<^item> \<open>Itch_Replay\<close> (\<open>itch-replay/src/lib.rs\<close>): both capture formats over a reader that may return any part of what is asked.
  \<open>Itch_Client\<close>, \<open>Itch_Demo\<close> (\<open>itch-client/src/main.rs\<close>, \<open>itch-server/src/main.rs\<close>): the printed line of every message, the
  loops with their exit codes, and a whole session of the reference pair.

  \<^item> \<open>Itch_Postgres\<close>, \<open>Itch_Redis\<close>, \<open>Itch_Kafka\<close> (\<open>itch-source-{postgres,redis,kafka}/src/lib.rs\<close>), with \<open>Itch_Decimal\<close> for numbers as
  text: the stores and the source over external services.  A service is a record of functions, one per statement
  or command, and the theorems assume the documented meaning of those (\<open>sql_table\<close>, \<open>key_value\<close>); the witnesses
  instantiate them with lists.  Shown: how far the stores meet the store contract.

  \<^bold>\<open>Loops.\<close>  Loops over data are structural recursions or functions with a measure.  Four loops wait for the
  outside world and are partial functions into \<open>option\<close>, where \<open>None\<close> is a run that never ends: the poll
  loop of the MoldUDP64 stream, the reconnecting clients, the replay of a subscriber and the key scan of the
  Redis store.  For the poll loop the theorem is an equivalence: it returns exactly under the stated
  condition; the theorems on the others state that they return, the reconnecting client when
  attempts keep succeeding (for the compressed one the connect loop with a bound on its attempts), the scan when the iteration is complete.  No definition uses fuel.  Bounds in
  the theorems are those of the types: fewer than \<open>2 ^ 64\<close> messages where a number would saturate, frames within the limits of the codecs.

  \<^bold>\<open>Not modelled.\<close>  Opening, binding and closing sockets, joining multicast groups, spawning of tasks and the accept
  loops: I/O and scheduling without a result to state.  Log output and the texts of errors.  The floating
  point helpers of the prices, which are for display.  Command line parsing (clap).  The scenario drivers of
  \<open>itch-conformance/src/{soup,mold}.rs\<close>, which talk to an external program.  \<open>itch-rs\<close> only re-exports,
  \<open>itch-orderbook\<close> is empty, the fuzz targets call the decoders.
\<close>

end
